(* ===== verification/Prelude.thy ===== *)
theory Prelude
  imports Main "HOL-Library.Word"
begin

text \<open>
  The vocabulary every component shares: the machine integer types of the Rust sources as
  words, the checked and saturating arithmetic of the standard library on them, the
  \<open>Result\<close> type as a sum with \<open>Inl\<close> for \<open>Err\<close>, and the lemmas that carry
  arithmetic from words to natural numbers.  A public key and a hash are 32 bytes in the source
  and a 256-bit word here (the bytes read big-endian), so that equality and order agree with the
  derived ones of the source.
\<close>

section \<open>Machine integers\<close>

type_synonym u8 = "8 word"
type_synonym u16 = "16 word"
type_synonym u32 = "32 word"
type_synonym u64 = "64 word"
type_synonym u128 = "128 word"

type_synonym slot = u64
type_synonym epoch = u64
type_synonym pubkey = "256 word"
type_synonym hash = "256 word"
type_synonym bytes = "u8 list"

text \<open>
  Facts that turn a checked or saturating operation into arithmetic on \<open>nat\<close>.
\<close>

named_theorems word_nat
named_theorems result_simps

text \<open>The definitions by which \<open>simp\<close> runs the model on a concrete input.\<close>

named_theorems exec

definition checked_add :: "'a::len word \<Rightarrow> 'a word \<Rightarrow> 'a word option" where
  "checked_add a b = (if unat a + unat b < 2 ^ LENGTH('a) then Some (a + b) else None)"

definition checked_sub :: "'a::len word \<Rightarrow> 'a word \<Rightarrow> 'a word option" where
  "checked_sub a b = (if b \<le> a then Some (a - b) else None)"

definition checked_mul :: "'a::len word \<Rightarrow> 'a word \<Rightarrow> 'a word option" where
  "checked_mul a b = (if unat a * unat b < 2 ^ LENGTH('a) then Some (a * b) else None)"

definition checked_div :: "'a::len word \<Rightarrow> 'a word \<Rightarrow> 'a word option" where
  "checked_div a b = (if b = 0 then None else Some (a div b))"

definition checked_rem :: "'a::len word \<Rightarrow> 'a word \<Rightarrow> 'a word option" where
  "checked_rem a b = (if b = 0 then None else Some (a mod b))"

definition saturating_add :: "'a::len word \<Rightarrow> 'a word \<Rightarrow> 'a word" where
  "saturating_add a b = (if unat a + unat b < 2 ^ LENGTH('a) then a + b else - 1)"

definition saturating_sub :: "'a::len word \<Rightarrow> 'a word \<Rightarrow> 'a word" where
  "saturating_sub a b = (if b \<le> a then a - b else 0)"

definition saturating_mul :: "'a::len word \<Rightarrow> 'a word \<Rightarrow> 'a word" where
  "saturating_mul a b = (if unat a * unat b < 2 ^ LENGTH('a) then a * b else - 1)"

definition saturating_pow :: "'a::len word \<Rightarrow> nat \<Rightarrow> 'a word" where
  "saturating_pow a n = (if unat a ^ n < 2 ^ LENGTH('a) then a ^ n else - 1)"

text \<open>Saturating arithmetic of \<open>i64\<close>, with values as integers.\<close>

definition i64_min :: int where "i64_min = - (2 ^ 63)"
definition i64_max :: int where "i64_max = 2 ^ 63 - 1"

definition i64_clamp :: "int \<Rightarrow> int" where
  "i64_clamp x = (if x < i64_min then i64_min else if i64_max < x then i64_max else x)"

definition i64_saturating_add :: "int \<Rightarrow> int \<Rightarrow> int" where
  "i64_saturating_add a b = i64_clamp (a + b)"

definition i64_saturating_sub :: "int \<Rightarrow> int \<Rightarrow> int" where
  "i64_saturating_sub a b = i64_clamp (a - b)"

lemmas [exec] =
  checked_add_def checked_sub_def checked_mul_def checked_div_def checked_rem_def
  saturating_add_def saturating_sub_def saturating_mul_def saturating_pow_def
  i64_min_def i64_max_def i64_clamp_def i64_saturating_add_def i64_saturating_sub_def

lemma unat_plus_no_overflow:
  fixes a b :: "'a::len word"
  assumes "unat a + unat b < 2 ^ LENGTH('a)"
  shows "unat (a + b) = unat a + unat b"
  using assms by (simp add: unat_word_ariths)

lemma unat_minus_no_borrow:
  fixes a b :: "'a::len word"
  assumes "b \<le> a"
  shows "unat (a - b) = unat a - unat b"
  using assms by (rule unat_sub)

lemma unat_times_no_overflow:
  fixes a b :: "'a::len word"
  assumes "unat a * unat b < 2 ^ LENGTH('a)"
  shows "unat (a * b) = unat a * unat b"
  using assms by (simp add: unat_word_ariths)

lemma unat_power_no_overflow:
  fixes a :: "'a::len word"
  assumes "unat a ^ n < 2 ^ LENGTH('a)"
  shows "unat (a ^ n) = unat a ^ n"
proof -
  have "a ^ n = of_nat (unat a ^ n)"
    by simp
  then have "unat (a ^ n) = unat a ^ n mod 2 ^ LENGTH('a)"
    by (simp only: unat_of_nat)
  then show ?thesis
    using assms by simp
qed

lemma unat_max_word: "unat (- 1 :: 'a::len word) = 2 ^ LENGTH('a) - 1"
  by (simp add: unat_eq_nat_uint uint_word_ariths nat_mod_distrib zmod_minus1 nat_diff_distrib
      nat_power_eq)

lemma less_two_power_iff: "(m::nat) < 2 ^ n \<longleftrightarrow> m \<le> 2 ^ n - 1"
proof -
  have "0 < (2::nat) ^ n" by simp
  then show ?thesis by linarith
qed

lemma checked_add_Some [word_nat]:
  fixes a b c :: "'a::len word"
  assumes "checked_add a b = Some c"
  shows "unat c = unat a + unat b"
  using assms by (auto simp: checked_add_def unat_plus_no_overflow split: if_splits)

lemma checked_sub_Some [word_nat]:
  "checked_sub a b = Some c \<Longrightarrow> unat c + unat b = unat a"
  by (auto simp: checked_sub_def unat_minus_no_borrow word_le_nat_alt split: if_splits)

lemma checked_add_None_iff:
  "checked_add a b = None \<longleftrightarrow> 2 ^ LENGTH('a) \<le> unat a + unat (b :: 'a::len word)"
  by (auto simp: checked_add_def)

lemma checked_sub_None_iff: "checked_sub a b = None \<longleftrightarrow> a < b"
  by (auto simp: checked_sub_def)

lemma unat_saturating_add [word_nat]:
  fixes a b :: "'a::len word"
  shows "unat (saturating_add a b) = min (unat a + unat b) (2 ^ LENGTH('a) - 1)"
  by (auto simp: saturating_add_def unat_plus_no_overflow unat_max_word min_def)

lemma unat_saturating_sub [word_nat]: "unat (saturating_sub a b) = unat a - unat b"
  by (auto simp: saturating_sub_def unat_minus_no_borrow word_le_nat_alt)

lemma unat_saturating_mul [word_nat]:
  fixes a b :: "'a::len word"
  shows "unat (saturating_mul a b) = min (unat a * unat b) (2 ^ LENGTH('a) - 1)"
  by (auto simp: saturating_mul_def unat_times_no_overflow unat_max_word less_two_power_iff min_def)

lemma unat_saturating_pow [word_nat]:
  fixes a :: "'a::len word"
  shows "unat (saturating_pow a n) = min (unat a ^ n) (2 ^ LENGTH('a) - 1)"
  by (auto simp: saturating_pow_def unat_power_no_overflow unat_max_word less_two_power_iff min_def)

lemma le_saturating_add:
  fixes a b :: "'a::len word"
  shows "a \<le> saturating_add a b"
proof -
  have "unat a < 2 ^ LENGTH('a)" by (rule unsigned_less)
  then have "unat a \<le> 2 ^ LENGTH('a) - 1" by linarith
  then show ?thesis by (simp add: word_le_nat_alt unat_saturating_add)
qed

lemma unat_ucast_u64_u128: "unat (ucast (w :: u64) :: u128) = unat w"
  by (simp add: unsigned_ucast_eq take_bit_nat_eq_self unsigned_less [THEN less_le_trans])

lemma unat_ucast_u32: "unat (ucast (w :: u32) :: u64) = unat w"
  by (simp add: unsigned_ucast_eq take_bit_nat_eq_self unsigned_less [THEN less_le_trans])

section \<open>Results\<close>

text \<open>
  \<open>Result<T, E>\<close> is the sum \<open>'e + 'a\<close>; \<open>and_then\<close> is the \<open>?\<close> operator of the
  source followed by the rest of the function.
\<close>

definition and_then :: "'e + 'a \<Rightarrow> ('a \<Rightarrow> 'e + 'b) \<Rightarrow> 'e + 'b" where
  "and_then m f = (case m of Inl e \<Rightarrow> Inl e | Inr a \<Rightarrow> f a)"

definition ok_or :: "'a option \<Rightarrow> 'e \<Rightarrow> 'e + 'a" where
  "ok_or x e = (case x of None \<Rightarrow> Inl e | Some a \<Rightarrow> Inr a)"

definition map_err :: "('e \<Rightarrow> 'f) \<Rightarrow> 'e + 'a \<Rightarrow> 'f + 'a" where
  "map_err f m = (case m of Inl e \<Rightarrow> Inl (f e) | Inr a \<Rightarrow> Inr a)"

definition is_ok :: "'e + 'a \<Rightarrow> bool" where
  "is_ok m = (case m of Inl _ \<Rightarrow> False | Inr _ \<Rightarrow> True)"

lemma and_then_Inl [simp, result_simps]: "and_then (Inl e) f = Inl e"
  by (simp add: and_then_def)

lemma and_then_Inr [simp, result_simps]: "and_then (Inr a) f = f a"
  by (simp add: and_then_def)

lemma and_then_eq_Inr_iff [result_simps]:
  "and_then m f = Inr b \<longleftrightarrow> (\<exists>a. m = Inr a \<and> f a = Inr b)"
  by (cases m) auto

lemma and_then_eq_InrE:
  assumes "and_then m f = Inr b"
  obtains a where "m = Inr a" and "f a = Inr b"
  using assms by (cases m) auto

lemma ok_or_Some [simp, result_simps]: "ok_or (Some a) e = Inr a"
  by (simp add: ok_or_def)

lemma ok_or_None [simp, result_simps]: "ok_or None e = Inl e"
  by (simp add: ok_or_def)

lemma ok_or_eq_Inr_iff [result_simps]: "ok_or x e = Inr a \<longleftrightarrow> x = Some a"
  by (cases x) auto

lemma map_err_Inl [simp, result_simps]: "map_err f (Inl e) = Inl (f e)"
  by (simp add: map_err_def)

lemma map_err_Inr [simp, result_simps]: "map_err f (Inr a) = Inr a"
  by (simp add: map_err_def)

lemma map_err_eq_Inr_iff [result_simps]: "map_err f m = Inr a \<longleftrightarrow> m = Inr a"
  by (cases m) auto

lemma is_ok_simps [simp]: "is_ok (Inr a)" "\<not> is_ok (Inl e)"
  by (simp_all add: is_ok_def)

text \<open>
  Code that may also panic (a failed \<open>assert!\<close>, \<open>expect\<close> or \<open>unwrap\<close>) has \<open>Panic\<close> as one more
  way not to return.
\<close>

datatype 'e fault = Fault 'e | Panic

definition faulty :: "'e + 'a \<Rightarrow> 'e fault + 'a" where
  "faulty m = map_err Fault m"

definition assert_that :: "bool \<Rightarrow> 'e fault + unit" where
  "assert_that b = (if b then Inr () else Inl Panic)"

lemma faulty_simps [simp, result_simps]: "faulty (Inl e) = Inl (Fault e)" "faulty (Inr a) = Inr a"
  by (simp_all add: faulty_def)

lemma faulty_eq_Inr_iff [result_simps]: "faulty m = Inr a \<longleftrightarrow> m = Inr a"
  by (simp add: faulty_def map_err_eq_Inr_iff)

lemma faulty_not_Panic [simp]: "faulty m \<noteq> Inl Panic"
  by (cases m) simp_all

lemma assert_that_simps [simp, result_simps]:
  "assert_that True = Inr ()" "assert_that False = Inl Panic"
  by (simp_all add: assert_that_def)

lemma assert_that_eq_Inr_iff [result_simps]: "assert_that b = Inr u \<longleftrightarrow> b"
  by (simp add: assert_that_def)

lemma and_then_eq_Panic_iff:
  "and_then m f = Inl Panic \<longleftrightarrow> m = Inl Panic \<or> (\<exists>a. m = Inr a \<and> f a = Inl Panic)"
  by (cases m) simp_all

section \<open>Vectors\<close>

text \<open>\<open>slice.get(i)\<close>: \<open>None\<close> out of range.\<close>

definition get :: "'a list \<Rightarrow> nat \<Rightarrow> 'a option" where
  "get xs i = (if i < length xs then Some (xs ! i) else None)"

text \<open>\<open>slice.last()\<close> and \<open>VecDeque::back()\<close>.\<close>

definition last_opt :: "'a list \<Rightarrow> 'a option" where
  "last_opt xs = (if xs = [] then None else Some (last xs))"

lemmas [exec] = get_def last_opt_def upt_rec

lemma get_eq_Some_iff [result_simps]: "get xs i = Some x \<longleftrightarrow> i < length xs \<and> xs ! i = x"
  by (simp add: get_def)

lemma get_eq_None_iff: "get xs i = None \<longleftrightarrow> length xs \<le> i"
  by (simp add: get_def not_less)

lemma last_opt_Nil [simp]: "last_opt [] = None"
  by (simp add: last_opt_def)

lemma last_opt_snoc [simp]: "last_opt (xs @ [x]) = Some x"
  by (simp add: last_opt_def)

lemma last_opt_eq_Some_iff: "last_opt xs = Some x \<longleftrightarrow> xs \<noteq> [] \<and> last xs = x"
  by (simp add: last_opt_def)

text \<open>The first position with a property (\<open>Iterator::position\<close>), and the last (\<open>rposition\<close>).\<close>

primrec position :: "('a \<Rightarrow> bool) \<Rightarrow> 'a list \<Rightarrow> nat option" where
  "position P [] = None"
| "position P (x # xs) = (if P x then Some 0 else map_option Suc (position P xs))"

definition rposition :: "('a \<Rightarrow> bool) \<Rightarrow> 'a list \<Rightarrow> nat option" where
  "rposition P xs = map_option (\<lambda>i. length xs - 1 - i) (position P (rev xs))"

lemmas [exec] = rposition_def

lemma position_Some:
  "position P xs = Some i \<Longrightarrow> i < length xs \<and> P (xs ! i) \<and> (\<forall>j<i. \<not> P (xs ! j))"
proof (induction xs arbitrary: i)
  case (Cons x xs)
  then show ?case
    by (auto simp: less_Suc_eq_0_disj nth_Cons split: if_splits nat.splits)
qed simp

lemma position_None_iff: "position P xs = None \<longleftrightarrow> (\<forall>x\<in>set xs. \<not> P x)"
  by (induction xs) auto

lemma sum_list_update_nat:
  fixes f :: "'a \<Rightarrow> nat"
  assumes "i < length xs"
  shows "sum_list (map f (xs[i := y])) + f (xs ! i) = sum_list (map f xs) + f y"
  using assms
proof (induction xs arbitrary: i)
  case (Cons x xs)
  then show ?case
    by (cases i) (auto simp: algebra_simps)
qed simp

end
