(* ===== verification/Accounts.thy ===== *)
theory Accounts
  imports Prelude
begin

text \<open>
  \<^verbatim>\<open>sdk/src/account.rs\<close>: an account as the runtime holds it.  The shared buffer
  (\<open>Arc<Vec<u8>>\<close>) is copy-on-write, so the data of an account is a value, a list of bytes.
  \<open>bincode\<close>, which encodes program state into account data, is a third-party crate: a codec
  is a pair of functions given from outside, and its documented behaviour (what is written reads
  back, with trailing bytes allowed) is the named hypothesis \<open>bincode_law\<close>.
\<close>

record AccountSharedData =
  lamports :: u64
  data :: bytes
  owner :: pubkey
  executable :: bool
  rent_epoch :: epoch

datatype LamportsError = LE_ArithmeticUnderflow | LE_ArithmeticOverflow

definition acct_set_lamports :: "AccountSharedData \<Rightarrow> u64 \<Rightarrow> AccountSharedData" where
  "acct_set_lamports self l = self\<lparr>lamports := l\<rparr>"

definition acct_checked_add_lamports ::
    "AccountSharedData \<Rightarrow> u64 \<Rightarrow> LamportsError + AccountSharedData" where
  "acct_checked_add_lamports self l =
     and_then (ok_or (checked_add (lamports self) l) LE_ArithmeticOverflow)
       (\<lambda>s. Inr (acct_set_lamports self s))"

definition acct_checked_sub_lamports ::
    "AccountSharedData \<Rightarrow> u64 \<Rightarrow> LamportsError + AccountSharedData" where
  "acct_checked_sub_lamports self l =
     and_then (ok_or (checked_sub (lamports self) l) LE_ArithmeticUnderflow)
       (\<lambda>s. Inr (acct_set_lamports self s))"

definition acct_saturating_add_lamports :: "AccountSharedData \<Rightarrow> u64 \<Rightarrow> AccountSharedData" where
  "acct_saturating_add_lamports self l = acct_set_lamports self (saturating_add (lamports self) l)"

definition acct_saturating_sub_lamports :: "AccountSharedData \<Rightarrow> u64 \<Rightarrow> AccountSharedData" where
  "acct_saturating_sub_lamports self l = acct_set_lamports self (saturating_sub (lamports self) l)"

definition acct_set_owner :: "AccountSharedData \<Rightarrow> pubkey \<Rightarrow> AccountSharedData" where
  "acct_set_owner self o' = self\<lparr>owner := o'\<rparr>"

definition acct_set_executable :: "AccountSharedData \<Rightarrow> bool \<Rightarrow> AccountSharedData" where
  "acct_set_executable self b = self\<lparr>executable := b\<rparr>"

definition acct_set_rent_epoch :: "AccountSharedData \<Rightarrow> epoch \<Rightarrow> AccountSharedData" where
  "acct_set_rent_epoch self e = self\<lparr>rent_epoch := e\<rparr>"

definition acct_set_data :: "AccountSharedData \<Rightarrow> bytes \<Rightarrow> AccountSharedData" where
  "acct_set_data self d = self\<lparr>data := d\<rparr>"

text \<open>\<open>Vec::resize(n, 0)\<close>.\<close>

definition vec_resize :: "bytes \<Rightarrow> nat \<Rightarrow> bytes" where
  "vec_resize d n = take n d @ replicate (n - length d) 0"

definition shared_new :: "u64 \<Rightarrow> nat \<Rightarrow> pubkey \<Rightarrow> AccountSharedData" where
  "shared_new l space ow =
     \<lparr>lamports = l, data = replicate space 0, owner = ow, executable = False, rent_epoch = 0\<rparr>"

definition accounts_equal :: "AccountSharedData \<Rightarrow> AccountSharedData \<Rightarrow> bool" where
  "accounts_equal me other \<longleftrightarrow>
     lamports me = lamports other \<and> executable me = executable other \<and>
     rent_epoch me = rent_epoch other \<and> owner me = owner other \<and> data me = data other"

lemmas [exec] =
  acct_set_lamports_def acct_set_owner_def acct_set_executable_def acct_set_rent_epoch_def
  acct_set_data_def vec_resize_def shared_new_def

section \<open>Encoded state\<close>

record 's bincode =
  bc_serialize :: "'s \<Rightarrow> bytes option"
  bc_deserialize :: "bytes \<Rightarrow> 's option"

text \<open>\<open>bincode::serialize_into\<close> a slice overwrites its front and leaves the rest.\<close>

definition overwrite_front :: "bytes \<Rightarrow> bytes \<Rightarrow> bytes" where
  "overwrite_front d bs = bs @ drop (length bs) d"

definition bincode_law :: "'s bincode \<Rightarrow> 's \<Rightarrow> bool" where
  "bincode_law bc s \<longleftrightarrow>
     (\<forall>bs. bc_serialize bc s = Some bs \<longrightarrow> (\<forall>rest. bc_deserialize bc (bs @ rest) = Some s))"

lemma length_vec_resize [simp]: "length (vec_resize d n) = n"
  by (simp add: vec_resize_def)

lemma length_overwrite_front: "length bs \<le> length d \<Longrightarrow> length (overwrite_front d bs) = length d"
  by (simp add: overwrite_front_def)

lemma bincode_law_overwrite:
  assumes "bincode_law bc s" and "bc_serialize bc s = Some bs"
  shows "bc_deserialize bc (overwrite_front d bs) = Some s"
  using assms by (auto simp: bincode_law_def overwrite_front_def)

lemma accounts_equal_iff: "accounts_equal a b \<longleftrightarrow> a = b"
  by (cases a, cases b) (auto simp: accounts_equal_def)

end
