(* ===== verification/Errors.thy ===== *)
theory Errors
  imports Prelude
begin

text \<open>
  The error enumerations and their conversions: \<^verbatim>\<open>InstructionError\<close> of
  \<^verbatim>\<open>sdk/program/src/instruction.rs\<close>, \<^verbatim>\<open>ProgramError\<close> and the numeric codes of
  \<^verbatim>\<open>sdk/program/src/program_error.rs\<close>, and the errors of the system and nonce programs, of
  key derivation and of the vote program.  Every enumeration that derives \<open>ToPrimitive\<close> enters
  \<open>InstructionError\<close> through its discriminant (\<open>InstructionError_from\<close>), so two
  enumerations can share a code.
\<close>

datatype (plugins only: code size) InstructionError =
    GenericError
  | InvalidArgument
  | InvalidInstructionData
  | InvalidAccountData
  | AccountDataTooSmall
  | InsufficientFunds
  | IncorrectProgramId
  | MissingRequiredSignature
  | AccountAlreadyInitialized
  | UninitializedAccount
  | UnbalancedInstruction
  | ModifiedProgramId
  | ExternalAccountLamportSpend
  | ExternalAccountDataModified
  | ReadonlyLamportChange
  | ReadonlyDataModified
  | DuplicateAccountIndex
  | ExecutableModified
  | RentEpochModified
  | NotEnoughAccountKeys
  | AccountDataSizeChanged
  | AccountNotExecutable
  | AccountBorrowFailed
  | AccountBorrowOutstanding
  | DuplicateAccountOutOfSync
  | Custom u32
  | InvalidError
  | ExecutableDataModified
  | ExecutableLamportChange
  | ExecutableAccountNotRentExempt
  | UnsupportedProgramId
  | CallDepth
  | MissingAccount
  | ReentrancyNotAllowed
  | MaxSeedLengthExceeded
  | InvalidSeeds
  | InvalidRealloc
  | ComputationalBudgetExceeded
  | PrivilegeEscalation
  | ProgramEnvironmentSetupFailure
  | ProgramFailedToComplete
  | ProgramFailedToCompile
  | Immutable
  | IncorrectAuthority
  | BorshIoError string
  | AccountNotRentExempt
  | InvalidAccountOwner
  | ArithmeticOverflow
  | UnsupportedSysvar
  | IllegalOwner
  | MaxAccountsDataAllocationsExceeded
  | MaxAccountsExceeded
  | MaxInstructionTraceLengthExceeded

section \<open>Numeric codes\<close>

datatype (plugins only: code size) ProgramError =
    PE_Custom u32
  | PE_InvalidArgument
  | PE_InvalidInstructionData
  | PE_InvalidAccountData
  | PE_AccountDataTooSmall
  | PE_InsufficientFunds
  | PE_IncorrectProgramId
  | PE_MissingRequiredSignature
  | PE_AccountAlreadyInitialized
  | PE_UninitializedAccount
  | PE_NotEnoughAccountKeys
  | PE_AccountBorrowFailed
  | PE_MaxSeedLengthExceeded
  | PE_InvalidSeeds
  | PE_BorshIoError string
  | PE_AccountNotRentExempt
  | PE_UnsupportedSysvar
  | PE_IllegalOwner
  | PE_MaxAccountsDataAllocationsExceeded
  | PE_InvalidRealloc
  | PE_MaxInstructionTraceLengthExceeded

definition BUILTIN_BIT_SHIFT :: nat where
  "BUILTIN_BIT_SHIFT = 32"

definition to_builtin :: "u64 \<Rightarrow> u64" where
  "to_builtin error = push_bit BUILTIN_BIT_SHIFT error"

definition u64_from_ProgramError :: "ProgramError \<Rightarrow> u64" where
  "u64_from_ProgramError self =
     (case self of
        PE_InvalidArgument \<Rightarrow> to_builtin 2
      | PE_InvalidInstructionData \<Rightarrow> to_builtin 3
      | PE_InvalidAccountData \<Rightarrow> to_builtin 4
      | PE_AccountDataTooSmall \<Rightarrow> to_builtin 5
      | PE_InsufficientFunds \<Rightarrow> to_builtin 6
      | PE_IncorrectProgramId \<Rightarrow> to_builtin 7
      | PE_MissingRequiredSignature \<Rightarrow> to_builtin 8
      | PE_AccountAlreadyInitialized \<Rightarrow> to_builtin 9
      | PE_UninitializedAccount \<Rightarrow> to_builtin 10
      | PE_NotEnoughAccountKeys \<Rightarrow> to_builtin 11
      | PE_AccountBorrowFailed \<Rightarrow> to_builtin 12
      | PE_MaxSeedLengthExceeded \<Rightarrow> to_builtin 13
      | PE_InvalidSeeds \<Rightarrow> to_builtin 14
      | PE_BorshIoError _ \<Rightarrow> to_builtin 15
      | PE_AccountNotRentExempt \<Rightarrow> to_builtin 16
      | PE_UnsupportedSysvar \<Rightarrow> to_builtin 17
      | PE_IllegalOwner \<Rightarrow> to_builtin 18
      | PE_MaxAccountsDataAllocationsExceeded \<Rightarrow> to_builtin 19
      | PE_InvalidRealloc \<Rightarrow> to_builtin 20
      | PE_MaxInstructionTraceLengthExceeded \<Rightarrow> to_builtin 21
      | PE_Custom error \<Rightarrow> (if error = 0 then to_builtin 1 else ucast error))"

definition ProgramError_from_u64 :: "u64 \<Rightarrow> ProgramError" where
  "ProgramError_from_u64 error =
     (if error = to_builtin 1 then PE_Custom 0
      else if error = to_builtin 2 then PE_InvalidArgument
      else if error = to_builtin 3 then PE_InvalidInstructionData
      else if error = to_builtin 4 then PE_InvalidAccountData
      else if error = to_builtin 5 then PE_AccountDataTooSmall
      else if error = to_builtin 6 then PE_InsufficientFunds
      else if error = to_builtin 7 then PE_IncorrectProgramId
      else if error = to_builtin 8 then PE_MissingRequiredSignature
      else if error = to_builtin 9 then PE_AccountAlreadyInitialized
      else if error = to_builtin 10 then PE_UninitializedAccount
      else if error = to_builtin 11 then PE_NotEnoughAccountKeys
      else if error = to_builtin 12 then PE_AccountBorrowFailed
      else if error = to_builtin 13 then PE_MaxSeedLengthExceeded
      else if error = to_builtin 14 then PE_InvalidSeeds
      else if error = to_builtin 15 then PE_BorshIoError ''Unknown''
      else if error = to_builtin 16 then PE_AccountNotRentExempt
      else if error = to_builtin 17 then PE_UnsupportedSysvar
      else if error = to_builtin 18 then PE_IllegalOwner
      else if error = to_builtin 19 then PE_MaxAccountsDataAllocationsExceeded
      else if error = to_builtin 20 then PE_InvalidRealloc
      else if error = to_builtin 21 then PE_MaxInstructionTraceLengthExceeded
      else PE_Custom (ucast error))"

definition InstructionError_from :: "u64 \<Rightarrow> InstructionError" where
  "InstructionError_from error =
     (if error = to_builtin 1 then Custom 0
      else if error = to_builtin 2 then InvalidArgument
      else if error = to_builtin 3 then InvalidInstructionData
      else if error = to_builtin 4 then InvalidAccountData
      else if error = to_builtin 5 then AccountDataTooSmall
      else if error = to_builtin 6 then InsufficientFunds
      else if error = to_builtin 7 then IncorrectProgramId
      else if error = to_builtin 8 then MissingRequiredSignature
      else if error = to_builtin 9 then AccountAlreadyInitialized
      else if error = to_builtin 10 then UninitializedAccount
      else if error = to_builtin 11 then NotEnoughAccountKeys
      else if error = to_builtin 12 then AccountBorrowFailed
      else if error = to_builtin 13 then MaxSeedLengthExceeded
      else if error = to_builtin 14 then InvalidSeeds
      else if error = to_builtin 15 then BorshIoError ''Unknown''
      else if error = to_builtin 16 then AccountNotRentExempt
      else if error = to_builtin 17 then UnsupportedSysvar
      else if error = to_builtin 18 then IllegalOwner
      else if error = to_builtin 19 then MaxAccountsDataAllocationsExceeded
      else if error = to_builtin 20 then InvalidRealloc
      else if error = to_builtin 21 then MaxInstructionTraceLengthExceeded
      else if drop_bit BUILTIN_BIT_SHIFT error = 0 then Custom (ucast error)
      else InvalidError)"

definition ProgramError_try_from :: "InstructionError \<Rightarrow> InstructionError + ProgramError" where
  "ProgramError_try_from error =
     (case error of
        Custom err \<Rightarrow> Inr (PE_Custom err)
      | InvalidArgument \<Rightarrow> Inr PE_InvalidArgument
      | InvalidInstructionData \<Rightarrow> Inr PE_InvalidInstructionData
      | InvalidAccountData \<Rightarrow> Inr PE_InvalidAccountData
      | AccountDataTooSmall \<Rightarrow> Inr PE_AccountDataTooSmall
      | InsufficientFunds \<Rightarrow> Inr PE_InsufficientFunds
      | IncorrectProgramId \<Rightarrow> Inr PE_IncorrectProgramId
      | MissingRequiredSignature \<Rightarrow> Inr PE_MissingRequiredSignature
      | AccountAlreadyInitialized \<Rightarrow> Inr PE_AccountAlreadyInitialized
      | UninitializedAccount \<Rightarrow> Inr PE_UninitializedAccount
      | NotEnoughAccountKeys \<Rightarrow> Inr PE_NotEnoughAccountKeys
      | AccountBorrowFailed \<Rightarrow> Inr PE_AccountBorrowFailed
      | MaxSeedLengthExceeded \<Rightarrow> Inr PE_MaxSeedLengthExceeded
      | InvalidSeeds \<Rightarrow> Inr PE_InvalidSeeds
      | BorshIoError err \<Rightarrow> Inr (PE_BorshIoError err)
      | AccountNotRentExempt \<Rightarrow> Inr PE_AccountNotRentExempt
      | UnsupportedSysvar \<Rightarrow> Inr PE_UnsupportedSysvar
      | IllegalOwner \<Rightarrow> Inr PE_IllegalOwner
      | MaxAccountsDataAllocationsExceeded \<Rightarrow> Inr PE_MaxAccountsDataAllocationsExceeded
      | InvalidRealloc \<Rightarrow> Inr PE_InvalidRealloc
      | MaxInstructionTraceLengthExceeded \<Rightarrow> Inr PE_MaxInstructionTraceLengthExceeded
      | _ \<Rightarrow> Inl error)"

section \<open>Program errors\<close>

datatype SystemError =
    SE_AccountAlreadyInUse
  | SE_ResultWithNegativeLamports
  | SE_InvalidProgramId
  | SE_InvalidAccountDataLength
  | SE_MaxSeedLengthExceeded
  | SE_AddressWithSeedMismatch
  | SE_NonceNoRecentBlockhashes
  | SE_NonceBlockhashNotExpired
  | SE_NonceUnexpectedBlockhashValue

definition SystemError_to_u64 :: "SystemError \<Rightarrow> u64" where
  "SystemError_to_u64 self =
     (case self of
        SE_AccountAlreadyInUse \<Rightarrow> 0
      | SE_ResultWithNegativeLamports \<Rightarrow> 1
      | SE_InvalidProgramId \<Rightarrow> 2
      | SE_InvalidAccountDataLength \<Rightarrow> 3
      | SE_MaxSeedLengthExceeded \<Rightarrow> 4
      | SE_AddressWithSeedMismatch \<Rightarrow> 5
      | SE_NonceNoRecentBlockhashes \<Rightarrow> 6
      | SE_NonceBlockhashNotExpired \<Rightarrow> 7
      | SE_NonceUnexpectedBlockhashValue \<Rightarrow> 8)"

definition system_error :: "SystemError \<Rightarrow> InstructionError" where
  "system_error e = InstructionError_from (SystemError_to_u64 e)"

datatype NonceError = NE_NoRecentBlockhashes | NE_NotExpired | NE_UnexpectedValue | NE_BadAccountState

fun NonceError_to_u64 :: "NonceError \<Rightarrow> u64" where
  "NonceError_to_u64 NE_NoRecentBlockhashes = 0"
| "NonceError_to_u64 NE_NotExpired = 1"
| "NonceError_to_u64 NE_UnexpectedValue = 2"
| "NonceError_to_u64 NE_BadAccountState = 3"

definition nonce_error :: "NonceError \<Rightarrow> InstructionError" where
  "nonce_error e = InstructionError_from (NonceError_to_u64 e)"

definition nonce_to_instruction_error :: "NonceError \<Rightarrow> bool \<Rightarrow> InstructionError" where
  "nonce_to_instruction_error error use_system_variant =
     (if use_system_variant then
        (case error of
           NE_NoRecentBlockhashes \<Rightarrow> system_error SE_NonceNoRecentBlockhashes
         | NE_NotExpired \<Rightarrow> system_error SE_NonceBlockhashNotExpired
         | NE_UnexpectedValue \<Rightarrow> system_error SE_NonceUnexpectedBlockhashValue
         | NE_BadAccountState \<Rightarrow> InvalidAccountData)
      else nonce_error error)"

datatype PubkeyError = PKE_MaxSeedLengthExceeded | PKE_InvalidSeeds | PKE_IllegalOwner

fun PubkeyError_to_u64 :: "PubkeyError \<Rightarrow> u64" where
  "PubkeyError_to_u64 PKE_MaxSeedLengthExceeded = 0"
| "PubkeyError_to_u64 PKE_InvalidSeeds = 1"
| "PubkeyError_to_u64 PKE_IllegalOwner = 2"

definition pubkey_error :: "PubkeyError \<Rightarrow> InstructionError" where
  "pubkey_error e = InstructionError_from (PubkeyError_to_u64 e)"

datatype (plugins only: code size) VoteError =
    VoteTooOld
  | SlotsMismatch
  | SlotHashMismatch
  | EmptySlots
  | TimestampTooOld
  | TooSoonToReauthorize
  | LockoutConflict
  | NewVoteStateLockoutMismatch
  | SlotsNotOrdered
  | ConfirmationsNotOrdered
  | ZeroConfirmations
  | ConfirmationTooLarge
  | RootRollBack
  | ConfirmationRollBack
  | SlotSmallerThanRoot
  | TooManyVotes
  | VotesTooOldAllFiltered
  | RootOnDifferentFork
  | ActiveVoteAccountClose
  | CommissionUpdateTooLate

definition VoteError_to_u64 :: "VoteError \<Rightarrow> u64" where
  "VoteError_to_u64 self =
     (case self of
        VoteTooOld \<Rightarrow> 0
      | SlotsMismatch \<Rightarrow> 1
      | SlotHashMismatch \<Rightarrow> 2
      | EmptySlots \<Rightarrow> 3
      | TimestampTooOld \<Rightarrow> 4
      | TooSoonToReauthorize \<Rightarrow> 5
      | LockoutConflict \<Rightarrow> 6
      | NewVoteStateLockoutMismatch \<Rightarrow> 7
      | SlotsNotOrdered \<Rightarrow> 8
      | ConfirmationsNotOrdered \<Rightarrow> 9
      | ZeroConfirmations \<Rightarrow> 10
      | ConfirmationTooLarge \<Rightarrow> 11
      | RootRollBack \<Rightarrow> 12
      | ConfirmationRollBack \<Rightarrow> 13
      | SlotSmallerThanRoot \<Rightarrow> 14
      | TooManyVotes \<Rightarrow> 15
      | VotesTooOldAllFiltered \<Rightarrow> 16
      | RootOnDifferentFork \<Rightarrow> 17
      | ActiveVoteAccountClose \<Rightarrow> 18
      | CommissionUpdateTooLate \<Rightarrow> 19)"

definition vote_error :: "VoteError \<Rightarrow> InstructionError" where
  "vote_error e = InstructionError_from (VoteError_to_u64 e)"

section \<open>Codes round-trip\<close>

lemma to_builtin_unfold: "to_builtin x = x * 4294967296"
  by (simp add: to_builtin_def BUILTIN_BIT_SHIFT_def push_bit_eq_mult)

lemma ucast_u32_ne_builtin:
  fixes w :: u32 and n :: u64
  assumes "4294967296 \<le> unat n"
  shows "ucast w \<noteq> n"
proof
  assume "ucast w = n"
  then have "unat w = unat n"
    using unat_ucast_u32 [of w] by simp
  moreover have "unat w < 2 ^ 32"
    using unsigned_less [of w] by simp
  ultimately show False
    using assms by simp
qed

lemma ucast_u32_roundtrip: "(ucast (ucast (w :: u32) :: u64) :: u32) = w"
  by (simp add: ucast_up_ucast_id is_up)

text \<open>The message of a Borsh error is not part of its code.\<close>

definition erase_message :: "ProgramError \<Rightarrow> ProgramError" where
  "erase_message e = (case e of PE_BorshIoError _ \<Rightarrow> PE_BorshIoError ''Unknown'' | _ \<Rightarrow> e)"

lemma custom_code:
  fixes w :: u32
  assumes "w \<noteq> 0"
  shows "ProgramError_from_u64 (ucast w) = PE_Custom w" 
    "InstructionError_from (ucast w) = Custom w"
proof -
  have "drop_bit 32 (ucast w :: u64) = 0"
    using unsigned_less [of w, where ?'a = nat]
    by (simp add: drop_bit_eq_div unat_eq_zero [symmetric] unat_div unat_ucast_u32 del: unat_eq_zero)
  then show "ProgramError_from_u64 (ucast w) = PE_Custom w" "InstructionError_from (ucast w) = Custom w"
    by (simp_all add: ProgramError_from_u64_def InstructionError_from_def to_builtin_unfold ucast_u32_ne_builtin
     ucast_u32_roundtrip BUILTIN_BIT_SHIFT_def)
qed

text \<open>
  The numeric codes of program errors are faithful.  The code a program returns for an error
  decodes, directly and through the \<open>InstructionError\<close> the runtime makes of it, to the
  same error, for every error and every custom code including 0; only the message of a Borsh
  error is lost.
\<close>

theorem program_error_codes:
  "ProgramError_from_u64 (u64_from_ProgramError e) = erase_message e \<and>
   ProgramError_try_from (InstructionError_from (u64_from_ProgramError e)) = Inr (erase_message e)"
proof (cases e)
  case (PE_Custom w)
  then show ?thesis
    by (cases "w = 0") (simp_all add: u64_from_ProgramError_def erase_message_def custom_code, 
   simp_all add: ProgramError_from_u64_def InstructionError_from_def ProgramError_try_from_def)
qed (simp_all add: u64_from_ProgramError_def ProgramError_from_u64_def InstructionError_from_def
  ProgramError_try_from_def erase_message_def to_builtin_unfold)
end
