(* ===== verification/Float64.thy ===== *)
theory Float64
  imports Prelude
begin

text \<open>
  The part of the language's \<open>f64\<close> the sources use: the conversions \<open>u64 as f64\<close> and
  \<open>f64 as u64\<close>, and multiplication.  A finite value is a sign, a natural mantissa and a
  binary exponent; every operation computes the exact result and rounds it once, to nearest with
  ties to even, to 53 bits, with gradual underflow at exponent \<open>-1074\<close> and overflow to
  infinity from \<open>2 ^ 1024\<close> on, which is what IEEE 754 binary64 and the language prescribe.
\<close>

datatype f64 = F64_NaN | F64_Inf bool | F64_Fin bool nat int

fun bitlen :: "nat \<Rightarrow> nat" where
  "bitlen n = (if n = 0 then 0 else Suc (bitlen (n div 2)))"

declare bitlen.simps [simp del]

text \<open>\<open>m / 2 ^ k\<close> to the nearest integer, ties to even.\<close>

definition round_shift :: "nat \<Rightarrow> nat \<Rightarrow> nat" where
  "round_shift m k =
     (if k = 0 then m
      else let q = m div 2 ^ k; r = m mod 2 ^ k; h = 2 ^ (k - 1)
           in if h < r \<or> (r = h \<and> odd q) then q + 1 else q)"

definition f64_finish :: "bool \<Rightarrow> nat \<Rightarrow> int \<Rightarrow> f64" where
  "f64_finish s m e = (if int (bitlen m) + e > 1024 then F64_Inf s else F64_Fin s m e)"

definition f64_round :: "bool \<Rightarrow> nat \<Rightarrow> int \<Rightarrow> f64" where
  "f64_round s m e =
     (if m = 0 then F64_Fin s 0 0
      else let k = max (int (bitlen m) - 53) (- 1074 - e)
           in if k \<le> 0 then f64_finish s m e
              else f64_finish s (round_shift m (nat k)) (e + k))"

definition f64_of_u64 :: "u64 \<Rightarrow> f64" where
  "f64_of_u64 n = f64_round False (unat n) 0"

fun f64_mul :: "f64 \<Rightarrow> f64 \<Rightarrow> f64" where
  "f64_mul F64_NaN y = F64_NaN"
| "f64_mul x F64_NaN = F64_NaN"
| "f64_mul (F64_Inf s) (F64_Inf t) = F64_Inf (s \<noteq> t)"
| "f64_mul (F64_Inf s) (F64_Fin t m e) = (if m = 0 then F64_NaN else F64_Inf (s \<noteq> t))"
| "f64_mul (F64_Fin s m e) (F64_Inf t) = (if m = 0 then F64_NaN else F64_Inf (s \<noteq> t))"
| "f64_mul (F64_Fin s m e) (F64_Fin t n f) = f64_round (s \<noteq> t) (m * n) (e + f)"

text \<open>The saturating cast: \<open>NaN\<close> to 0, otherwise towards zero and into range.\<close>

definition f64_floor_nat :: "nat \<Rightarrow> int \<Rightarrow> nat" where
  "f64_floor_nat m e = (if 0 \<le> e then m * 2 ^ nat e else m div 2 ^ nat (- e))"

fun f64_to_u64 :: "f64 \<Rightarrow> u64" where
  "f64_to_u64 F64_NaN = 0"
| "f64_to_u64 (F64_Inf s) = (if s then 0 else - 1)"
| "f64_to_u64 (F64_Fin s m e) =
     (if s then 0
      else if f64_floor_nat m e < 2 ^ 64 then of_nat (f64_floor_nat m e) else - 1)"

section \<open>Exactness\<close>

lemma bitlen_le: "m < 2 ^ n \<Longrightarrow> bitlen m \<le> n"
proof (induction n arbitrary: m)
  case 0
  then show ?case by (simp add: bitlen.simps)
next
  case (Suc n)
  then have "m div 2 < 2 ^ n" by auto
  from Suc.IH [OF this] show ?case
    by (subst bitlen.simps) simp
qed

lemma bitlen_ge: "bitlen m \<le> n \<Longrightarrow> m < 2 ^ n"
proof (induction n arbitrary: m)
  case 0
  then show ?case by (subst (asm) bitlen.simps) (simp split: if_splits)
next
  case (Suc n)
  show ?case
  proof (cases "m = 0")
    case False
    with Suc.prems have "bitlen (m div 2) \<le> n"
      by (subst (asm) bitlen.simps) simp
    from Suc.IH [OF this] show ?thesis by auto
  qed simp
qed

lemma bitlen_le_iff: "bitlen m \<le> n \<longleftrightarrow> m < 2 ^ n"
  using bitlen_le bitlen_ge by blast

lemma f64_round_exact:
  assumes "m < 2 ^ 53" and "- 1074 \<le> e" and "e \<le> 900"
  shows "f64_round s m e = F64_Fin s m (if m = 0 then 0 else e)"
proof -
  have "bitlen m \<le> 53"
    using assms(1) by (rule bitlen_le)
  then show ?thesis
    using assms(2,3) by (auto simp: f64_round_def f64_finish_def Let_def max_def)
qed

lemma f64_of_u64_exact: "unat n < 2 ^ 53 \<Longrightarrow> f64_of_u64 n = F64_Fin False (unat n) 0"
  by (simp add: f64_of_u64_def f64_round_exact)

lemma f64_mul_exact:
  assumes "m * n < 2 ^ 53" and "- 1074 \<le> e + f" and "e + f \<le> 900"
  shows "f64_mul (F64_Fin s m e) (F64_Fin t n f)
           = F64_Fin (s \<noteq> t) (m * n) (if m * n = 0 then 0 else e + f)"
  using assms by (simp add: f64_round_exact)

end
