(* ===== verification/Rent.thy ===== *)
theory Rent
  imports Float64
begin

text \<open>
  \<^verbatim>\<open>sdk/program/src/rent.rs\<close>: the rent parameters and the rent-exempt minimum balance.
  Integer arithmetic is the source's plain \<open>+\<close>, \<open>*\<close> and \<open>-\<close> on \<open>u64\<close>, which
  wraps in the release profile; floating point is \<open>Float64\<close>.
\<close>

record Rent =
  lamports_per_byte_year :: u64
  exemption_threshold :: f64
  burn_percent :: u8

definition DEFAULT_LAMPORTS_PER_BYTE_YEAR :: u64 where
  "DEFAULT_LAMPORTS_PER_BYTE_YEAR = 1000000000 div 100 * 365 div (1024 * 1024)"

text \<open>The literal \<open>2.0\<close>.\<close>

definition DEFAULT_EXEMPTION_THRESHOLD :: f64 where
  "DEFAULT_EXEMPTION_THRESHOLD = F64_Fin False 1 1"

definition DEFAULT_BURN_PERCENT :: u8 where
  "DEFAULT_BURN_PERCENT = 50"

definition ACCOUNT_STORAGE_OVERHEAD :: u64 where
  "ACCOUNT_STORAGE_OVERHEAD = 128"

definition Rent_default :: Rent where
  "Rent_default =
     \<lparr>lamports_per_byte_year = DEFAULT_LAMPORTS_PER_BYTE_YEAR,
      exemption_threshold = DEFAULT_EXEMPTION_THRESHOLD,
      burn_percent = DEFAULT_BURN_PERCENT\<rparr>"

definition calculate_burn :: "Rent \<Rightarrow> u64 \<Rightarrow> u64 \<times> u64" where
  "calculate_burn self rent_collected =
     (let burned_portion = (rent_collected * ucast (burn_percent self)) div 100
      in (burned_portion, rent_collected - burned_portion))"

definition minimum_balance :: "Rent \<Rightarrow> nat \<Rightarrow> u64" where
  "minimum_balance self data_len =
     (let bytes = of_nat data_len
      in f64_to_u64 (f64_mul
           (f64_of_u64 ((ACCOUNT_STORAGE_OVERHEAD + bytes) * lamports_per_byte_year self))
           (exemption_threshold self)))"

definition is_exempt :: "Rent \<Rightarrow> u64 \<Rightarrow> nat \<Rightarrow> bool" where
  "is_exempt self balance data_len \<longleftrightarrow> minimum_balance self data_len \<le> balance"

datatype RentDue = Exempt | Paying u64

definition due_amount :: "Rent \<Rightarrow> nat \<Rightarrow> f64 \<Rightarrow> u64" where
  "due_amount self data_len years_elapsed =
     (let actual_data_len = of_nat data_len + ACCOUNT_STORAGE_OVERHEAD;
          lamports_per_year = lamports_per_byte_year self * actual_data_len
      in f64_to_u64 (f64_mul (f64_of_u64 lamports_per_year) years_elapsed))"

definition due :: "Rent \<Rightarrow> u64 \<Rightarrow> nat \<Rightarrow> f64 \<Rightarrow> RentDue" where
  "due self balance data_len years_elapsed =
     (if is_exempt self balance data_len then Exempt
      else Paying (due_amount self data_len years_elapsed))"

definition Rent_free :: Rent where
  "Rent_free = Rent_default\<lparr>lamports_per_byte_year := 0\<rparr>"

fun RentDue_lamports :: "RentDue \<Rightarrow> u64" where
  "RentDue_lamports Exempt = 0"
| "RentDue_lamports (Paying x) = x"

fun RentDue_is_exempt :: "RentDue \<Rightarrow> bool" where
  "RentDue_is_exempt Exempt = True"
| "RentDue_is_exempt (Paying _) = False"

section \<open>The rent-exempt minimum\<close>

lemma minimum_balance_free: "minimum_balance Rent_free data_len = 0"
  by (simp add: minimum_balance_def Rent_free_def Rent_default_def DEFAULT_EXEMPTION_THRESHOLD_def
      f64_of_u64_def f64_round_def f64_floor_nat_def)

lemma calculate_burn_total:
  "fst (calculate_burn r x) + snd (calculate_burn r x) = x"
  by (simp add: calculate_burn_def Let_def)

lemma unat_default_rate: "unat DEFAULT_LAMPORTS_PER_BYTE_YEAR = 3480"
  by (simp add: DEFAULT_LAMPORTS_PER_BYTE_YEAR_def unat_div)

lemma default_minimum_exact:
  assumes "3480 * (128 + data_len) < 2 ^ 53"
  shows "unat (minimum_balance Rent_default data_len) = 2 * 3480 * (128 + data_len)"
proof -
  have len: "data_len < 2 ^ 53" using assms by simp
  then have "unat (of_nat data_len :: u64) = data_len" by (simp add: unat_of_nat)
  then have s: "unat (ACCOUNT_STORAGE_OVERHEAD + of_nat data_len) = 128 + data_len"
    using len unat_plus_no_overflow [of ACCOUNT_STORAGE_OVERHEAD "of_nat data_len"]
    by (simp add: ACCOUNT_STORAGE_OVERHEAD_def)
  let ?w = "(ACCOUNT_STORAGE_OVERHEAD + of_nat data_len) * DEFAULT_LAMPORTS_PER_BYTE_YEAR"
  have w: "unat ?w = 3480 * (128 + data_len)"
    using assms by (subst unat_times_no_overflow) (simp_all add: s unat_default_rate)
  then have "f64_of_u64 ?w = F64_Fin False (3480 * (128 + data_len)) 0"
    using assms f64_of_u64_exact [of ?w] by simp
  then have "minimum_balance Rent_default data_len = of_nat (2 * 3480 * (128 + data_len))"
    using assms f64_mul_exact [of "3480 * (128 + data_len)" 1 0 1 False False]
    by (simp add: minimum_balance_def Rent_default_def DEFAULT_EXEMPTION_THRESHOLD_def Let_def
        f64_floor_nat_def del: f64_mul.simps)
  then show ?thesis
    using assms by (simp only: unat_of_nat) simp
qed

text \<open>
  C35: The default rent-exempt minimum is exact.  For every account data length for which the
  yearly rent stays below \<open>2 ^ 53\<close> (about \<open>2.5 * 10 ^ 12\<close> bytes, far above the 10 MiB an account
  may have), the detour through floating point loses nothing: the minimum balance is two years of
  3480 lamports for each byte and the 128 bytes of overhead, and an account is exempt exactly when
  it holds that much.
\<close>

theorem default_minimum_balance:
  assumes "3480 * (128 + data_len) < 2 ^ 53"
  shows "unat (minimum_balance Rent_default data_len) = 2 * 3480 * (128 + data_len) \<and>
         (is_exempt Rent_default balance data_len \<longleftrightarrow> 6960 * (128 + data_len) \<le> unat balance)"
  using default_minimum_exact [OF assms] by (simp add: is_exempt_def word_le_nat_alt)

theorem default_minimum_balance_witness:
  "unat (minimum_balance Rent_default 80) = 1447680 \<and> is_exempt Rent_default 1447680 80 \<and>
   \<not> is_exempt Rent_default 1447679 80"
  using default_minimum_balance [of 80 1447680] default_minimum_balance [of 80 1447679] by simp

end
