(* ===== verification/TransactionContext.thy ===== *)
theory TransactionContext
  imports Accounts Errors Rent
begin

text \<open>
  \<^verbatim>\<open>sdk/src/transaction_context.rs\<close>, first half: the accounts a transaction has loaded, the
  stack and the trace of its instructions, and the contexts of the instructions.  A \<open>RefCell\<close>
  around an account is the account with a flag that says whether a \<open>RefMut\<close> to it is alive;
  the source never keeps a shared borrow past the expression that makes it.  \<open>push\<close> and
  \<open>pop\<close> change the context also when they fail, so they return their result and the new
  context; every other fallible operation returns no context with an error.  The transaction
  signature exists in debug builds only and is left out.
\<close>

type_synonym IndexOfAccount = u16

record InstructionAccount =
  ia_index_in_transaction :: IndexOfAccount
  ia_index_in_caller :: IndexOfAccount
  ia_index_in_callee :: IndexOfAccount
  ia_is_signer :: bool
  ia_is_writable :: bool

record InstructionContext =
  nesting_level :: nat
  ic_instruction_accounts_lamport_sum :: u128
  program_accounts :: "IndexOfAccount list"
  instruction_accounts :: "InstructionAccount list"
  instruction_data :: bytes

definition InstructionContext_default :: InstructionContext where
  "InstructionContext_default =
     \<lparr>nesting_level = 0, ic_instruction_accounts_lamport_sum = 0, program_accounts = [],
      instruction_accounts = [], instruction_data = []\<rparr>"

record account_cell =
  cell_value :: AccountSharedData
  cell_borrowed :: bool

record TransactionContext =
  account_keys :: "pubkey list"
  accounts :: "account_cell list"
  account_touched_flags :: "bool list"
  instruction_stack_capacity :: nat
  instruction_trace_capacity :: nat
  instruction_stack :: "nat list"
  instruction_trace :: "InstructionContext list"
  return_data :: "pubkey \<times> bytes"
  accounts_resize_delta :: int
  tc_rent :: "Rent option"
  is_cap_accounts_data_allocations_per_transaction_enabled :: bool

section \<open>The transaction context\<close>

definition TransactionContext_new ::
    "(pubkey \<times> AccountSharedData) list \<Rightarrow> Rent option \<Rightarrow> nat \<Rightarrow> nat \<Rightarrow> TransactionContext" where
  "TransactionContext_new transaction_accounts rent stack_capacity trace_capacity =
     \<lparr>account_keys = map fst transaction_accounts,
      accounts =
        map (\<lambda>(key, account). \<lparr>cell_value = account, cell_borrowed = False\<rparr>) transaction_accounts,
      account_touched_flags = replicate (length transaction_accounts) False,
      instruction_stack_capacity = stack_capacity,
      instruction_trace_capacity = trace_capacity,
      instruction_stack = [],
      instruction_trace = [InstructionContext_default],
      return_data = (0, []),
      accounts_resize_delta = 0,
      tc_rent = rent,
      is_cap_accounts_data_allocations_per_transaction_enabled = False\<rparr>"

definition deconstruct_without_keys ::
    "TransactionContext \<Rightarrow> InstructionError + AccountSharedData list" where
  "deconstruct_without_keys self =
     (if instruction_stack self \<noteq> [] then Inl CallDepth
      else Inr (map cell_value (accounts self)))"

definition is_early_verification_of_account_modifications_enabled :: "TransactionContext \<Rightarrow> bool" where
  "is_early_verification_of_account_modifications_enabled self \<longleftrightarrow> tc_rent self \<noteq> None"

definition get_number_of_accounts :: "TransactionContext \<Rightarrow> IndexOfAccount" where
  "get_number_of_accounts self = of_nat (length (accounts self))"

definition get_key_of_account_at_index ::
    "TransactionContext \<Rightarrow> IndexOfAccount \<Rightarrow> InstructionError + pubkey" where
  "get_key_of_account_at_index self i = ok_or (get (account_keys self) (unat i)) NotEnoughAccountKeys"

definition get_account_at_index ::
    "TransactionContext \<Rightarrow> IndexOfAccount \<Rightarrow> InstructionError + account_cell" where
  "get_account_at_index self i = ok_or (get (accounts self) (unat i)) NotEnoughAccountKeys"

definition find_index_of_account :: "TransactionContext \<Rightarrow> pubkey \<Rightarrow> IndexOfAccount option" where
  "find_index_of_account self k = map_option of_nat (position (\<lambda>key. key = k) (account_keys self))"

definition find_index_of_program_account_tc ::
    "TransactionContext \<Rightarrow> pubkey \<Rightarrow> IndexOfAccount option" where
  "find_index_of_program_account_tc self k =
     map_option of_nat (rposition (\<lambda>key. key = k) (account_keys self))"

definition get_instruction_trace_length :: "TransactionContext \<Rightarrow> nat" where
  "get_instruction_trace_length self = length (instruction_trace self) - 1"

definition get_instruction_context_at_index_in_trace ::
    "TransactionContext \<Rightarrow> nat \<Rightarrow> InstructionError + InstructionContext" where
  "get_instruction_context_at_index_in_trace self i = ok_or (get (instruction_trace self) i) CallDepth"

definition get_instruction_context_at_nesting_level ::
    "TransactionContext \<Rightarrow> nat \<Rightarrow> InstructionError + InstructionContext" where
  "get_instruction_context_at_nesting_level self level =
     and_then (ok_or (get (instruction_stack self) level) CallDepth)
       (\<lambda>index_in_trace. get_instruction_context_at_index_in_trace self index_in_trace)"

definition get_instruction_context_stack_height :: "TransactionContext \<Rightarrow> nat" where
  "get_instruction_context_stack_height self = length (instruction_stack self)"

definition get_current_instruction_context ::
    "TransactionContext \<Rightarrow> InstructionError + InstructionContext" where
  "get_current_instruction_context self =
     (if get_instruction_context_stack_height self = 0 then Inl CallDepth
      else get_instruction_context_at_nesting_level self
             (get_instruction_context_stack_height self - 1))"

text \<open>
  \<open>get_next_instruction_context\<close> returns a mutable reference to the last entry of the trace:
  here an update of that entry.
\<close>

definition update_next_instruction_context ::
    "TransactionContext \<Rightarrow> (InstructionContext \<Rightarrow> InstructionContext) \<Rightarrow> InstructionError + TransactionContext" where
  "update_next_instruction_context self f =
     (if instruction_trace self = [] then Inl CallDepth
      else Inr (self\<lparr>instruction_trace :=
        butlast (instruction_trace self) @ [f (last (instruction_trace self))]\<rparr>))"

section \<open>The instruction context\<close>

definition configure ::
    "IndexOfAccount list \<Rightarrow> InstructionAccount list \<Rightarrow> bytes \<Rightarrow> InstructionContext \<Rightarrow> InstructionContext" where
  "configure pas ias d self =
     self\<lparr>program_accounts := pas, instruction_accounts := ias, instruction_data := d\<rparr>"

definition get_stack_height :: "InstructionContext \<Rightarrow> nat" where
  "get_stack_height self = nesting_level self + 1"

definition get_number_of_program_accounts :: "InstructionContext \<Rightarrow> IndexOfAccount" where
  "get_number_of_program_accounts self = of_nat (length (program_accounts self))"

definition get_number_of_instruction_accounts :: "InstructionContext \<Rightarrow> IndexOfAccount" where
  "get_number_of_instruction_accounts self = of_nat (length (instruction_accounts self))"

definition check_number_of_instruction_accounts ::
    "InstructionContext \<Rightarrow> IndexOfAccount \<Rightarrow> InstructionError + unit" where
  "check_number_of_instruction_accounts self expected_at_least =
     (if get_number_of_instruction_accounts self < expected_at_least
      then Inl NotEnoughAccountKeys else Inr ())"

definition find_index_of_program_account ::
    "InstructionContext \<Rightarrow> TransactionContext \<Rightarrow> pubkey \<Rightarrow> IndexOfAccount option" where
  "find_index_of_program_account self tc k =
     map_option of_nat
       (position (\<lambda>i. get (account_keys tc) (unat i) = Some k) (program_accounts self))"

definition find_index_of_instruction_account ::
    "InstructionContext \<Rightarrow> TransactionContext \<Rightarrow> pubkey \<Rightarrow> IndexOfAccount option" where
  "find_index_of_instruction_account self tc k =
     map_option of_nat
       (position (\<lambda>ia. get (account_keys tc) (unat (ia_index_in_transaction ia)) = Some k)
          (instruction_accounts self))"

definition get_index_of_program_account_in_transaction ::
    "InstructionContext \<Rightarrow> IndexOfAccount \<Rightarrow> InstructionError + IndexOfAccount" where
  "get_index_of_program_account_in_transaction self i =
     ok_or (get (program_accounts self) (unat i)) NotEnoughAccountKeys"

definition get_index_of_instruction_account_in_transaction ::
    "InstructionContext \<Rightarrow> IndexOfAccount \<Rightarrow> InstructionError + IndexOfAccount" where
  "get_index_of_instruction_account_in_transaction self i =
     and_then (ok_or (get (instruction_accounts self) (unat i)) NotEnoughAccountKeys)
       (\<lambda>ia. Inr (ia_index_in_transaction ia))"

definition is_instruction_account_duplicate ::
    "InstructionContext \<Rightarrow> IndexOfAccount \<Rightarrow> InstructionError + IndexOfAccount option" where
  "is_instruction_account_duplicate self i =
     and_then (ok_or (get (instruction_accounts self) (unat i)) NotEnoughAccountKeys)
       (\<lambda>ia. Inr (if ia_index_in_callee ia = i then None else Some (ia_index_in_callee ia)))"

definition get_last_program_key ::
    "InstructionContext \<Rightarrow> TransactionContext \<Rightarrow> InstructionError + pubkey" where
  "get_last_program_key self tc =
     and_then (get_index_of_program_account_in_transaction self
                 (saturating_sub (get_number_of_program_accounts self) 1))
       (\<lambda>i. get_key_of_account_at_index tc i)"

definition is_instruction_account_signer ::
    "InstructionContext \<Rightarrow> IndexOfAccount \<Rightarrow> InstructionError + bool" where
  "is_instruction_account_signer self i =
     and_then (ok_or (get (instruction_accounts self) (unat i)) MissingAccount)
       (\<lambda>ia. Inr (ia_is_signer ia))"

definition is_instruction_account_writable ::
    "InstructionContext \<Rightarrow> IndexOfAccount \<Rightarrow> InstructionError + bool" where
  "is_instruction_account_writable self i =
     and_then (ok_or (get (instruction_accounts self) (unat i)) MissingAccount)
       (\<lambda>ia. Inr (ia_is_writable ia))"

fun get_signers_loop ::
    "TransactionContext \<Rightarrow> InstructionAccount list \<Rightarrow> pubkey set \<Rightarrow> InstructionError + pubkey set" where
  "get_signers_loop tc [] result = Inr result"
| "get_signers_loop tc (ia # ias) result =
     (if ia_is_signer ia then
        and_then (get_key_of_account_at_index tc (ia_index_in_transaction ia))
          (\<lambda>k. get_signers_loop tc ias (insert k result))
      else get_signers_loop tc ias result)"

definition get_signers ::
    "InstructionContext \<Rightarrow> TransactionContext \<Rightarrow> InstructionError + pubkey set" where
  "get_signers self tc = get_signers_loop tc (instruction_accounts self) {}"

section \<open>Push and pop\<close>

text \<open>The loop of \<open>instruction_accounts_lamport_sum\<close> over the instruction account indices.\<close>

fun lamport_sum_loop ::
    "TransactionContext \<Rightarrow> InstructionContext \<Rightarrow> IndexOfAccount list \<Rightarrow> u128 \<Rightarrow> InstructionError + u128" where
  "lamport_sum_loop tc ic [] acc = Inr acc"
| "lamport_sum_loop tc ic (i # is) acc =
     and_then (is_instruction_account_duplicate ic i) (\<lambda>dup.
       if dup \<noteq> None then lamport_sum_loop tc ic is acc
       else
         and_then (get_index_of_instruction_account_in_transaction ic i) (\<lambda>index_in_transaction.
         and_then (get_account_at_index tc index_in_transaction) (\<lambda>cell.
         if cell_borrowed cell then Inl AccountBorrowOutstanding
         else
           and_then (ok_or (checked_add (ucast (lamports (cell_value cell))) acc) ArithmeticOverflow)
             (\<lambda>acc'. lamport_sum_loop tc ic is acc'))))"

definition instruction_accounts_lamport_sum ::
    "TransactionContext \<Rightarrow> InstructionContext \<Rightarrow> InstructionError + u128" where
  "instruction_accounts_lamport_sum self ic =
     (if \<not> is_early_verification_of_account_modifications_enabled self then Inr 0
      else lamport_sum_loop self ic
             (map of_nat [0..<unat (get_number_of_instruction_accounts ic)]) 0)"

definition push_checks :: "TransactionContext \<Rightarrow> InstructionError + u128" where
  "push_checks self =
     and_then (ok_or (last_opt (instruction_trace self)) CallDepth) (\<lambda>next_context.
     and_then (instruction_accounts_lamport_sum self next_context) (\<lambda>callee_sum.
     if instruction_stack self \<noteq> [] \<and> is_early_verification_of_account_modifications_enabled self
     then
       and_then (get_current_instruction_context self) (\<lambda>caller.
       and_then (instruction_accounts_lamport_sum self caller) (\<lambda>current_sum.
       if ic_instruction_accounts_lamport_sum caller \<noteq> current_sum
       then Inl UnbalancedInstruction else Inr callee_sum))
     else Inr callee_sum))"

definition push :: "TransactionContext \<Rightarrow> (InstructionError + unit) \<times> TransactionContext" where
  "push self =
     (let level = get_instruction_context_stack_height self in
      case push_checks self of
        Inl e \<Rightarrow> (Inl e, self)
      | Inr callee_sum \<Rightarrow>
          (case update_next_instruction_context self
                  (\<lambda>ic. ic\<lparr>nesting_level := level, ic_instruction_accounts_lamport_sum := callee_sum\<rparr>) of
             Inl e \<Rightarrow> (Inl e, self)
           | Inr tc1 \<Rightarrow>
               let index_in_trace = get_instruction_trace_length tc1 in
               if instruction_trace_capacity tc1 \<le> index_in_trace
               then (Inl MaxInstructionTraceLengthExceeded, tc1)
               else
                 let tc2 = tc1\<lparr>instruction_trace :=
                             instruction_trace tc1 @ [InstructionContext_default]\<rparr>
                 in if instruction_stack_capacity tc2 \<le> level then (Inl CallDepth, tc2)
                    else (Inr (), tc2\<lparr>instruction_stack :=
                                    instruction_stack tc2 @ [index_in_trace]\<rparr>)))"

fun check_program_refs :: "TransactionContext \<Rightarrow> IndexOfAccount list \<Rightarrow> InstructionError + unit" where
  "check_program_refs tc [] = Inr ()"
| "check_program_refs tc (i # is) =
     and_then (get_account_at_index tc i) (\<lambda>cell.
       if cell_borrowed cell then Inl AccountBorrowOutstanding else check_program_refs tc is)"

definition detect_unbalanced :: "TransactionContext \<Rightarrow> InstructionError + bool" where
  "detect_unbalanced self =
     (if is_early_verification_of_account_modifications_enabled self then
        and_then (get_current_instruction_context self) (\<lambda>ic.
        and_then (check_program_refs self (program_accounts ic)) (\<lambda>_.
        and_then (instruction_accounts_lamport_sum self ic) (\<lambda>s.
        Inr (ic_instruction_accounts_lamport_sum ic \<noteq> s))))
      else Inr False)"

definition pop :: "TransactionContext \<Rightarrow> (InstructionError + unit) \<times> TransactionContext" where
  "pop self =
     (if instruction_stack self = [] then (Inl CallDepth, self)
      else
        let popped = self\<lparr>instruction_stack := butlast (instruction_stack self)\<rparr>
        in case detect_unbalanced self of
             Inl e \<Rightarrow> (Inl e, popped)
           | Inr True \<Rightarrow> (Inl UnbalancedInstruction, popped)
           | Inr False \<Rightarrow> (Inr (), popped))"

definition set_return_data :: "TransactionContext \<Rightarrow> pubkey \<Rightarrow> bytes \<Rightarrow> TransactionContext" where
  "set_return_data self k d = self\<lparr>return_data := (k, d)\<rparr>"

definition enable_cap_accounts_data_allocations_per_transaction ::
    "TransactionContext \<Rightarrow> TransactionContext" where
  "enable_cap_accounts_data_allocations_per_transaction self =
     self\<lparr>is_cap_accounts_data_allocations_per_transaction_enabled := True\<rparr>"

text \<open>What the bank takes back when the transaction is done.\<close>

record ExecutionRecord =
  er_accounts :: "(pubkey \<times> AccountSharedData) list"
  er_return_data :: "pubkey \<times> bytes"
  er_touched_account_count :: u64
  er_accounts_resize_delta :: int

definition ExecutionRecord_from :: "TransactionContext \<Rightarrow> ExecutionRecord" where
  "ExecutionRecord_from context =
     \<lparr>er_accounts = zip (account_keys context) (map cell_value (accounts context)),
      er_return_data = return_data context,
      er_touched_account_count =
        fold (\<lambda>was_touched acc. saturating_add acc (if was_touched then 1 else 0))
          (account_touched_flags context) 0,
      er_accounts_resize_delta = accounts_resize_delta context\<rparr>"

lemmas [exec] =
  InstructionContext_default_def TransactionContext_new_def
  is_early_verification_of_account_modifications_enabled_def get_number_of_accounts_def
  get_key_of_account_at_index_def get_account_at_index_def find_index_of_account_def
  get_instruction_trace_length_def get_instruction_context_at_index_in_trace_def
  get_instruction_context_at_nesting_level_def get_instruction_context_stack_height_def
  get_current_instruction_context_def update_next_instruction_context_def configure_def
  get_number_of_program_accounts_def get_number_of_instruction_accounts_def
  check_number_of_instruction_accounts_def get_index_of_program_account_in_transaction_def
  get_index_of_instruction_account_in_transaction_def is_instruction_account_duplicate_def
  get_last_program_key_def is_instruction_account_signer_def is_instruction_account_writable_def
  get_signers_def instruction_accounts_lamport_sum_def push_checks_def push_def
  detect_unbalanced_def pop_def

section \<open>What the sums mean\<close>

text \<open>
  The specification of the balance check: the lamports of every account of the instruction, each
  account counted once, at its first occurrence.
\<close>

definition lamports_at :: "TransactionContext \<Rightarrow> IndexOfAccount \<Rightarrow> nat" where
  "lamports_at tc i = unat (lamports (cell_value (accounts tc ! unat i)))"

definition contribution :: "TransactionContext \<Rightarrow> InstructionContext \<Rightarrow> IndexOfAccount \<Rightarrow> nat" where
  "contribution tc ic i =
     (let ia = instruction_accounts ic ! unat i
      in if ia_index_in_callee ia = i then lamports_at tc (ia_index_in_transaction ia) else 0)"

definition instruction_lamports :: "TransactionContext \<Rightarrow> InstructionContext \<Rightarrow> nat" where
  "instruction_lamports tc ic =
     (\<Sum>i \<leftarrow> map of_nat [0..<unat (get_number_of_instruction_accounts ic)]. contribution tc ic i)"

lemmas ic_access_defs =
  is_instruction_account_duplicate_def get_index_of_instruction_account_in_transaction_def
  get_account_at_index_def get_key_of_account_at_index_def is_instruction_account_signer_def
  is_instruction_account_writable_def

lemma lamport_sum_loop_correct:
  "lamport_sum_loop tc ic is acc = Inr s \<Longrightarrow> unat s = unat acc + (\<Sum>i \<leftarrow> is. contribution tc ic i)"
proof (induction "is" arbitrary: acc)
  case (Cons i "is")
  from Cons.prems obtain ia where ia: "get (instruction_accounts ic) (unat i) = Some ia"
    by (auto simp: ic_access_defs result_simps)
  then have nth: "instruction_accounts ic ! unat i = ia" by (simp add: result_simps)
  show ?case
  proof (cases "ia_index_in_callee ia = i")
    case True
    with Cons.prems ia obtain cell acc' where
        cell: "get (accounts tc) (unat (ia_index_in_transaction ia)) = Some cell"
      and add: "checked_add (ucast (lamports (cell_value cell))) acc = Some acc'"
      and rest: "lamport_sum_loop tc ic is acc' = Inr s"
      by (auto simp: ic_access_defs result_simps split: if_splits)
    from Cons.IH [OF rest]
    have "unat s = unat acc' + (\<Sum>i \<leftarrow> is. contribution tc ic i)" .
    moreover have "unat acc' = lamports_at tc (ia_index_in_transaction ia) + unat acc"
      using checked_add_Some [OF add] cell
      by (auto simp: lamports_at_def unat_ucast_u64_u128 result_simps)
    ultimately show ?thesis
      using True nth by (simp add: contribution_def)
  next
    case False
    with Cons.prems ia have "lamport_sum_loop tc ic is acc = Inr s"
      by (simp add: ic_access_defs)
    then have "unat s = unat acc + (\<Sum>i \<leftarrow> is. contribution tc ic i)"
      by (rule Cons.IH)
    then show ?thesis
      using False nth by (simp add: contribution_def)
  qed
qed simp

lemma instruction_accounts_lamport_sum_correct:
  assumes "instruction_accounts_lamport_sum tc ic = Inr s" and "tc_rent tc \<noteq> None"
  shows "unat s = instruction_lamports tc ic"
  using assms lamport_sum_loop_correct
  by (fastforce simp: instruction_accounts_lamport_sum_def instruction_lamports_def
      is_early_verification_of_account_modifications_enabled_def)

text \<open>
  The check never overflows: an instruction has fewer than \<open>2 ^ 16\<close> accounts of fewer than
  \<open>2 ^ 64\<close> lamports each, and the sum has 128 bits.  With every index in range and no account
  borrowed, the sum is always computed.
\<close>

definition ic_in_range :: "TransactionContext \<Rightarrow> InstructionContext \<Rightarrow> bool" where
  "ic_in_range tc ic \<longleftrightarrow>
     length (instruction_accounts ic) < 2 ^ 16 \<and>
     (\<forall>ia \<in> set (instruction_accounts ic).
        unat (ia_index_in_transaction ia) < length (accounts tc))"

definition no_borrows :: "TransactionContext \<Rightarrow> bool" where
  "no_borrows tc \<longleftrightarrow> (\<forall>c \<in> set (accounts tc). \<not> cell_borrowed c)"

lemma lamport_sum_loop_total:
  assumes "ic_in_range tc ic" and "no_borrows tc"
    and "\<forall>i \<in> set is. unat i < length (instruction_accounts ic)"
    and "unat acc + length is * 2 ^ 64 < 2 ^ 128"
  shows "\<exists>s. lamport_sum_loop tc ic is acc = Inr s"
  using assms(3,4)
proof (induction "is" arbitrary: acc)
  case (Cons i "is")
  let ?ia = "instruction_accounts ic ! unat i"
  let ?cell = "accounts tc ! unat (ia_index_in_transaction ?ia)"
  have ia: "get (instruction_accounts ic) (unat i) = Some ?ia"
    using Cons.prems(1) by (simp add: get_def)
  then have idx: "unat (ia_index_in_transaction ?ia) < length (accounts tc)"
    using assms(1) by (auto simp: ic_in_range_def result_simps)
  then have cell: "get (accounts tc) (unat (ia_index_in_transaction ?ia)) = Some ?cell"
    and free: "\<not> cell_borrowed ?cell"
    using assms(2) by (simp_all add: get_def no_borrows_def)
  show ?case
  proof (cases "ia_index_in_callee ?ia = i")
    case True
    let ?l = "ucast (lamports (cell_value ?cell)) :: u128"
    have small: "unat ?l < 2 ^ 64"
      using unsigned_less [of "lamports (cell_value ?cell)"] by (simp add: unat_ucast_u64_u128)
    then have "checked_add ?l acc = Some (?l + acc)"
      using Cons.prems(2) by (simp add: checked_add_def)
    moreover have "unat (?l + acc) + length is * 2 ^ 64 < 2 ^ 128"
      using small Cons.prems(2) by (simp add: unat_plus_no_overflow)
    ultimately show ?thesis
      using True ia cell free Cons.IH [of "?l + acc"] Cons.prems(1) by (simp add: ic_access_defs)
  next
    case False
    have "unat acc + length is * 2 ^ 64 < 2 ^ 128"
      using Cons.prems(2) by simp
    then show ?thesis
      using False ia Cons.IH [of acc] Cons.prems(1) by (simp add: ic_access_defs)
  qed
qed simp

lemma instruction_accounts_lamport_sum_total:
  assumes "ic_in_range tc ic" and "no_borrows tc"
  shows "\<exists>s. instruction_accounts_lamport_sum tc ic = Inr s"
proof -
  let ?n = "unat (get_number_of_instruction_accounts ic)"
  have n: "?n = length (instruction_accounts ic)" "?n < 2 ^ 16"
    using assms(1)
    by (simp_all add: get_number_of_instruction_accounts_def ic_in_range_def unat_of_nat)
  have "\<forall>i \<in> set (map of_nat [0..<?n] :: IndexOfAccount list). unat i < length (instruction_accounts ic)"
    using n by (auto simp: unat_of_nat)
  then have "\<exists>s. lamport_sum_loop tc ic (map of_nat [0..<?n]) 0 = Inr s"
    using n(2) by (intro lamport_sum_loop_total [OF assms]) simp_all
  then show ?thesis
    by (simp add: instruction_accounts_lamport_sum_def)
qed

section \<open>The stack discipline\<close>

text \<open>
  The invariant the accessors rely on: the trace ends in the entry reserved for the next
  instruction, the stack points at distinct earlier entries, each entry knows its level (the
  assertion of \<open>get_instruction_context_at_nesting_level\<close>), and both stay within capacity.
\<close>

definition stack_wf :: "TransactionContext \<Rightarrow> bool" where
  "stack_wf tc \<longleftrightarrow>
     instruction_trace tc \<noteq> [] \<and>
     length (instruction_stack tc) \<le> instruction_stack_capacity tc \<and>
     get_instruction_trace_length tc \<le> instruction_trace_capacity tc \<and>
     sorted_wrt (<) (instruction_stack tc) \<and>
     (\<forall>l < length (instruction_stack tc).
        instruction_stack tc ! l < get_instruction_trace_length tc \<and>
        nesting_level (instruction_trace tc ! (instruction_stack tc ! l)) = l)"

lemma stack_wf_new: "stack_wf (TransactionContext_new accs rent cap trace_cap)"
  by (simp add: stack_wf_def TransactionContext_new_def get_instruction_trace_length_def)

lemma nth_butlast_snoc:
  "i < length xs - 1 \<Longrightarrow> (butlast xs @ [y]) ! i = xs ! i"
  by (simp add: nth_append nth_butlast)

lemma stack_wf_update_next:
  assumes "stack_wf tc" and "update_next_instruction_context tc f = Inr tc'"
  shows "stack_wf tc'"
  using assms
  by (auto simp: stack_wf_def update_next_instruction_context_def get_instruction_trace_length_def
      nth_butlast_snoc split: if_splits)

definition entered :: "TransactionContext \<Rightarrow> u128 \<Rightarrow> InstructionContext" where
  "entered tc s =
     (last (instruction_trace tc))\<lparr>nesting_level := length (instruction_stack tc),
        ic_instruction_accounts_lamport_sum := s\<rparr>"

lemma push_Ok:
  assumes "push tc = (Inr (), tc')"
  obtains s where
    "push_checks tc = Inr s" and "instruction_trace tc \<noteq> []"
    "get_instruction_trace_length tc < instruction_trace_capacity tc"
    "length (instruction_stack tc) < instruction_stack_capacity tc"
    "tc' = tc\<lparr>instruction_trace :=
                butlast (instruction_trace tc) @ [entered tc s, InstructionContext_default],
              instruction_stack := instruction_stack tc @ [get_instruction_trace_length tc]\<rparr>"
  using assms
  by (auto simp: push_def Let_def update_next_instruction_context_def entered_def
      get_instruction_context_stack_height_def get_instruction_trace_length_def
      split: sum.splits if_splits)

lemma stack_wf_extend:
  assumes wf: "stack_wf tc"
    and "get_instruction_trace_length tc < instruction_trace_capacity tc"
    and "nesting_level ic = length (instruction_stack tc)"
    and "st = instruction_stack tc \<or>
         (st = instruction_stack tc @ [get_instruction_trace_length tc] \<and>
          length (instruction_stack tc) < instruction_stack_capacity tc)"
  shows "stack_wf (tc\<lparr>instruction_trace := butlast (instruction_trace tc) @ [ic, ic'],
                     instruction_stack := st\<rparr>)"
  using assms
  by (auto simp: stack_wf_def get_instruction_trace_length_def nth_append nth_butlast less_Suc_eq
      sorted_wrt_append in_set_conv_nth split: if_splits)

lemma stack_wf_push:
  assumes wf: "stack_wf tc"
  shows "stack_wf (snd (push tc))"
proof (cases "push_checks tc")
  case (Inr s)
  have ne: "instruction_trace tc \<noteq> []" using wf by (simp add: stack_wf_def)
  let ?st = "instruction_stack tc"
  let ?tc1 = "tc\<lparr>instruction_trace := butlast (instruction_trace tc) @ [entered tc s]\<rparr>"
  have tc1: "stack_wf ?tc1"
    using wf by (rule stack_wf_update_next)
      (simp add: update_next_instruction_context_def ne entered_def)
  have level: "nesting_level (entered tc s) = length ?st"
    by (simp add: entered_def)
  show ?thesis
    using Inr ne tc1 stack_wf_extend [OF wf _ level, of ?st InstructionContext_default]
      stack_wf_extend [OF wf _ level, of "?st @ [get_instruction_trace_length tc]"
        InstructionContext_default]
    by (auto simp: push_def Let_def update_next_instruction_context_def entered_def
        get_instruction_context_stack_height_def get_instruction_trace_length_def)
qed (simp add: push_def assms)

lemma stack_wf_pop: "stack_wf tc \<Longrightarrow> stack_wf (snd (pop tc))"
  by (auto simp: pop_def Let_def stack_wf_def get_instruction_trace_length_def
      butlast_conv_take sorted_wrt_take split: sum.splits bool.splits)

lemma pop_Ok:
  assumes "pop tc = (Inr (), tc')"
  shows "detect_unbalanced tc = Inr False"
    and "instruction_stack tc \<noteq> []"
    and "tc' = tc\<lparr>instruction_stack := butlast (instruction_stack tc)\<rparr>"
  using assms by (auto simp: pop_def Let_def split: if_splits sum.splits bool.splits)

text \<open>Popping always removes the frame, whatever the verdict.\<close>

lemma snd_pop:
  "instruction_stack tc \<noteq> [] \<Longrightarrow>
     snd (pop tc) = tc\<lparr>instruction_stack := butlast (instruction_stack tc)\<rparr>"
  by (simp add: pop_def Let_def split: sum.splits bool.splits)

section \<open>An instruction that completes is balanced\<close>

lemma get_current_instruction_context_eq:
  assumes "stack_wf tc" and "instruction_stack tc \<noteq> []"
  shows "get_current_instruction_context tc
           = Inr (instruction_trace tc ! last (instruction_stack tc))"
proof -
  let ?n = "length (instruction_stack tc) - 1"
  have "?n < length (instruction_stack tc)" "instruction_stack tc ! ?n = last (instruction_stack tc)"
    using assms(2) by (simp_all add: last_conv_nth)
  moreover have "last (instruction_stack tc) < length (instruction_trace tc)"
    using assms calculation
    by (metis stack_wf_def get_instruction_trace_length_def less_imp_diff_less less_trans
        diff_less length_greater_0_conv zero_less_one not_less_iff_gr_or_eq)
  ultimately show ?thesis
    using assms(2)
    by (simp add: get_current_instruction_context_def get_instruction_context_stack_height_def
        get_instruction_context_at_nesting_level_def get_instruction_context_at_index_in_trace_def get_def)
qed

lemma instruction_lamports_entered:
  "instruction_lamports tc (entered tc' s) = instruction_lamports tc (last (instruction_trace tc'))"
  by (simp add: instruction_lamports_def contribution_def entered_def
      get_number_of_instruction_accounts_def)

lemma detect_unbalanced_False:
  assumes "detect_unbalanced tc = Inr False" and "tc_rent tc \<noteq> None"
  obtains ic where "get_current_instruction_context tc = Inr ic"
    and "instruction_lamports tc ic = unat (ic_instruction_accounts_lamport_sum ic)"
  using assms instruction_accounts_lamport_sum_correct
  by (fastforce simp: detect_unbalanced_def result_simps
      is_early_verification_of_account_modifications_enabled_def split: if_splits)

lemma push_checks_sum:
  assumes "push_checks tc = Inr s" and "tc_rent tc \<noteq> None"
  shows "unat s = instruction_lamports tc (last (instruction_trace tc))"
  using assms instruction_accounts_lamport_sum_correct
  by (fastforce simp: push_checks_def result_simps last_opt_eq_Some_iff split: if_splits)

lemma push_checks_caller:
  assumes "push_checks tc = Inr s" and "tc_rent tc \<noteq> None" and "instruction_stack tc \<noteq> []"
  obtains ic where "get_current_instruction_context tc = Inr ic"
    and "instruction_lamports tc ic = unat (ic_instruction_accounts_lamport_sum ic)"
  using assms instruction_accounts_lamport_sum_correct
  by (fastforce simp: push_checks_def result_simps
      is_early_verification_of_account_modifications_enabled_def split: if_splits)

lemma balanced_frame:
  assumes wf: "stack_wf tc" and rent: "tc_rent tc \<noteq> None"
    and push: "push tc = (Inr (), tc1)"
    and stack: "instruction_stack tc2 = instruction_stack tc1"
    and trace: "instruction_trace tc2 ! last (instruction_stack tc1)
                  = instruction_trace tc1 ! last (instruction_stack tc1)"
    and wf2: "stack_wf tc2" and rent2: "tc_rent tc2 = tc_rent tc"
    and pop: "pop tc2 = (Inr (), tc3)"
  shows "instruction_lamports tc2 (last (instruction_trace tc))
           = instruction_lamports tc (last (instruction_trace tc))"
proof -
  from push obtain s where chk: "push_checks tc = Inr s" and ne: "instruction_trace tc \<noteq> []"
    and tc1: "tc1 = tc\<lparr>instruction_trace :=
                butlast (instruction_trace tc) @ [entered tc s, InstructionContext_default],
              instruction_stack := instruction_stack tc @ [get_instruction_trace_length tc]\<rparr>"
    by (rule push_Ok)
  have last1: "last (instruction_stack tc1) = get_instruction_trace_length tc"
    by (simp add: tc1)
  have entry: "instruction_trace tc2 ! last (instruction_stack tc2) = entered tc s"
    using trace last1 ne stack by (simp add: tc1 get_instruction_trace_length_def nth_append)
  have "get_current_instruction_context tc2 = Inr (entered tc s)"
    using get_current_instruction_context_eq [OF wf2] pop_Ok(2) [OF pop] entry by simp
  then have "instruction_lamports tc2 (entered tc s) = unat s"
    using detect_unbalanced_False [OF pop_Ok(1) [OF pop]] rent rent2
    by (metis Inr_inject entered_def InstructionContext.select_convs(2)
        InstructionContext.surjective InstructionContext.update_convs(2))
  then show ?thesis
    using push_checks_sum [OF chk rent] by (simp add: instruction_lamports_entered)
qed

text \<open>
  C1: Under early verification an instruction is balanced.  When the context has a rent, which is
  how early verification is switched on, an instruction that is pushed and later popped without an
  error leaves the lamports of its accounts, duplicates counted once, at the sum they had when it
  was pushed, whatever ran in between, provided it kept the frame of the instruction (the stack,
  the entry of the trace and the rent).  Without a rent neither \<open>push\<close> nor \<open>pop\<close> compares the
  sums; the comparison is then made by the late verification of the invoke context.
\<close>

theorem instruction_balanced:
  assumes wf: "stack_wf tc" and rent: "tc_rent tc \<noteq> None"
    and push: "push tc = (Inr (), tc1)"
    and stack: "instruction_stack tc2 = instruction_stack tc1"
    and trace: "instruction_trace tc2 ! last (instruction_stack tc1)
                  = instruction_trace tc1 ! last (instruction_stack tc1)"
    and wf2: "stack_wf tc2" and rent2: "tc_rent tc2 = tc_rent tc"
    and pop: "pop tc2 = (Inr (), tc3)"
  shows "instruction_lamports tc2 (last (instruction_trace tc))
           = instruction_lamports tc (last (instruction_trace tc))"
  using assms by (rule balanced_frame)

text \<open>A transaction of three accounts; account 0 holds the program, the other two are passed to it.\<close>

definition sample_instruction_accounts :: "InstructionAccount list" where
  "sample_instruction_accounts =
     [\<lparr>ia_index_in_transaction = 1, ia_index_in_caller = 1, ia_index_in_callee = 0,
       ia_is_signer = True, ia_is_writable = True\<rparr>,
      \<lparr>ia_index_in_transaction = 2, ia_index_in_caller = 2, ia_index_in_callee = 1,
       ia_is_signer = False, ia_is_writable = True\<rparr>]"

definition sample_tc :: TransactionContext where
  "sample_tc =
     (TransactionContext_new [(7, shared_new 1 0 0), (8, shared_new 100 0 7), (9, shared_new 50 0 7)]
        (Some Rent_default) 5 64)
       \<lparr>instruction_trace :=
          [configure [0] sample_instruction_accounts [] InstructionContext_default]\<rparr>"

lemmas [exec] = sample_instruction_accounts_def sample_tc_def

definition sample_moved :: TransactionContext where
  "sample_moved =
     (snd (push sample_tc))\<lparr>accounts := map (\<lambda>a. \<lparr>cell_value = a, cell_borrowed = False\<rparr>)
        [shared_new 1 0 0, shared_new 70 0 7, shared_new 80 0 7]\<rparr>"

theorem instruction_balanced_witness:
  "fst (push sample_tc) = Inr () \<and> fst (pop sample_moved) = Inr () \<and>
   instruction_lamports sample_moved (last (instruction_trace sample_tc))
     = instruction_lamports sample_tc (last (instruction_trace sample_tc))"
proof -
  have "stack_wf sample_tc" "tc_rent sample_tc \<noteq> None" "fst (push sample_tc) = Inr ()"
    by (simp_all add: stack_wf_def exec)
  moreover have "stack_wf sample_moved" "fst (pop sample_moved) = Inr ()"
    by (simp_all add: sample_moved_def stack_wf_def exec)
  moreover have "instruction_stack sample_moved = instruction_stack (snd (push sample_tc))"
    "instruction_trace sample_moved = instruction_trace (snd (push sample_tc))"
    "tc_rent sample_moved = tc_rent sample_tc"
    by (simp_all add: sample_moved_def exec)
  ultimately show ?thesis
    using instruction_balanced [of sample_tc "snd (push sample_tc)" sample_moved "snd (pop sample_moved)"]
    by (simp add: prod_eq_iff)
qed

end
