(* ===== verification/BorrowedAccount.thy ===== *)
theory BorrowedAccount
  imports TransactionContext
begin

text \<open>
  \<^verbatim>\<open>sdk/src/transaction_context.rs\<close>, second half: borrowing an account of the instruction and
  the guarded operations on it.  A \<open>BorrowedAccount\<close> carries the two indices of the account
  and the context of its instruction; the account itself stays in the transaction context, where
  its cell is marked as borrowed until \<open>drop_account\<close>, which stands for the end of the
  variable's scope.  The guards apply when early verification is on, that is, when the transaction
  context holds rent parameters.
\<close>

record BorrowedAccount =
  ba_instruction_context :: InstructionContext
  ba_index_in_transaction :: IndexOfAccount
  ba_index_in_instruction :: IndexOfAccount

definition ba_cell :: "BorrowedAccount \<Rightarrow> TransactionContext \<Rightarrow> account_cell" where
  "ba_cell ba tc = accounts tc ! unat (ba_index_in_transaction ba)"

definition ba_account :: "BorrowedAccount \<Rightarrow> TransactionContext \<Rightarrow> AccountSharedData" where
  "ba_account ba tc = cell_value (ba_cell ba tc)"

definition set_cell :: "BorrowedAccount \<Rightarrow> account_cell \<Rightarrow> TransactionContext \<Rightarrow> TransactionContext" where
  "set_cell ba c tc = tc\<lparr>accounts := (accounts tc)[unat (ba_index_in_transaction ba) := c]\<rparr>"

definition store_account :: "BorrowedAccount \<Rightarrow> AccountSharedData \<Rightarrow> TransactionContext \<Rightarrow> TransactionContext" where
  "store_account ba a tc = set_cell ba ((ba_cell ba tc)\<lparr>cell_value := a\<rparr>) tc"

section \<open>Borrowing\<close>

definition try_borrow_account ::
    "InstructionContext \<Rightarrow> TransactionContext \<Rightarrow> IndexOfAccount \<Rightarrow> IndexOfAccount
       \<Rightarrow> InstructionError + (BorrowedAccount \<times> TransactionContext)" where
  "try_borrow_account self tc index_in_transaction index_in_instruction =
     and_then (ok_or (get (accounts tc) (unat index_in_transaction)) MissingAccount) (\<lambda>cell.
       if cell_borrowed cell then Inl AccountBorrowFailed
       else
         let ba = \<lparr>ba_instruction_context = self,
                   ba_index_in_transaction = index_in_transaction,
                   ba_index_in_instruction = index_in_instruction\<rparr>
         in Inr (ba, set_cell ba (cell\<lparr>cell_borrowed := True\<rparr>) tc))"

definition drop_account :: "BorrowedAccount \<Rightarrow> TransactionContext \<Rightarrow> TransactionContext" where
  "drop_account ba tc = set_cell ba ((ba_cell ba tc)\<lparr>cell_borrowed := False\<rparr>) tc"

definition try_borrow_program_account ::
    "InstructionContext \<Rightarrow> TransactionContext \<Rightarrow> IndexOfAccount
       \<Rightarrow> InstructionError + (BorrowedAccount \<times> TransactionContext)" where
  "try_borrow_program_account self tc i =
     and_then (get_index_of_program_account_in_transaction self i)
       (\<lambda>index_in_transaction. try_borrow_account self tc index_in_transaction i)"

definition try_borrow_last_program_account ::
    "InstructionContext \<Rightarrow> TransactionContext
       \<Rightarrow> InstructionError + (BorrowedAccount \<times> TransactionContext)" where
  "try_borrow_last_program_account self tc =
     try_borrow_program_account self tc (saturating_sub (get_number_of_program_accounts self) 1)"

definition try_borrow_instruction_account ::
    "InstructionContext \<Rightarrow> TransactionContext \<Rightarrow> IndexOfAccount
       \<Rightarrow> InstructionError + (BorrowedAccount \<times> TransactionContext)" where
  "try_borrow_instruction_account self tc i =
     and_then (get_index_of_instruction_account_in_transaction self i)
       (\<lambda>index_in_transaction.
          try_borrow_account self tc index_in_transaction
            (saturating_add (get_number_of_program_accounts self) i))"

section \<open>Reading\<close>

text \<open>\<open>get_key\<close> unwraps; the index of a borrowed account is in range by construction.\<close>

definition ba_key :: "BorrowedAccount \<Rightarrow> TransactionContext \<Rightarrow> pubkey" where
  "ba_key ba tc = account_keys tc ! unat (ba_index_in_transaction ba)"

definition get_owner :: "BorrowedAccount \<Rightarrow> TransactionContext \<Rightarrow> pubkey" where
  "get_owner ba tc = owner (ba_account ba tc)"

definition get_lamports :: "BorrowedAccount \<Rightarrow> TransactionContext \<Rightarrow> u64" where
  "get_lamports ba tc = lamports (ba_account ba tc)"

definition get_data :: "BorrowedAccount \<Rightarrow> TransactionContext \<Rightarrow> bytes" where
  "get_data ba tc = data (ba_account ba tc)"

definition is_executable :: "BorrowedAccount \<Rightarrow> TransactionContext \<Rightarrow> bool" where
  "is_executable ba tc = executable (ba_account ba tc)"

definition get_rent_epoch :: "BorrowedAccount \<Rightarrow> TransactionContext \<Rightarrow> u64" where
  "get_rent_epoch ba tc = rent_epoch (ba_account ba tc)"

definition unwrap_or_false :: "'e + bool \<Rightarrow> bool" where
  "unwrap_or_false r = (case r of Inl _ \<Rightarrow> False | Inr b \<Rightarrow> b)"

definition is_signer :: "BorrowedAccount \<Rightarrow> bool" where
  "is_signer ba =
     (let ic = ba_instruction_context ba
      in if ba_index_in_instruction ba < get_number_of_program_accounts ic then False
         else unwrap_or_false (is_instruction_account_signer ic
                (saturating_sub (ba_index_in_instruction ba) (get_number_of_program_accounts ic))))"

definition is_writable :: "BorrowedAccount \<Rightarrow> bool" where
  "is_writable ba =
     (let ic = ba_instruction_context ba
      in if ba_index_in_instruction ba < get_number_of_program_accounts ic then False
         else unwrap_or_false (is_instruction_account_writable ic
                (saturating_sub (ba_index_in_instruction ba) (get_number_of_program_accounts ic))))"

definition is_owned_by_current_program :: "BorrowedAccount \<Rightarrow> TransactionContext \<Rightarrow> bool" where
  "is_owned_by_current_program ba tc =
     unwrap_or_false
       (case get_last_program_key (ba_instruction_context ba) tc of
          Inl e \<Rightarrow> Inl e
        | Inr key \<Rightarrow> Inr (key = get_owner ba tc))"

text \<open>\<open>usize as i64\<close>.\<close>

definition as_i64 :: "nat \<Rightarrow> int" where
  "as_i64 n = (let m = n mod 2 ^ 64 in if m < 2 ^ 63 then int m else int m - 2 ^ 64)"

definition MAX_PERMITTED_DATA_LENGTH :: u64 where
  "MAX_PERMITTED_DATA_LENGTH = 10 * 1024 * 1024"

definition MAX_PERMITTED_ACCOUNTS_DATA_ALLOCATIONS_PER_TRANSACTION :: int where
  "MAX_PERMITTED_ACCOUNTS_DATA_ALLOCATIONS_PER_TRANSACTION = 10 * 1024 * 1024 * 2"

definition can_data_be_changed :: "BorrowedAccount \<Rightarrow> TransactionContext \<Rightarrow> InstructionError + unit" where
  "can_data_be_changed ba tc =
     (if \<not> is_early_verification_of_account_modifications_enabled tc then Inr ()
      else if is_executable ba tc then Inl ExecutableDataModified
      else if \<not> is_writable ba then Inl ReadonlyDataModified
      else if \<not> is_owned_by_current_program ba tc then Inl ExternalAccountDataModified
      else Inr ())"

definition can_data_be_resized :: "BorrowedAccount \<Rightarrow> nat \<Rightarrow> TransactionContext \<Rightarrow> InstructionError + unit" where
  "can_data_be_resized ba new_length tc =
     (if \<not> is_early_verification_of_account_modifications_enabled tc then Inr ()
      else
        let old_length = length (get_data ba tc) in
        if new_length \<noteq> old_length \<and> \<not> is_owned_by_current_program ba tc
        then Inl AccountDataSizeChanged
        else if unat MAX_PERMITTED_DATA_LENGTH < new_length then Inl InvalidRealloc
        else if is_cap_accounts_data_allocations_per_transaction_enabled tc \<and>
                MAX_PERMITTED_ACCOUNTS_DATA_ALLOCATIONS_PER_TRANSACTION
                  < i64_saturating_add (accounts_resize_delta tc)
                      (i64_saturating_sub (as_i64 new_length) (as_i64 old_length))
        then Inl MaxAccountsDataAllocationsExceeded
        else Inr ())"

section \<open>Writing\<close>

definition touch :: "BorrowedAccount \<Rightarrow> TransactionContext \<Rightarrow> InstructionError + TransactionContext" where
  "touch ba tc =
     (if is_early_verification_of_account_modifications_enabled tc then
        if unat (ba_index_in_transaction ba) < length (account_touched_flags tc)
        then Inr (tc\<lparr>account_touched_flags :=
                    (account_touched_flags tc)[unat (ba_index_in_transaction ba) := True]\<rparr>)
        else Inl NotEnoughAccountKeys
      else Inr tc)"

definition update_accounts_resize_delta :: "BorrowedAccount \<Rightarrow> nat \<Rightarrow> TransactionContext \<Rightarrow> TransactionContext" where
  "update_accounts_resize_delta ba new_len tc =
     tc\<lparr>accounts_resize_delta :=
          i64_saturating_add (accounts_resize_delta tc)
            (i64_saturating_sub (as_i64 new_len) (as_i64 (length (get_data ba tc))))\<rparr>"

text \<open>\<open>is_zeroed\<close> compares whole chunks of 1024 bytes, then the remainder.\<close>

definition ZEROS_LEN :: nat where "ZEROS_LEN = 1024"

function is_zeroed :: "bytes \<Rightarrow> bool" where
  "is_zeroed buf =
     (if ZEROS_LEN \<le> length buf
      then take ZEROS_LEN buf = replicate ZEROS_LEN 0 \<and> is_zeroed (drop ZEROS_LEN buf)
      else buf = replicate (length buf) 0)"
  by pat_completeness auto
termination
  by (relation "measure length") (auto simp: ZEROS_LEN_def)

declare is_zeroed.simps [simp del]

definition set_owner :: "BorrowedAccount \<Rightarrow> pubkey \<Rightarrow> TransactionContext \<Rightarrow> InstructionError + TransactionContext" where
  "set_owner ba key tc =
     (if is_early_verification_of_account_modifications_enabled tc then
        if \<not> is_owned_by_current_program ba tc then Inl ModifiedProgramId
        else if \<not> is_writable ba then Inl ModifiedProgramId
        else if is_executable ba tc then Inl ModifiedProgramId
        else if \<not> is_zeroed (get_data ba tc) then Inl ModifiedProgramId
        else if get_owner ba tc = key then Inr tc
        else and_then (touch ba tc)
               (\<lambda>tc. Inr (store_account ba (acct_set_owner (ba_account ba tc) key) tc))
      else Inr (store_account ba (acct_set_owner (ba_account ba tc) key) tc))"

definition set_lamports :: "BorrowedAccount \<Rightarrow> u64 \<Rightarrow> TransactionContext \<Rightarrow> InstructionError + TransactionContext" where
  "set_lamports ba l tc =
     (if is_early_verification_of_account_modifications_enabled tc then
        if \<not> is_owned_by_current_program ba tc \<and> l < get_lamports ba tc
        then Inl ExternalAccountLamportSpend
        else if \<not> is_writable ba then Inl ReadonlyLamportChange
        else if is_executable ba tc then Inl ExecutableLamportChange
        else if get_lamports ba tc = l then Inr tc
        else and_then (touch ba tc)
               (\<lambda>tc. Inr (store_account ba (acct_set_lamports (ba_account ba tc) l) tc))
      else Inr (store_account ba (acct_set_lamports (ba_account ba tc) l) tc))"

definition checked_add_lamports :: "BorrowedAccount \<Rightarrow> u64 \<Rightarrow> TransactionContext \<Rightarrow> InstructionError + TransactionContext" where
  "checked_add_lamports ba l tc =
     and_then (ok_or (checked_add (get_lamports ba tc) l) ArithmeticOverflow)
       (\<lambda>s. set_lamports ba s tc)"

definition checked_sub_lamports :: "BorrowedAccount \<Rightarrow> u64 \<Rightarrow> TransactionContext \<Rightarrow> InstructionError + TransactionContext" where
  "checked_sub_lamports ba l tc =
     and_then (ok_or (checked_sub (get_lamports ba tc) l) ArithmeticOverflow)
       (\<lambda>s. set_lamports ba s tc)"

text \<open>\<open>get_data_mut\<close> hands out the slice; the caller's write follows in the model.\<close>

definition get_data_mut :: "BorrowedAccount \<Rightarrow> TransactionContext \<Rightarrow> InstructionError + TransactionContext" where
  "get_data_mut ba tc = and_then (can_data_be_changed ba tc) (\<lambda>_. touch ba tc)"

definition set_data :: "BorrowedAccount \<Rightarrow> bytes \<Rightarrow> TransactionContext \<Rightarrow> InstructionError + TransactionContext" where
  "set_data ba d tc =
     and_then (can_data_be_resized ba (length d) tc) (\<lambda>_.
     and_then (can_data_be_changed ba tc) (\<lambda>_.
     and_then (touch ba tc) (\<lambda>tc.
     let tc = update_accounts_resize_delta ba (length d) tc
     in Inr (store_account ba (acct_set_data (ba_account ba tc) d) tc))))"

definition set_data_from_slice :: "BorrowedAccount \<Rightarrow> bytes \<Rightarrow> TransactionContext \<Rightarrow> InstructionError + TransactionContext" where
  "set_data_from_slice ba d tc =
     and_then (can_data_be_resized ba (length d) tc) (\<lambda>_.
     and_then (can_data_be_changed ba tc) (\<lambda>_.
     and_then (touch ba tc) (\<lambda>tc.
     let tc = update_accounts_resize_delta ba (length d) tc
     in Inr (store_account ba (acct_set_data (ba_account ba tc) d) tc))))"

definition set_data_length :: "BorrowedAccount \<Rightarrow> nat \<Rightarrow> TransactionContext \<Rightarrow> InstructionError + TransactionContext" where
  "set_data_length ba new_length tc =
     and_then (can_data_be_resized ba new_length tc) (\<lambda>_.
     and_then (can_data_be_changed ba tc) (\<lambda>_.
     if length (get_data ba tc) = new_length then Inr tc
     else
       and_then (touch ba tc) (\<lambda>tc.
       let tc = update_accounts_resize_delta ba new_length tc
       in Inr (store_account ba
                (acct_set_data (ba_account ba tc) (vec_resize (get_data ba tc) new_length)) tc))))"

definition extend_from_slice :: "BorrowedAccount \<Rightarrow> bytes \<Rightarrow> TransactionContext \<Rightarrow> InstructionError + TransactionContext" where
  "extend_from_slice ba d tc =
     (let new_len = length (get_data ba tc) + length d in
      and_then (can_data_be_resized ba new_len tc) (\<lambda>_.
      and_then (can_data_be_changed ba tc) (\<lambda>_.
      if d = [] then Inr tc
      else
        and_then (touch ba tc) (\<lambda>tc.
        let tc = update_accounts_resize_delta ba new_len tc
        in Inr (store_account ba (acct_set_data (ba_account ba tc) (get_data ba tc @ d)) tc)))))"

definition get_state :: "'s bincode \<Rightarrow> BorrowedAccount \<Rightarrow> TransactionContext \<Rightarrow> InstructionError + 's" where
  "get_state bc ba tc = ok_or (bc_deserialize bc (get_data ba tc)) InvalidAccountData"

definition set_state :: "'s bincode \<Rightarrow> BorrowedAccount \<Rightarrow> 's \<Rightarrow> TransactionContext \<Rightarrow> InstructionError + TransactionContext" where
  "set_state bc ba st tc =
     and_then (get_data_mut ba tc) (\<lambda>tc.
     and_then (ok_or (bc_serialize bc st) GenericError) (\<lambda>bs.
     if length (get_data ba tc) < length bs then Inl AccountDataTooSmall
     else Inr (store_account ba
                (acct_set_data (ba_account ba tc) (overwrite_front (get_data ba tc) bs)) tc)))"

definition set_executable :: "BorrowedAccount \<Rightarrow> bool \<Rightarrow> TransactionContext \<Rightarrow> InstructionError + TransactionContext" where
  "set_executable ba b tc =
     (case tc_rent tc of
        Some rent \<Rightarrow>
          if \<not> is_exempt rent (get_lamports ba tc) (length (get_data ba tc))
          then Inl ExecutableAccountNotRentExempt
          else if \<not> is_owned_by_current_program ba tc then Inl ExecutableModified
          else if \<not> is_writable ba then Inl ExecutableModified
          else if is_executable ba tc \<and> \<not> b then Inl ExecutableModified
          else if is_executable ba tc = b then Inr tc
          else and_then (touch ba tc)
                 (\<lambda>tc. Inr (store_account ba (acct_set_executable (ba_account ba tc) b) tc))
      | None \<Rightarrow> Inr (store_account ba (acct_set_executable (ba_account ba tc) b) tc))"

section \<open>Zeroed data\<close>

lemma eq_replicate_length_iff: "xs = replicate (length xs) a \<longleftrightarrow> (\<forall>x \<in> set xs. x = a)"
  by (induction xs) auto

lemma is_zeroed_iff: "is_zeroed buf \<longleftrightarrow> (\<forall>b \<in> set buf. b = 0)"
proof (induction buf rule: is_zeroed.induct)
  case (1 buf)
  show ?case
  proof (cases "ZEROS_LEN \<le> length buf")
    case True
    have "set buf = set (take ZEROS_LEN buf) \<union> set (drop ZEROS_LEN buf)"
      by (metis append_take_drop_id set_append)
    moreover have "take ZEROS_LEN buf = replicate ZEROS_LEN 0
        \<longleftrightarrow> (\<forall>b \<in> set (take ZEROS_LEN buf). b = 0)"
      using True eq_replicate_length_iff [of "take ZEROS_LEN buf" 0] by (simp add: min_absorb2)
    ultimately show ?thesis
      using True "1.IH" by (auto simp: is_zeroed.simps [of buf])
  next
    case False
    then show ?thesis
      using eq_replicate_length_iff [of buf 0] by (simp add: is_zeroed.simps [of buf])
  qed
qed

lemmas [exec] =
  ba_cell_def ba_account_def set_cell_def store_account_def try_borrow_account_def
  drop_account_def try_borrow_program_account_def try_borrow_last_program_account_def
  try_borrow_instruction_account_def ba_key_def get_owner_def get_lamports_def get_data_def
  is_executable_def unwrap_or_false_def is_signer_def is_writable_def
  is_owned_by_current_program_def as_i64_def MAX_PERMITTED_DATA_LENGTH_def
  MAX_PERMITTED_ACCOUNTS_DATA_ALLOCATIONS_PER_TRANSACTION_def can_data_be_changed_def
  can_data_be_resized_def touch_def update_accounts_resize_delta_def is_zeroed_iff set_owner_def
  set_lamports_def checked_add_lamports_def checked_sub_lamports_def get_data_mut_def set_data_def
  set_data_from_slice_def set_data_length_def extend_from_slice_def get_state_def set_state_def
  set_executable_def

section \<open>What a write may change\<close>

text \<open>
  Every write replaces the account of one cell and may set its touched flag and move the resize
  delta; nothing else in the context changes.
\<close>

definition in_range :: "BorrowedAccount \<Rightarrow> TransactionContext \<Rightarrow> bool" where
  "in_range ba tc \<longleftrightarrow> unat (ba_index_in_transaction ba) < length (accounts tc)"

definition rewritten ::
    "BorrowedAccount \<Rightarrow> AccountSharedData \<Rightarrow> TransactionContext \<Rightarrow> TransactionContext \<Rightarrow> bool" where
  "rewritten ba a tc tc' \<longleftrightarrow>
     (\<exists>fl dl. length fl = length (account_touched_flags tc) \<and>
        tc' = store_account ba a (tc\<lparr>account_touched_flags := fl, accounts_resize_delta := dl\<rparr>))"

lemmas ba_simps = ba_cell_def ba_account_def set_cell_def store_account_def

lemma ba_account_store [simp]: "in_range ba tc \<Longrightarrow> ba_account ba (store_account ba a tc) = a"
  by (simp add: in_range_def ba_simps)

lemma store_account_same [simp]: "store_account ba (ba_account ba tc) tc = tc"
  by (simp add: ba_simps)

lemma rewritten_refl: "rewritten ba (ba_account ba tc) tc tc"
  unfolding rewritten_def
  by (rule exI [of _ "account_touched_flags tc"], rule exI [of _ "accounts_resize_delta tc"]) simp

lemma rewritten_account:
  assumes "rewritten ba a tc tc'" and "in_range ba tc"
  shows "ba_account ba tc' = a"
  using assms by (auto simp: rewritten_def in_range_def ba_simps)

lemma rewritten_other:
  assumes "rewritten ba a tc tc'" and "i \<noteq> unat (ba_index_in_transaction ba)"
  shows "accounts tc' ! i = accounts tc ! i"
  using assms by (auto simp: rewritten_def ba_simps)

lemma rewritten_frame:
  assumes "rewritten ba a tc tc'"
  shows "account_keys tc' = account_keys tc" "length (accounts tc') = length (accounts tc)"
    "length (account_touched_flags tc') = length (account_touched_flags tc)"
    "instruction_stack tc' = instruction_stack tc" "instruction_trace tc' = instruction_trace tc"
    "instruction_stack_capacity tc' = instruction_stack_capacity tc"
    "instruction_trace_capacity tc' = instruction_trace_capacity tc"
    "return_data tc' = return_data tc" "tc_rent tc' = tc_rent tc"
    "is_cap_accounts_data_allocations_per_transaction_enabled tc'
       = is_cap_accounts_data_allocations_per_transaction_enabled tc"
  using assms by (auto simp: rewritten_def ba_simps)

lemma rewritten_borrowed:
  assumes "rewritten ba a tc tc'" and "i < length (accounts tc)"
  shows "cell_borrowed (accounts tc' ! i) = cell_borrowed (accounts tc ! i)"
  using assms
  by (cases "i = unat (ba_index_in_transaction ba)") (auto simp: rewritten_def ba_simps)

lemma touch_Inr:
  assumes "touch ba tc = Inr tc'"
  obtains fl where "length fl = length (account_touched_flags tc)"
    and "tc' = tc\<lparr>account_touched_flags := fl\<rparr>"
proof (cases "is_early_verification_of_account_modifications_enabled tc")
  case True
  with assms show ?thesis
    by (intro that [of "(account_touched_flags tc)[unat (ba_index_in_transaction ba) := True]"])
       (auto simp: touch_def split: if_splits)
next
  case False
  with assms show ?thesis
    by (intro that [of "account_touched_flags tc"]) (auto simp: touch_def)
qed

lemma ba_account_frame_simps [simp]:
  "ba_account ba (tc\<lparr>account_touched_flags := fl\<rparr>) = ba_account ba tc"
  "ba_account ba (tc\<lparr>accounts_resize_delta := dl\<rparr>) = ba_account ba tc"
  "get_data ba (tc\<lparr>account_touched_flags := fl\<rparr>) = get_data ba tc"
  "get_data ba (tc\<lparr>accounts_resize_delta := dl\<rparr>) = get_data ba tc"
  by (simp_all add: ba_simps get_data_def)

lemma rewritten_touch:
  assumes "length fl = length (account_touched_flags tc)"
  shows "rewritten ba a tc (store_account ba a (tc\<lparr>account_touched_flags := fl\<rparr>))"
  unfolding rewritten_def
  by (rule exI [of _ fl], rule exI [of _ "accounts_resize_delta tc"], cases tc) (use assms in simp)

lemma rewritten_touch_delta:
  assumes "length fl = length (account_touched_flags tc)"
  shows "rewritten ba a tc
     (store_account ba a (tc\<lparr>account_touched_flags := fl, accounts_resize_delta := dl\<rparr>))"
  unfolding rewritten_def using assms by blast

lemma rewritten_store: "rewritten ba a tc (store_account ba a tc)"
  using rewritten_touch [of "account_touched_flags tc" tc ba a] by simp

section \<open>What a guarded write does to its account\<close>

text \<open>
  The rules the runtime documents for account modifications, as a relation between the account
  before and after one write of the program \<open>pid\<close> to an account that is writable
  (\<open>w\<close>): only the owner gives an account away, and only with zeroed data; only the owner
  takes lamports; only the owner writes data; \<open>executable\<close> is one-way; executable accounts
  are frozen.
\<close>

definition current_program :: "BorrowedAccount \<Rightarrow> TransactionContext \<Rightarrow> pubkey option" where
  "current_program ba tc =
     (case get_last_program_key (ba_instruction_context ba) tc of Inl _ \<Rightarrow> None | Inr k \<Rightarrow> Some k)"

inductive account_step ::
    "pubkey option \<Rightarrow> bool \<Rightarrow> Rent \<Rightarrow> AccountSharedData \<Rightarrow> AccountSharedData \<Rightarrow> bool"
  for pid w rent where
  step_owner: "\<lbrakk>w; pid = Some (owner a); \<not> executable a; is_zeroed (data a)\<rbrakk>
     \<Longrightarrow> account_step pid w rent a (a\<lparr>owner := k\<rparr>)"
| step_lamports: "\<lbrakk>w; \<not> executable a; pid = Some (owner a) \<or> lamports a \<le> l\<rbrakk>
     \<Longrightarrow> account_step pid w rent a (a\<lparr>lamports := l\<rparr>)"
| step_data: "\<lbrakk>w; pid = Some (owner a); \<not> executable a;
       length d \<le> unat MAX_PERMITTED_DATA_LENGTH \<or> length d = length (data a)\<rbrakk>
     \<Longrightarrow> account_step pid w rent a (a\<lparr>data := d\<rparr>)"
| step_executable: "\<lbrakk>w; pid = Some (owner a); \<not> executable a;
       is_exempt rent (lamports a) (length (data a))\<rbrakk>
     \<Longrightarrow> account_step pid w rent a (a\<lparr>executable := True\<rparr>)"

inductive_cases account_stepE: "account_step pid w rent a a'"

lemma owned_iff: "is_owned_by_current_program ba tc \<longleftrightarrow> current_program ba tc = Some (get_owner ba tc)"
  by (auto simp: is_owned_by_current_program_def current_program_def unwrap_or_false_def
      split: sum.splits)

lemma get_last_program_key_cong:
  "account_keys tc' = account_keys tc \<Longrightarrow> get_last_program_key ic tc' = get_last_program_key ic tc"
  by (simp add: get_last_program_key_def get_key_of_account_at_index_def)

lemma current_program_cong:
  "account_keys tc' = account_keys tc \<Longrightarrow> current_program ba tc' = current_program ba tc"
  by (simp add: current_program_def get_last_program_key_cong [of tc' tc])

text \<open>
  The contract of a write: it rewrites the borrowed account only, and under early verification it
  either leaves the account as it is or makes a step the rules allow.
\<close>

definition allowed_write :: "BorrowedAccount \<Rightarrow> TransactionContext \<Rightarrow> TransactionContext \<Rightarrow> bool" where
  "allowed_write ba tc tc' \<longleftrightarrow>
     (\<exists>a. rewritten ba a tc tc' \<and>
        (\<forall>rent. tc_rent tc = Some rent \<longrightarrow>
           (account_step (current_program ba tc) (is_writable ba) rent)\<^sup>=\<^sup>= (ba_account ba tc) a))"

locale guarded_write =
  fixes op :: "BorrowedAccount \<Rightarrow> 'x \<Rightarrow> TransactionContext \<Rightarrow> InstructionError + TransactionContext"
  assumes writes: "op ba x tc = Inr tc' \<Longrightarrow> allowed_write ba tc tc'"
begin

lemma one_account:
  assumes "op ba x tc = Inr tc'"
  obtains a where "rewritten ba a tc tc'"
  using writes [OF assms] that unfolding allowed_write_def by blast

lemma keeps_frame:
  assumes "op ba x tc = Inr tc'"
  shows "account_keys tc' = account_keys tc" "length (accounts tc') = length (accounts tc)"
    "instruction_stack tc' = instruction_stack tc" "instruction_trace tc' = instruction_trace tc"
    "tc_rent tc' = tc_rent tc" "return_data tc' = return_data tc"
  by (rule one_account [OF assms]; erule rewritten_frame)+

lemma keeps_stack_wf: "stack_wf tc \<Longrightarrow> op ba x tc = Inr tc' \<Longrightarrow> stack_wf tc'"
  by (erule one_account) (simp add: stack_wf_def get_instruction_trace_length_def rewritten_frame)

lemma keeps_other:
  assumes "op ba x tc = Inr tc'" and "i \<noteq> unat (ba_index_in_transaction ba)"
  shows "accounts tc' ! i = accounts tc ! i"
  by (rule one_account [OF assms(1)]) (rule rewritten_other [OF _ assms(2)])

lemma keeps_borrowed:
  assumes "op ba x tc = Inr tc'" and "i < length (accounts tc)"
  shows "cell_borrowed (accounts tc' ! i) = cell_borrowed (accounts tc ! i)"
  by (rule one_account [OF assms(1)]) (rule rewritten_borrowed [OF _ assms(2)])

lemma steps:
  assumes "op ba x tc = Inr tc'" and "in_range ba tc" and "tc_rent tc = Some rent"
  shows "(account_step (current_program ba tc) (is_writable ba) rent)\<^sup>=\<^sup>=
           (ba_account ba tc) (ba_account ba tc')"
  using writes [OF assms(1)] assms(2,3) by (auto simp: allowed_write_def rewritten_account)

lemma frozen:
  assumes "op ba x tc = Inr tc'" and "in_range ba tc" and "tc_rent tc = Some rent"
    and "\<not> is_writable ba \<or> executable (ba_account ba tc)"
  shows "ba_account ba tc' = ba_account ba tc"
  using steps [OF assms(1-3)] assms(4) by (auto elim: account_stepE)

lemma only_owner_takes:
  assumes "op ba x tc = Inr tc'" and "in_range ba tc" and "tc_rent tc = Some rent"
    and "current_program ba tc \<noteq> Some (get_owner ba tc)"
  shows "lamports (ba_account ba tc) \<le> lamports (ba_account ba tc')"
    and "data (ba_account ba tc') = data (ba_account ba tc)"
    and "owner (ba_account ba tc') = owner (ba_account ba tc)"
    and "executable (ba_account ba tc') = executable (ba_account ba tc)"
  using steps [OF assms(1-3)] assms(4) by (auto simp: get_owner_def elim: account_stepE)

end

section \<open>The writes keep the contract\<close>

lemmas early_def = is_early_verification_of_account_modifications_enabled_def

lemma touch_store:
  assumes "and_then (touch ba tc) (\<lambda>tc. Inr (store_account ba (f (ba_account ba tc)) tc)) = Inr tc'"
  shows "rewritten ba (f (ba_account ba tc)) tc tc'"
proof -
  from assms obtain tc1 where t: "touch ba tc = Inr tc1"
    and tc': "tc' = store_account ba (f (ba_account ba tc1)) tc1"
    by (auto simp: result_simps)
  from t show ?thesis
    by (rule touch_Inr) (simp add: tc' rewritten_touch)
qed

lemma touch_delta_store:
  assumes "and_then (touch ba tc) (\<lambda>tc.
       let tc = update_accounts_resize_delta ba n tc
       in Inr (store_account ba (f (ba_account ba tc)) tc)) = Inr tc'"
  shows "rewritten ba (f (ba_account ba tc)) tc tc'"
proof -
  from assms obtain tc1 where t: "touch ba tc = Inr tc1"
    and tc': "tc' = (let tc = update_accounts_resize_delta ba n tc1
                      in store_account ba (f (ba_account ba tc)) tc)"
    by (auto simp: result_simps Let_def)
  from t show ?thesis
    by (rule touch_Inr)
       (simp add: tc' update_accounts_resize_delta_def Let_def rewritten_touch_delta)
qed

lemma can_data_be_changed_Inr:
  "can_data_be_changed ba tc = Inr u \<longleftrightarrow>
     tc_rent tc = None \<or>
     \<not> executable (ba_account ba tc) \<and> is_writable ba \<and>
     current_program ba tc = Some (owner (ba_account ba tc))"
  by (auto simp: can_data_be_changed_def early_def owned_iff is_executable_def get_owner_def)

lemma can_data_be_resized_Inr:
  "can_data_be_resized ba n tc = Inr u \<Longrightarrow> tc_rent tc = None \<or> n \<le> unat MAX_PERMITTED_DATA_LENGTH"
  by (auto simp: can_data_be_resized_def early_def Let_def split: if_splits)

lemma allowed_writeI:
  assumes "rewritten ba a tc tc'"
    and "\<And>rent. tc_rent tc = Some rent \<Longrightarrow>
       account_step (current_program ba tc) (is_writable ba) rent (ba_account ba tc) a"
  shows "allowed_write ba tc tc'"
  using assms unfolding allowed_write_def by blast

lemma allowed_write_refl [simp]: "allowed_write ba tc tc"
  unfolding allowed_write_def using rewritten_refl by blast

lemma data_write:
  assumes "can_data_be_resized ba (length d) tc = Inr u" "can_data_be_changed ba tc = Inr v"
    and "rewritten ba ((ba_account ba tc)\<lparr>data := d\<rparr>) tc tc'"
  shows "allowed_write ba tc tc'"
  using assms(2) can_data_be_resized_Inr [OF assms(1)]
  by (intro allowed_writeI [OF assms(3)]) (auto simp: can_data_be_changed_Inr intro!: step_data)

text \<open>The exact effect of each write on its account.\<close>

lemma set_owner_effect:
  assumes "set_owner ba k tc = Inr tc'"
  shows "rewritten ba ((ba_account ba tc)\<lparr>owner := k\<rparr>) tc tc'"
proof (cases "tc_rent tc = None \<or> get_owner ba tc \<noteq> k")
  case True
  with assms show ?thesis
    using touch_store [of ba tc "\<lambda>a. acct_set_owner a k" tc']
      rewritten_store [of ba "(ba_account ba tc)\<lparr>owner := k\<rparr>" tc]
    by (auto simp: set_owner_def early_def acct_set_owner_def split: if_splits)
next
  case False
  then have "(ba_account ba tc)\<lparr>owner := k\<rparr> = ba_account ba tc" by (simp add: get_owner_def)
  with assms False show ?thesis
    using rewritten_refl [of ba tc] by (auto simp: set_owner_def early_def split: if_splits)
qed

lemma set_lamports_effect:
  assumes "set_lamports ba l tc = Inr tc'"
  shows "rewritten ba ((ba_account ba tc)\<lparr>lamports := l\<rparr>) tc tc'"
proof (cases "tc_rent tc = None \<or> get_lamports ba tc \<noteq> l")
  case True
  with assms show ?thesis
    using touch_store [of ba tc "\<lambda>a. acct_set_lamports a l" tc']
      rewritten_store [of ba "(ba_account ba tc)\<lparr>lamports := l\<rparr>" tc]
    by (auto simp: set_lamports_def early_def acct_set_lamports_def split: if_splits)
next
  case False
  then have "(ba_account ba tc)\<lparr>lamports := l\<rparr> = ba_account ba tc" by (simp add: get_lamports_def)
  with assms False show ?thesis
    using rewritten_refl [of ba tc] by (auto simp: set_lamports_def early_def split: if_splits)
qed

lemma set_data_effect:
  "set_data ba d tc = Inr tc' \<Longrightarrow> rewritten ba ((ba_account ba tc)\<lparr>data := d\<rparr>) tc tc'"
  using touch_delta_store [of ba tc "length d" "\<lambda>a. acct_set_data a d" tc']
  by (auto simp: set_data_def result_simps acct_set_data_def)

lemma set_data_from_slice_effect:
  "set_data_from_slice ba d tc = Inr tc' \<Longrightarrow> rewritten ba ((ba_account ba tc)\<lparr>data := d\<rparr>) tc tc'"
  using set_data_effect by (simp add: set_data_from_slice_def set_data_def)

lemma set_data_length_effect:
  assumes "set_data_length ba n tc = Inr tc'"
  shows "rewritten ba ((ba_account ba tc)\<lparr>data := vec_resize (data (ba_account ba tc)) n\<rparr>) tc tc'"
proof (cases "length (get_data ba tc) = n")
  case True
  then have "(ba_account ba tc)\<lparr>data := vec_resize (data (ba_account ba tc)) n\<rparr> = ba_account ba tc"
    by (auto simp: get_data_def vec_resize_def)
  with assms True show ?thesis
    using rewritten_refl [of ba tc] by (simp add: set_data_length_def result_simps)
next
  case False
  with assms show ?thesis
    using touch_delta_store [of ba tc n "\<lambda>a. acct_set_data a (vec_resize (data a) n)" tc']
    by (auto simp: set_data_length_def result_simps acct_set_data_def get_data_def)
qed

lemma extend_from_slice_effect:
  assumes "extend_from_slice ba d tc = Inr tc'"
  shows "rewritten ba ((ba_account ba tc)\<lparr>data := data (ba_account ba tc) @ d\<rparr>) tc tc'"
proof (cases "d = []")
  case True
  with assms show ?thesis
    using rewritten_refl [of ba tc] by (simp add: extend_from_slice_def result_simps Let_def)
next
  case False
  with assms show ?thesis
    using touch_delta_store [of ba tc "length (get_data ba tc) + length d"
        "\<lambda>a. acct_set_data a (data a @ d)" tc']
    by (auto simp: extend_from_slice_def Let_def result_simps acct_set_data_def get_data_def)
qed

lemma set_executable_effect:
  assumes "set_executable ba b tc = Inr tc'"
  shows "rewritten ba ((ba_account ba tc)\<lparr>executable := b\<rparr>) tc tc'"
proof (cases "tc_rent tc = None \<or> is_executable ba tc \<noteq> b")
  case True
  with assms show ?thesis
    using touch_store [of ba tc "\<lambda>a. acct_set_executable a b" tc']
      rewritten_store [of ba "(ba_account ba tc)\<lparr>executable := b\<rparr>" tc]
    by (auto simp: set_executable_def acct_set_executable_def split: option.splits if_splits)
next
  case False
  then have "(ba_account ba tc)\<lparr>executable := b\<rparr> = ba_account ba tc" by (simp add: is_executable_def)
  with assms False show ?thesis
    using rewritten_refl [of ba tc] by (auto simp: set_executable_def split: if_splits)
qed

text \<open>Each write keeps the contract.\<close>

lemma allowed_write_same: "rewritten ba (ba_account ba tc) tc tc' \<Longrightarrow> allowed_write ba tc tc'"
  unfolding allowed_write_def by blast

interpretation owner_write: guarded_write set_owner
proof
  fix ba k tc tc'
  assume *: "set_owner ba k tc = Inr tc'"
  show "allowed_write ba tc tc'"
    by (rule allowed_writeI [OF set_owner_effect [OF *]], rule step_owner)
       (use * in \<open>auto simp: set_owner_def early_def owned_iff is_executable_def get_owner_def
          get_data_def split: if_splits\<close>)
qed

interpretation lamports_write: guarded_write set_lamports
proof
  fix ba l tc tc'
  assume *: "set_lamports ba l tc = Inr tc'"
  show "allowed_write ba tc tc'"
    by (rule allowed_writeI [OF set_lamports_effect [OF *]], rule step_lamports)
       (use * in \<open>auto simp: set_lamports_def early_def owned_iff is_executable_def get_owner_def
          get_lamports_def not_less split: if_splits\<close>)
qed

interpretation add_lamports_write: guarded_write checked_add_lamports
  by unfold_locales (auto simp: checked_add_lamports_def result_simps dest: lamports_write.writes)

interpretation sub_lamports_write: guarded_write checked_sub_lamports
  by unfold_locales (auto simp: checked_sub_lamports_def result_simps dest: lamports_write.writes)

interpretation data_write: guarded_write set_data
proof
  fix ba d tc tc'
  assume *: "set_data ba d tc = Inr tc'"
  then show "allowed_write ba tc tc'"
    using set_data_effect [OF *] data_write [of ba d tc] by (auto simp: set_data_def result_simps)
qed

interpretation slice_write: guarded_write set_data_from_slice
  using data_write.writes unfolding guarded_write_def set_data_def set_data_from_slice_def by blast

interpretation length_write: guarded_write set_data_length
proof
  fix ba n tc tc'
  assume *: "set_data_length ba n tc = Inr tc'"
  then show "allowed_write ba tc tc'"
    using set_data_length_effect [OF *] data_write [of ba "vec_resize (data (ba_account ba tc)) n" tc]
    by (auto simp: set_data_length_def result_simps)
qed

interpretation extend_write: guarded_write extend_from_slice
proof
  fix ba d tc tc'
  assume *: "extend_from_slice ba d tc = Inr tc'"
  then show "allowed_write ba tc tc'"
    using extend_from_slice_effect [OF *] data_write [of ba "data (ba_account ba tc) @ d" tc]
    by (auto simp: extend_from_slice_def Let_def result_simps get_data_def)
qed

text \<open>\<open>set_state\<close> overwrites the front of the data and keeps its length.\<close>

lemma set_state_Inr:
  assumes "set_state bc ba st tc = Inr tc'"
  obtains bs where "bc_serialize bc st = Some bs" "length bs \<le> length (data (ba_account ba tc))"
    "can_data_be_changed ba tc = Inr ()"
    "rewritten ba ((ba_account ba tc)\<lparr>data := overwrite_front (data (ba_account ba tc)) bs\<rparr>) tc tc'"
proof -
  from assms obtain tc1 bs where
      c: "can_data_be_changed ba tc = Inr ()" and t: "touch ba tc = Inr tc1"
    and bs: "bc_serialize bc st = Some bs" and len: "length bs \<le> length (get_data ba tc1)"
    and tc': "tc' = store_account ba
           (acct_set_data (ba_account ba tc1) (overwrite_front (get_data ba tc1) bs)) tc1"
    by (auto simp: set_state_def get_data_mut_def result_simps split: if_splits)
  from t obtain fl where "length fl = length (account_touched_flags tc)"
    and tc1: "tc1 = tc\<lparr>account_touched_flags := fl\<rparr>"
    by (rule touch_Inr)
  then show ?thesis
    using len by (intro that [OF bs _ c]) (simp_all add: tc' get_data_def acct_set_data_def rewritten_touch)
qed

interpretation state_write: guarded_write "set_state bc" for bc
proof
  fix ba st tc tc'
  assume "set_state bc ba st tc = Inr tc'"
  then obtain bs where "length bs \<le> length (data (ba_account ba tc))"
    and c: "can_data_be_changed ba tc = Inr ()"
    and r: "rewritten ba
       ((ba_account ba tc)\<lparr>data := overwrite_front (data (ba_account ba tc)) bs\<rparr>) tc tc'"
    by (rule set_state_Inr)
  then show "allowed_write ba tc tc'"
    by (intro allowed_writeI [OF r])
       (auto simp: can_data_be_changed_Inr length_overwrite_front intro!: step_data)
qed

interpretation executable_write: guarded_write set_executable
proof
  fix ba b tc tc'
  assume *: "set_executable ba b tc = Inr tc'"
  note eff = set_executable_effect [OF *]
  show "allowed_write ba tc tc'"
  proof (cases "executable (ba_account ba tc)")
    case True
    show ?thesis
    proof (cases "tc_rent tc")
      case None
      then show ?thesis using eff by (auto simp: allowed_write_def)
    next
      case (Some rent)
      then have "b = executable (ba_account ba tc)"
        using * True by (auto simp: set_executable_def is_executable_def split: if_splits)
      then show ?thesis using eff by (simp add: allowed_write_same)
    qed
  next
    case False
    show ?thesis
    proof (cases b)
      case True
      have "account_step (current_program ba tc) (is_writable ba) rent (ba_account ba tc)
          ((ba_account ba tc)\<lparr>executable := True\<rparr>)" if "tc_rent tc = Some rent" for rent
        by (rule step_executable)
           (use that * False in \<open>auto simp: set_executable_def owned_iff get_owner_def get_data_def
              get_lamports_def split: if_splits\<close>)
      then show ?thesis using eff True by (auto intro!: allowed_writeI)
    next
      case False
      then have "b = executable (ba_account ba tc)"
        using \<open>\<not> executable (ba_account ba tc)\<close> by simp
      then show ?thesis using eff by (simp add: allowed_write_same)
    qed
  qed
qed

text \<open>The writes that leave the lamports of the account alone.\<close>

locale lamport_free_write = guarded_write +
  assumes lamports_kept: "op ba x tc = Inr tc' \<Longrightarrow>
    \<exists>a. rewritten ba a tc tc' \<and> lamports a = lamports (ba_account ba tc)"
begin

lemma same_lamports:
  assumes "op ba x tc = Inr tc'" and "in_range ba tc"
  shows "lamports (ba_account ba tc') = lamports (ba_account ba tc)"
  using lamports_kept [OF assms(1)] rewritten_account [OF _ assms(2)] by auto

end

interpretation owner_write: lamport_free_write set_owner
  by unfold_locales (auto dest!: set_owner_effect intro!: exI)

interpretation data_write: lamport_free_write set_data
  by unfold_locales (auto dest!: set_data_effect intro!: exI)

interpretation slice_write: lamport_free_write set_data_from_slice
  by unfold_locales (auto dest!: set_data_from_slice_effect intro!: exI)

interpretation length_write: lamport_free_write set_data_length
  by unfold_locales (auto dest!: set_data_length_effect intro!: exI)

interpretation extend_write: lamport_free_write extend_from_slice
  by unfold_locales (auto dest!: extend_from_slice_effect intro!: exI)

interpretation executable_write: lamport_free_write set_executable
  by unfold_locales (auto dest!: set_executable_effect intro!: exI)

interpretation state_write: lamport_free_write "set_state bc" for bc
  by unfold_locales (erule set_state_Inr, intro exI conjI, assumption, simp)

end
