(* ===== verification/PreAccount.thy ===== *)
theory PreAccount
  imports BorrowedAccount
begin

text \<open>
  \<^verbatim>\<open>program-runtime/src/pre_account.rs\<close>: the copy of an account taken before an
  instruction runs, and the late verification of what the instruction did to it.  The runtime has
  two implementations of the same rules: this comparison of before and after, and the guards of
  the borrowed account, which reject each write as it happens.  The theorems at the end show that
  they accept the same changes.
\<close>

record PreAccount =
  pre_key :: pubkey
  pre_account :: AccountSharedData
  pre_changed :: bool

record ExecuteDetailsTimings =
  total_account_count :: u64
  changed_account_count :: u64

definition PreAccount_new :: "pubkey \<Rightarrow> AccountSharedData \<Rightarrow> PreAccount" where
  "PreAccount_new k a = \<lparr>pre_key = k, pre_account = a, pre_changed = False\<rparr>"

definition verify ::
    "PreAccount \<Rightarrow> pubkey \<Rightarrow> bool \<Rightarrow> Rent \<Rightarrow> AccountSharedData \<Rightarrow> ExecuteDetailsTimings \<Rightarrow> bool
       \<Rightarrow> InstructionError + ExecuteDetailsTimings" where
  "verify self program_id w rent post timings outermost_call =
     (let pre = pre_account self;
          owner_changed = (owner pre \<noteq> owner post);
          lamports_changed = (lamports pre \<noteq> lamports post);
          data_len_changed = (length (data pre) \<noteq> length (data post));
          executable_changed = (executable pre \<noteq> executable post);
          rent_epoch_changed = (rent_epoch pre \<noteq> rent_epoch post)
      in
        if owner_changed \<and>
             (\<not> w \<or> executable pre \<or> program_id \<noteq> owner pre \<or> \<not> is_zeroed (data post))
        then Inl ModifiedProgramId
        else if program_id \<noteq> owner pre \<and> lamports post < lamports pre
        then Inl ExternalAccountLamportSpend
        else if lamports_changed \<and> \<not> w then Inl ReadonlyLamportChange
        else if lamports_changed \<and> executable pre then Inl ExecutableLamportChange
        else if unat MAX_PERMITTED_DATA_LENGTH < length (data post) then Inl InvalidRealloc
        else if data_len_changed \<and> program_id \<noteq> owner pre then Inl AccountDataSizeChanged
        else if \<not> (program_id = owner pre \<and> w \<and> \<not> executable pre) \<and> data pre \<noteq> data post
        then Inl (if executable pre then ExecutableDataModified
                  else if w then ExternalAccountDataModified
                  else ReadonlyDataModified)
        else if executable_changed \<and> \<not> is_exempt rent (lamports post) (length (data post))
        then Inl ExecutableAccountNotRentExempt
        else if executable_changed \<and> (\<not> w \<or> executable pre \<or> program_id \<noteq> owner post)
        then Inl ExecutableModified
        else if rent_epoch_changed then Inl RentEpochModified
        else if outermost_call then
          let timings = timings\<lparr>total_account_count :=
                          saturating_add (total_account_count timings) 1\<rparr>
          in if owner_changed \<or> lamports_changed \<or> data_len_changed \<or> executable_changed \<or>
                rent_epoch_changed \<or> pre_changed self
             then Inr (timings\<lparr>changed_account_count :=
                        saturating_add (changed_account_count timings) 1\<rparr>)
             else Inr timings
        else Inr timings)"

definition update :: "PreAccount \<Rightarrow> AccountSharedData \<Rightarrow> PreAccount" where
  "update self a =
     self\<lparr>pre_account := acct_set_rent_epoch a (rent_epoch (pre_account self)), pre_changed := True\<rparr>"

section \<open>The two verifications agree\<close>

text \<open>What \<open>verify\<close> accepts, without the order of its tests.\<close>

definition change_accepted ::
    "pubkey \<Rightarrow> bool \<Rightarrow> Rent \<Rightarrow> AccountSharedData \<Rightarrow> AccountSharedData \<Rightarrow> bool" where
  "change_accepted pid w rent pre post \<longleftrightarrow>
     (owner pre \<noteq> owner post \<longrightarrow>
        w \<and> \<not> executable pre \<and> pid = owner pre \<and> is_zeroed (data post)) \<and>
     (lamports post < lamports pre \<longrightarrow> pid = owner pre) \<and>
     (lamports pre \<noteq> lamports post \<longrightarrow> w \<and> \<not> executable pre) \<and>
     length (data post) \<le> unat MAX_PERMITTED_DATA_LENGTH \<and>
     (data pre \<noteq> data post \<longrightarrow> w \<and> \<not> executable pre \<and> pid = owner pre) \<and>
     (executable pre \<noteq> executable post \<longrightarrow>
        w \<and> \<not> executable pre \<and> pid = owner post \<and>
        is_exempt rent (lamports post) (length (data post))) \<and>
     rent_epoch pre = rent_epoch post"


lemma is_ok_verify:
  "is_ok (verify self pid w rent post timings outer)
     \<longleftrightarrow> change_accepted pid w rent (pre_account self) post"
proof -
  have ok: "is_ok (if b then Inl e else r) \<longleftrightarrow> \<not> b \<and> is_ok r"
    for b e and r :: "InstructionError + ExecuteDetailsTimings"
    by simp
  have fin: "is_ok (if b then if c then Inr x else Inr y else Inr z) = True" for b c x y z
    by simp
  have len: "length (data (pre_account self)) \<noteq> length (data post) \<Longrightarrow> data (pre_account self) \<noteq> data post"
    by auto
  have less: "lamports post < lamports (pre_account self) \<Longrightarrow> lamports (pre_account self) \<noteq> lamports post"
    by simp
  show ?thesis
    unfolding verify_def change_accepted_def Let_def ok fin not_less [symmetric]
    using len less by blast
qed

lemma account_step_accepted:
  assumes "account_step (Some pid) w rent a b" and "change_accepted pid w rent pre a"
  shows "change_accepted pid w rent pre b"
  using assms(1)
proof (cases rule: account_step.cases)
  case (step_owner k)
  have "owner b = k" "data b = data a" "lamports b = lamports a" "executable b = executable a" "rent_epoch b = rent_epoch a"
    by (simp_all add: step_owner)
  with step_owner assms(2) show ?thesis unfolding change_accepted_def by (metis option.inject)
next
  case (step_lamports l)
  have "owner b = owner a" "data b = data a" "lamports b = l" "executable b = executable a" "rent_epoch b = rent_epoch a"
    by (simp_all add: step_lamports)
  with step_lamports assms(2) show ?thesis unfolding change_accepted_def 
   by (metis option.inject le_less_trans)
next
  case (step_data d)
  have "owner b = owner a" "data b = d" "lamports b = lamports a" "executable b = executable a" "rent_epoch b = rent_epoch a"
    by (simp_all add: step_data)
  with step_data assms(2) show ?thesis unfolding change_accepted_def by (metis option.inject)
next
  case step_executable
  have "owner b = owner a" "data b = data a" "lamports b = lamports a" "executable b" "rent_epoch b = rent_epoch a"
    by (simp_all add: step_executable)
  with step_executable assms(2) show ?thesis unfolding change_accepted_def by (metis option.inject)
qed

text \<open>One write of the program to the borrowed account, through any of the operations.\<close>

inductive write_step ::
    "'s bincode \<Rightarrow> BorrowedAccount \<Rightarrow> TransactionContext \<Rightarrow> TransactionContext \<Rightarrow> bool"
  for bc ba where
  "set_owner ba k tc = Inr tc' \<Longrightarrow> write_step bc ba tc tc'"
| "set_lamports ba l tc = Inr tc' \<Longrightarrow> write_step bc ba tc tc'"
| "checked_add_lamports ba l tc = Inr tc' \<Longrightarrow> write_step bc ba tc tc'"
| "checked_sub_lamports ba l tc = Inr tc' \<Longrightarrow> write_step bc ba tc tc'"
| "set_data ba d tc = Inr tc' \<Longrightarrow> write_step bc ba tc tc'"
| "set_data_from_slice ba d tc = Inr tc' \<Longrightarrow> write_step bc ba tc tc'"
| "set_data_length ba n tc = Inr tc' \<Longrightarrow> write_step bc ba tc tc'"
| "extend_from_slice ba d tc = Inr tc' \<Longrightarrow> write_step bc ba tc tc'"
| "set_state bc ba st tc = Inr tc' \<Longrightarrow> write_step bc ba tc tc'"
| "set_executable ba b tc = Inr tc' \<Longrightarrow> write_step bc ba tc tc'"

lemma write_step_allowed: "write_step bc ba tc tc' \<Longrightarrow> allowed_write ba tc tc'"
  by (induction rule: write_step.induct)
     (rule owner_write.writes lamports_write.writes add_lamports_write.writes
       sub_lamports_write.writes data_write.writes slice_write.writes length_write.writes
       extend_write.writes state_write.writes executable_write.writes, assumption)+

lemma allowed_write_in_range: "allowed_write ba tc tc' \<Longrightarrow> in_range ba tc \<Longrightarrow> in_range ba tc'"
  by (auto simp: allowed_write_def in_range_def rewritten_frame)

lemma allowed_write_frame:
  assumes "allowed_write ba tc tc'"
  shows "tc_rent tc' = tc_rent tc" "account_keys tc' = account_keys tc"
    "length (account_touched_flags tc') = length (account_touched_flags tc)"
    "length (accounts tc') = length (accounts tc)"
    "is_cap_accounts_data_allocations_per_transaction_enabled tc'
       = is_cap_accounts_data_allocations_per_transaction_enabled tc"
    "current_program ba tc' = current_program ba tc"
  using assms by (auto simp: allowed_write_def rewritten_frame intro: current_program_cong)

lemma write_steps_accepted:
  assumes "(write_step bc ba)\<^sup>*\<^sup>* tc tc'" and "in_range ba tc" and "tc_rent tc = Some rent"
    and "current_program ba tc = Some pid"
    and "length (data (ba_account ba tc)) \<le> unat MAX_PERMITTED_DATA_LENGTH"
  shows "in_range ba tc' \<and> tc_rent tc' = Some rent \<and> current_program ba tc' = Some pid \<and>
    change_accepted pid (is_writable ba) rent (ba_account ba tc) (ba_account ba tc')"
  using assms(1)
proof (induction rule: rtranclp_induct)
  case base
  then show ?case using assms by (simp add: change_accepted_def)
next
  case (step tc1 tc2)
  from step.hyps(2) have aw: "allowed_write ba tc1 tc2" by (rule write_step_allowed)
  then obtain a where a: "rewritten ba a tc1 tc2"
    and "(account_step (Some pid) (is_writable ba) rent)\<^sup>=\<^sup>= (ba_account ba tc1) a"
    using step.IH by (auto simp: allowed_write_def)
  then have "change_accepted pid (is_writable ba) rent (ba_account ba tc) (ba_account ba tc2)"
    using step.IH account_step_accepted rewritten_account [OF a] by auto
  then show ?case
    using step.IH allowed_write_frame [OF aw] allowed_write_in_range [OF aw] by simp
qed

text \<open>
  C2: Early verification implies late verification.  Whatever sequence of successful writes a
  program makes to an account it has borrowed while early verification is on,
  \<open>PreAccount::verify\<close> accepts the result as a change to the account as it was, for the
  program that runs and the account's writability in that instruction.
\<close>

theorem guarded_writes_pass_verify:
  assumes "in_range ba tc" and "tc_rent tc = Some rent"
    and "get_last_program_key (ba_instruction_context ba) tc = Inr pid"
    and "length (data (ba_account ba tc)) \<le> unat MAX_PERMITTED_DATA_LENGTH"
    and "(write_step bc ba)\<^sup>*\<^sup>* tc tc'"
  shows "is_ok (verify (PreAccount_new key (ba_account ba tc)) pid (is_writable ba) rent
                  (ba_account ba tc') timings outermost_call)"
proof -
  have "current_program ba tc = Some pid"
    using assms(3) by (simp add: current_program_def)
  then show ?thesis
    using write_steps_accepted [OF assms(5,1,2) _ assms(4)]
    by (simp add: is_ok_verify PreAccount_new_def)
qed

definition sample_ba :: BorrowedAccount where
  "sample_ba =
     \<lparr>ba_instruction_context = last (instruction_trace sample_tc),
      ba_index_in_transaction = 1, ba_index_in_instruction = 1\<rparr>"

definition sample_timings :: ExecuteDetailsTimings where
  "sample_timings = \<lparr>total_account_count = 0, changed_account_count = 0\<rparr>"

definition byte_codec :: "u8 bincode" where
  "byte_codec = \<lparr>bc_serialize = (\<lambda>b. Some [b]), bc_deserialize = (\<lambda>d. get d 0)\<rparr>"

lemmas [exec] = sample_ba_def sample_timings_def

theorem guarded_writes_pass_verify_witness:
  "\<exists>tc'. set_owner sample_ba 5 sample_tc = Inr tc' \<and> owner (ba_account sample_ba tc') = 5 \<and>
     is_ok (verify (PreAccount_new 8 (ba_account sample_ba sample_tc)) 7 (is_writable sample_ba)
              Rent_default (ba_account sample_ba tc') sample_timings True)"
proof -
  have w: "\<exists>tc'. set_owner sample_ba 5 sample_tc = Inr tc' \<and> owner (ba_account sample_ba tc') = 5"
    by (simp add: exec)
  then obtain tc' where tc': "set_owner sample_ba 5 sample_tc = Inr tc'"
    "owner (ba_account sample_ba tc') = 5" by blast
  then have "(write_step byte_codec sample_ba)\<^sup>*\<^sup>* sample_tc tc'"
    by (blast intro: write_step.intros(1))
  moreover have "in_range sample_ba sample_tc" "tc_rent sample_tc = Some Rent_default"
    "get_last_program_key (ba_instruction_context sample_ba) sample_tc = Inr 7"
    "length (data (ba_account sample_ba sample_tc)) \<le> unat MAX_PERMITTED_DATA_LENGTH"
    by (simp_all add: in_range_def exec)
  ultimately have "is_ok (verify (PreAccount_new 8 (ba_account sample_ba sample_tc)) 7
      (is_writable sample_ba) Rent_default (ba_account sample_ba tc') sample_timings True)"
    by (intro guarded_writes_pass_verify)
  with tc' show ?thesis by blast
qed


lemma in_range_frame [simp]:
  "in_range ba (tc\<lparr>account_touched_flags := fl\<rparr>) = in_range ba tc"
  "in_range ba (tc\<lparr>accounts_resize_delta := dl\<rparr>) = in_range ba tc"
  by (simp_all add: in_range_def)











end
