(* ===== verification/BuiltinProgram.thy ===== *)
theory BuiltinProgram
  imports PreAccount
begin

text \<open>
  What every builtin program does to the transaction: it borrows accounts of its instruction,
  writes them through the guarded operations and lets the borrows end.  \<open>program_step\<close> is one
  such action; the lemmas on its closure hold for every program, whatever it computes.  The
  interface \<open>builtin_program\<close> is what the runtime relies on when it runs a program.
\<close>

section \<open>The scope of a borrow\<close>

text \<open>
  A block that borrows an instruction account, works on it and drops it at its end.
\<close>

definition with_instruction_account ::
    "InstructionContext \<Rightarrow> TransactionContext \<Rightarrow> IndexOfAccount
       \<Rightarrow> (BorrowedAccount \<Rightarrow> TransactionContext \<Rightarrow> InstructionError + TransactionContext)
       \<Rightarrow> InstructionError + TransactionContext" where
  "with_instruction_account ic tc i body =
     and_then (try_borrow_instruction_account ic tc i) (\<lambda>(ba, tc).
     and_then (body ba tc) (\<lambda>tc. Inr (drop_account ba tc)))"

text \<open>The key of an instruction account, as the programs look it up.\<close>

definition instruction_account_key ::
    "InstructionContext \<Rightarrow> TransactionContext \<Rightarrow> IndexOfAccount \<Rightarrow> InstructionError + pubkey" where
  "instruction_account_key ic tc i =
     and_then (get_index_of_instruction_account_in_transaction ic i)
       (\<lambda>j. get_key_of_account_at_index tc j)"

lemmas [exec] = with_instruction_account_def instruction_account_key_def

section \<open>Account values\<close>

definition account_values :: "TransactionContext \<Rightarrow> AccountSharedData list" where
  "account_values tc = map cell_value (accounts tc)"

definition total_lamports :: "TransactionContext \<Rightarrow> nat" where
  "total_lamports tc = (\<Sum>a \<leftarrow> account_values tc. unat (lamports a))"

text \<open>What no program step changes.\<close>

definition same_frame :: "TransactionContext \<Rightarrow> TransactionContext \<Rightarrow> bool" where
  "same_frame tc tc' \<longleftrightarrow>
     account_keys tc' = account_keys tc \<and> length (accounts tc') = length (accounts tc) \<and>
     length (account_touched_flags tc') = length (account_touched_flags tc) \<and>
     instruction_stack tc' = instruction_stack tc \<and> instruction_trace tc' = instruction_trace tc \<and>
     instruction_stack_capacity tc' = instruction_stack_capacity tc \<and>
     instruction_trace_capacity tc' = instruction_trace_capacity tc \<and>
     return_data tc' = return_data tc \<and> tc_rent tc' = tc_rent tc \<and>
     is_cap_accounts_data_allocations_per_transaction_enabled tc'
       = is_cap_accounts_data_allocations_per_transaction_enabled tc"

lemma same_frame_refl [simp]: "same_frame tc tc"
  by (simp add: same_frame_def)

lemma same_frame_trans: "same_frame a b \<Longrightarrow> same_frame b c \<Longrightarrow> same_frame a c"
  by (simp add: same_frame_def)

lemma same_frame_stack_wf: "same_frame tc tc' \<Longrightarrow> stack_wf tc \<Longrightarrow> stack_wf tc'"
  by (simp add: same_frame_def stack_wf_def get_instruction_trace_length_def)

lemma same_frame_current:
  "same_frame tc tc' \<Longrightarrow> get_current_instruction_context tc' = get_current_instruction_context tc"
  by (simp add: same_frame_def get_current_instruction_context_def
      get_instruction_context_stack_height_def get_instruction_context_at_nesting_level_def
      get_instruction_context_at_index_in_trace_def)

lemma length_account_values [simp]: "length (account_values tc) = length (accounts tc)"
  by (simp add: account_values_def)

lemma account_values_set_cell:
  "account_values (set_cell ba c tc)
     = (account_values tc)[unat (ba_index_in_transaction ba) := cell_value c]"
  by (simp add: account_values_def set_cell_def map_update)

lemma account_values_nth:
  "i < length (accounts tc) \<Longrightarrow> account_values tc ! i = cell_value (accounts tc ! i)"
  by (simp add: account_values_def)

lemma account_values_drop [simp]: "account_values (drop_account ba tc) = account_values tc"
  by (simp add: drop_account_def account_values_set_cell ba_cell_def account_values_nth list_update_same_conv)
     (metis account_values_nth length_account_values list_update_beyond list_update_id not_less)

lemma rewritten_values:
  "rewritten ba a tc tc' \<Longrightarrow>
     account_values tc' = (account_values tc)[unat (ba_index_in_transaction ba) := a]"
  by (auto simp: rewritten_def store_account_def account_values_def set_cell_def map_update)

lemma ba_account_values:
  "in_range ba tc \<Longrightarrow> account_values tc ! unat (ba_index_in_transaction ba) = ba_account ba tc"
  by (simp add: in_range_def account_values_nth ba_account_def ba_cell_def)

lemma rewritten_same_frame: "rewritten ba a tc tc' \<Longrightarrow> same_frame tc tc'"
  by (simp add: same_frame_def rewritten_frame)

lemma allowed_write_same_frame: "allowed_write ba tc tc' \<Longrightarrow> same_frame tc tc'"
  by (auto simp: allowed_write_def intro: rewritten_same_frame)

lemma set_cell_same_frame: "same_frame tc (set_cell ba c tc)"
  by (simp add: same_frame_def set_cell_def)

lemma rewritten_total:
  assumes "rewritten ba a tc tc'" and "in_range ba tc"
  shows "total_lamports tc' + unat (lamports (ba_account ba tc)) = total_lamports tc + unat (lamports a)"
  using sum_list_update_nat [of "unat (ba_index_in_transaction ba)" "account_values tc"
      "\<lambda>a. unat (lamports a)" a] assms(2)
  by (simp add: total_lamports_def rewritten_values [OF assms(1)] ba_account_values [OF assms(2)])
     (simp add: in_range_def)

context lamport_free_write
begin

lemma total:
  assumes "op ba x tc = Inr tc'" and "in_range ba tc"
  shows "total_lamports tc' = total_lamports tc"
  using lamports_kept [OF assms(1)] rewritten_total [OF _ assms(2)] by fastforce

end

lemma checked_sub_lamports_Inr:
  assumes "checked_sub_lamports ba l tc = Inr tc'"
  obtains r where "unat r + unat l = unat (lamports (ba_account ba tc))"
    and "rewritten ba ((ba_account ba tc)\<lparr>lamports := r\<rparr>) tc tc'"
  using assms checked_sub_Some set_lamports_effect
  by (fastforce simp: checked_sub_lamports_def result_simps get_lamports_def)

lemma checked_add_lamports_Inr:
  assumes "checked_add_lamports ba l tc = Inr tc'"
  obtains r where "unat r = unat (lamports (ba_account ba tc)) + unat l"
    and "rewritten ba ((ba_account ba tc)\<lparr>lamports := r\<rparr>) tc tc'"
  using assms checked_add_Some set_lamports_effect
  by (fastforce simp: checked_add_lamports_def result_simps get_lamports_def)

lemma checked_sub_lamports_total:
  assumes "checked_sub_lamports ba l tc = Inr tc'" and "in_range ba tc"
  shows "total_lamports tc' + unat l = total_lamports tc"
  using assms(1)
proof (rule checked_sub_lamports_Inr)
  fix r assume "unat r + unat l = unat (lamports (ba_account ba tc))"
    and "rewritten ba ((ba_account ba tc)\<lparr>lamports := r\<rparr>) tc tc'"
  then show ?thesis using rewritten_total [OF _ assms(2)] by fastforce
qed

lemma checked_add_lamports_total:
  assumes "checked_add_lamports ba l tc = Inr tc'" and "in_range ba tc"
  shows "total_lamports tc' = total_lamports tc + unat l"
  using assms(1)
proof (rule checked_add_lamports_Inr)
  fix r assume "unat r = unat (lamports (ba_account ba tc)) + unat l"
    and "rewritten ba ((ba_account ba tc)\<lparr>lamports := r\<rparr>) tc tc'"
  then show ?thesis using rewritten_total [OF _ assms(2)] by fastforce
qed

section \<open>Steps of a program\<close>

text \<open>A borrowed account that \<open>try_borrow_instruction_account\<close> hands out for an instruction.\<close>

definition instruction_ba :: "InstructionContext \<Rightarrow> BorrowedAccount \<Rightarrow> bool" where
  "instruction_ba ic ba \<longleftrightarrow>
     ba_instruction_context ba = ic \<and>
     (\<exists>i ia. get (instruction_accounts ic) (unat i) = Some ia \<and>
        ba_index_in_transaction ba = ia_index_in_transaction ia \<and>
        ba_index_in_instruction ba = saturating_add (get_number_of_program_accounts ic) i)"

inductive program_step :: "InstructionContext \<Rightarrow> TransactionContext \<Rightarrow> TransactionContext \<Rightarrow> bool"
  for ic where
  step_borrow: "try_borrow_instruction_account ic tc i = Inr (ba, tc') \<Longrightarrow> program_step ic tc tc'"
| step_write: "\<lbrakk>instruction_ba ic ba; in_range ba tc; allowed_write ba tc tc'\<rbrakk> \<Longrightarrow> program_step ic tc tc'"
| step_drop: "instruction_ba ic ba \<Longrightarrow> program_step ic tc (drop_account ba tc)"

lemma try_borrow_instruction_account_Inr:
  assumes "try_borrow_instruction_account ic tc i = Inr (ba, tc')"
  shows "instruction_ba ic ba" and "in_range ba tc" and "\<not> cell_borrowed (ba_cell ba tc)"
    and "tc' = set_cell ba ((ba_cell ba tc)\<lparr>cell_borrowed := True\<rparr>) tc"
    and "in_range ba tc'" and "ba_account ba tc' = ba_account ba tc"
proof -
  from assms obtain ia cell where ia: "get (instruction_accounts ic) (unat i) = Some ia"
    and cell: "get (accounts tc) (unat (ia_index_in_transaction ia)) = Some cell"
    and free: "\<not> cell_borrowed cell"
    and ba: "ba = \<lparr>ba_instruction_context = ic, ba_index_in_transaction = ia_index_in_transaction ia,
       ba_index_in_instruction = saturating_add (get_number_of_program_accounts ic) i\<rparr>"
    and tc': "tc' = set_cell ba (cell\<lparr>cell_borrowed := True\<rparr>) tc"
    by (auto simp: try_borrow_instruction_account_def try_borrow_account_def ic_access_defs
        result_simps Let_def split: if_splits)
  show "instruction_ba ic ba" using ia by (auto simp: instruction_ba_def ba)
  show "in_range ba tc" using cell by (simp add: in_range_def ba result_simps)
  have eq: "ba_cell ba tc = cell" using cell by (simp add: ba_cell_def ba result_simps)
  then show "\<not> cell_borrowed (ba_cell ba tc)"
    and "tc' = set_cell ba ((ba_cell ba tc)\<lparr>cell_borrowed := True\<rparr>) tc"
    using free tc' by simp_all
  show "in_range ba tc'" "ba_account ba tc' = ba_account ba tc"
    using \<open>in_range ba tc\<close> eq by (simp_all add: tc' in_range_def ba_account_def ba_cell_def set_cell_def)
qed

lemma try_borrow_values:
  assumes "try_borrow_instruction_account ic tc i = Inr (ba, tc')"
  shows "account_values tc' = account_values tc"
  using try_borrow_instruction_account_Inr [OF assms]
  by (simp add: account_values_set_cell ba_account_values [symmetric] ba_account_def [symmetric])

lemma program_step_frame: "program_step ic tc tc' \<Longrightarrow> same_frame tc tc'"
  by (induction rule: program_step.induct)
     (auto simp: drop_account_def set_cell_same_frame dest: try_borrow_instruction_account_Inr(4)
       intro: allowed_write_same_frame)

lemma program_steps_frame: "(program_step ic)\<^sup>*\<^sup>* tc tc' \<Longrightarrow> same_frame tc tc'"
  by (induction rule: rtranclp_induct) (auto intro: same_frame_trans program_step_frame)

text \<open>Whether the instruction may write the account at an index of the transaction.\<close>

definition writable_at :: "InstructionContext \<Rightarrow> nat \<Rightarrow> bool" where
  "writable_at ic j \<longleftrightarrow>
     (\<exists>ia \<in> set (instruction_accounts ic). unat (ia_index_in_transaction ia) = j \<and> ia_is_writable ia)"

definition accounts_fit :: "InstructionContext \<Rightarrow> bool" where
  "accounts_fit ic \<longleftrightarrow> length (program_accounts ic) + length (instruction_accounts ic) < 2 ^ 16"

lemma is_writable_at:
  assumes "instruction_ba ic ba" and "accounts_fit ic" and "is_writable ba"
  shows "writable_at ic (unat (ba_index_in_transaction ba))"
proof -
  from assms(1) obtain i ia where ia: "get (instruction_accounts ic) (unat i) = Some ia"
    and idx: "ba_index_in_transaction ba = ia_index_in_transaction ia"
    and ii: "ba_index_in_instruction ba = saturating_add (get_number_of_program_accounts ic) i"
    and ic: "ba_instruction_context ba = ic"
    by (auto simp: instruction_ba_def)
  have n: "unat (get_number_of_program_accounts ic) = length (program_accounts ic)"
    using assms(2) by (simp add: get_number_of_program_accounts_def accounts_fit_def unat_of_nat)
  have "unat (saturating_sub (ba_index_in_instruction ba) (get_number_of_program_accounts ic)) = unat i"
    using ia assms(2) n
    by (simp add: ii unat_saturating_sub unat_saturating_add accounts_fit_def get_eq_Some_iff)
  then have "is_instruction_account_writable ic
      (saturating_sub (ba_index_in_instruction ba) (get_number_of_program_accounts ic)) = Inr (ia_is_writable ia)"
    using ia by (simp add: is_instruction_account_writable_def)
  then have "ia_is_writable ia"
    using assms(3) by (auto simp: is_writable_def ic unwrap_or_false_def Let_def split: if_splits)
  then show ?thesis
    using ia idx by (auto simp: writable_at_def get_eq_Some_iff intro!: bexI [of _ ia])
qed

lemma account_step_weaken: "account_step pid w rent a b \<Longrightarrow> (w \<Longrightarrow> w') \<Longrightarrow> account_step pid w' rent a b"
  by (induction rule: account_step.induct) (auto intro: account_step.intros)

definition current_program_of :: "InstructionContext \<Rightarrow> TransactionContext \<Rightarrow> pubkey option" where
  "current_program_of ic tc = (case get_last_program_key ic tc of Inl _ \<Rightarrow> None | Inr k \<Rightarrow> Some k)"

lemma program_step_values:
  assumes "program_step ic tc tc'" and "accounts_fit ic" and "tc_rent tc = Some rent"
    and "j < length (accounts tc)"
  shows "(account_step (current_program_of ic tc) (writable_at ic j) rent)\<^sup>=\<^sup>=
           (account_values tc ! j) (account_values tc' ! j)"
  using assms(1)
proof (cases rule: program_step.cases)
  case (step_borrow i ba)
  then show ?thesis by (simp add: try_borrow_values)
next
  case (step_drop ba)
  then show ?thesis by simp
next
  case (step_write ba)
  let ?i = "unat (ba_index_in_transaction ba)"
  from step_write obtain a where r: "rewritten ba a tc tc'"
    and st: "(account_step (current_program ba tc) (is_writable ba) rent)\<^sup>=\<^sup>= (ba_account ba tc) a"
    using assms(3) by (auto simp: allowed_write_def)
  have pid: "current_program ba tc = current_program_of ic tc"
    using step_write(1) by (simp add: current_program_def current_program_of_def instruction_ba_def)
  show ?thesis
  proof (cases "j = ?i")
    case True
    then have "account_values tc ! j = ba_account ba tc" "account_values tc' ! j = a"
      using step_write(2) r by (auto simp: ba_account_values rewritten_values in_range_def)
    then show ?thesis
      using st pid is_writable_at [OF step_write(1) assms(2)] True
      by (auto intro: account_step_weaken)
  next
    case False
    then show ?thesis using r by (simp add: rewritten_values)
  qed
qed

lemma current_program_of_frame: "same_frame tc tc' \<Longrightarrow> current_program_of ic tc' = current_program_of ic tc"
  by (simp add: current_program_of_def same_frame_def get_last_program_key_cong [of tc' tc])

lemma program_steps_values:
  assumes "(program_step ic)\<^sup>*\<^sup>* tc tc'" and "accounts_fit ic" and "tc_rent tc = Some rent"
    and "j < length (accounts tc)"
  shows "(account_step (current_program_of ic tc) (writable_at ic j) rent)\<^sup>*\<^sup>*
           (account_values tc ! j) (account_values tc' ! j)"
  using assms(1)
proof (induction rule: rtranclp_induct)
  case (step tc1 tc2)
  have fr: "same_frame tc tc1" using step.hyps(1) by (rule program_steps_frame)
  then have "(account_step (current_program_of ic tc) (writable_at ic j) rent)\<^sup>=\<^sup>=
      (account_values tc1 ! j) (account_values tc2 ! j)"
    using program_step_values [OF step.hyps(2) assms(2), of rent j] assms(3,4)
      current_program_of_frame [OF fr] by (simp add: same_frame_def)
  with step.IH show ?case by (auto intro: rtranclp.rtrancl_into_rtrancl)
qed simp

section \<open>Runs\<close>

definition borrow_flags :: "TransactionContext \<Rightarrow> bool list" where
  "borrow_flags tc = map cell_borrowed (accounts tc)"

lemma no_borrows_flags: "no_borrows tc \<longleftrightarrow> True \<notin> set (borrow_flags tc)"
  by (auto simp: no_borrows_def borrow_flags_def image_iff)

text \<open>A part of a program that leaves the borrows as it found them.\<close>

definition program_run :: "InstructionContext \<Rightarrow> TransactionContext \<Rightarrow> TransactionContext \<Rightarrow> bool" where
  "program_run ic tc tc' \<longleftrightarrow> (program_step ic)\<^sup>*\<^sup>* tc tc' \<and> borrow_flags tc' = borrow_flags tc"

lemma program_run_refl [simp]: "program_run ic tc tc"
  by (simp add: program_run_def)

lemma program_run_trans: "program_run ic a b \<Longrightarrow> program_run ic b c \<Longrightarrow> program_run ic a c"
  by (auto simp: program_run_def)

lemma program_run_frame: "program_run ic tc tc' \<Longrightarrow> same_frame tc tc'"
  by (auto simp: program_run_def dest: program_steps_frame)

lemma program_run_in_range: "program_run ic tc tc' \<Longrightarrow> in_range ba tc \<Longrightarrow> in_range ba tc'"
  by (auto simp: in_range_def same_frame_def dest!: program_run_frame)

lemma allowed_write_flags: "allowed_write ba tc tc' \<Longrightarrow> borrow_flags tc' = borrow_flags tc"
  by (auto simp: allowed_write_def borrow_flags_def list_eq_iff_nth_eq rewritten_frame rewritten_borrowed)

lemma borrow_flags_set_cell:
  "borrow_flags (set_cell ba c tc)
     = (borrow_flags tc)[unat (ba_index_in_transaction ba) := cell_borrowed c]"
  by (simp add: borrow_flags_def set_cell_def map_update)

lemma allowed_write_run:
  "instruction_ba ic ba \<Longrightarrow> in_range ba tc \<Longrightarrow> allowed_write ba tc tc' \<Longrightarrow> program_run ic tc tc'"
  by (auto simp: program_run_def allowed_write_flags intro: step_write)

context guarded_write
begin

lemma run:
  "op ba x tc = Inr tc' \<Longrightarrow> instruction_ba ic ba \<Longrightarrow> in_range ba tc \<Longrightarrow> program_run ic tc tc'"
  by (rule allowed_write_run [OF _ _ writes])

end

lemma with_account_run:
  assumes "with_instruction_account ic tc i body = Inr tc'"
    and "\<And>ba tc1 tc2. instruction_ba ic ba \<Longrightarrow> in_range ba tc1 \<Longrightarrow> body ba tc1 = Inr tc2 \<Longrightarrow>
           program_run ic tc1 tc2"
  shows "program_run ic tc tc'"
proof -
  from assms(1) obtain ba tc1 tc2 where b: "try_borrow_instruction_account ic tc i = Inr (ba, tc1)"
    and body: "body ba tc1 = Inr tc2" and tc': "tc' = drop_account ba tc2"
    by (auto simp: with_instruction_account_def result_simps)
  note bi = try_borrow_instruction_account_Inr [OF b]
  have run: "program_run ic tc1 tc2" using assms(2) [OF bi(1,5) body] .
  have "(program_step ic)\<^sup>*\<^sup>* tc tc'"
    using run step_borrow [OF b] step_drop [OF bi(1), of tc2]
    by (auto simp: program_run_def tc' intro: converse_rtranclp_into_rtranclp rtranclp.rtrancl_into_rtrancl)
  moreover have "borrow_flags tc' = borrow_flags tc"
  proof -
    let ?i = "unat (ba_index_in_transaction ba)"
    have "borrow_flags tc ! ?i = False" "?i < length (borrow_flags tc)"
      using bi(2,3) by (simp_all add: borrow_flags_def ba_cell_def in_range_def)
    then show ?thesis
      using run by (simp add: program_run_def tc' drop_account_def borrow_flags_set_cell bi(4))
        (metis list_update_id)
  qed
  ultimately show ?thesis by (simp add: program_run_def)
qed

text \<open>What such a block does to the values and the lamports, read off its body.\<close>

lemma with_account_Inr:
  assumes "with_instruction_account ic tc i body = Inr tc'"
  obtains ba tc1 tc2 ia where
    "get (instruction_accounts ic) (unat i) = Some ia"
    "ba_index_in_transaction ba = ia_index_in_transaction ia"
    "instruction_ba ic ba" "in_range ba tc" "in_range ba tc1"
    "account_values tc1 = account_values tc" "ba_account ba tc1 = ba_account ba tc"
    "same_frame tc tc1"
    "body ba tc1 = Inr tc2" "account_values tc' = account_values tc2"
proof -
  from assms obtain ba tc1 tc2 where b: "try_borrow_instruction_account ic tc i = Inr (ba, tc1)"
    and body: "body ba tc1 = Inr tc2" and tc': "tc' = drop_account ba tc2"
    by (auto simp: with_instruction_account_def result_simps)
  from b obtain ia where ia: "get (instruction_accounts ic) (unat i) = Some ia"
    "ba_index_in_transaction ba = ia_index_in_transaction ia"
    by (auto simp: try_borrow_instruction_account_def try_borrow_account_def ic_access_defs
        result_simps Let_def split: if_splits)
  show ?thesis
    using that [OF ia] try_borrow_instruction_account_Inr [OF b] try_borrow_values [OF b] body tc'
      program_step_frame [OF step_borrow [OF b]] by simp
qed

lemma with_account_total:
  assumes "with_instruction_account ic tc i body = Inr tc'"
    and "\<And>ba tc1 tc2. instruction_ba ic ba \<Longrightarrow> in_range ba tc1 \<Longrightarrow> body ba tc1 = Inr tc2 \<Longrightarrow>
           total_lamports tc2 + d = total_lamports tc1 + e"
  shows "total_lamports tc' + d = total_lamports tc + e"
  using assms(1)
proof (rule with_account_Inr)
  fix ba tc1 tc2
  assume "instruction_ba ic ba" "in_range ba tc1" "account_values tc1 = account_values tc" "body ba tc1 = Inr tc2"
    "account_values tc' = account_values tc2"
  then show ?thesis
    using assms(2) [of ba tc1 tc2] by (simp add: total_lamports_def)
qed

text \<open>Runs that also keep the lamports, and how they compose.\<close>

definition neutral_run :: "InstructionContext \<Rightarrow> TransactionContext \<Rightarrow> TransactionContext \<Rightarrow> bool" where
  "neutral_run ic tc tc' \<longleftrightarrow> program_run ic tc tc' \<and> total_lamports tc' = total_lamports tc"

lemma neutral_run_refl [simp]: "neutral_run ic tc tc"
  by (simp add: neutral_run_def)

lemma neutral_run_trans: "neutral_run ic a b \<Longrightarrow> neutral_run ic b c \<Longrightarrow> neutral_run ic a c"
  by (auto simp: neutral_run_def intro: program_run_trans)

lemma neutral_run_in_range: "neutral_run ic tc tc' \<Longrightarrow> in_range ba tc \<Longrightarrow> in_range ba tc'"
  by (auto simp: neutral_run_def intro: program_run_in_range)

lemma with_account_neutral:
  assumes "with_instruction_account ic tc i body = Inr tc'"
    and "\<And>ba tc1 tc2. instruction_ba ic ba \<Longrightarrow> in_range ba tc1 \<Longrightarrow> body ba tc1 = Inr tc2 \<Longrightarrow>
           neutral_run ic tc1 tc2"
  shows "neutral_run ic tc tc'"
proof -
  have "program_run ic tc tc'"
    using assms by (auto simp: neutral_run_def intro: with_account_run)
  moreover have "total_lamports tc' + 0 = total_lamports tc + 0"
    using assms(1) by (rule with_account_total) (use assms(2) in \<open>auto simp: neutral_run_def\<close>)
  ultimately show ?thesis by (simp add: neutral_run_def)
qed

text \<open>A debit of one account followed by a credit of another.\<close>

lemma debit_credit_neutral:
  assumes debit: "with_instruction_account ic tc i body = Inr tc1"
    and credit: "with_instruction_account ic tc1 j (\<lambda>to tc. checked_add_lamports to l tc) = Inr tc'"
    and body: "\<And>ba t1 t2. instruction_ba ic ba \<Longrightarrow> in_range ba t1 \<Longrightarrow> body ba t1 = Inr t2 \<Longrightarrow>
           \<exists>t. neutral_run ic t1 t \<and> checked_sub_lamports ba l t = Inr t2"
  shows "neutral_run ic tc tc'"
proof -
  have b: "program_run ic t1 t2 \<and> total_lamports t2 + unat l = total_lamports t1 + 0"
    if ba: "instruction_ba ic ba" "in_range ba t1" "body ba t1 = Inr t2" for ba t1 t2
  proof -
    from body [OF ba] obtain t where t: "neutral_run ic t1 t" "checked_sub_lamports ba l t = Inr t2"
      by blast
    then have "in_range ba t" using ba(2) by (blast intro: neutral_run_in_range)
    then show ?thesis
      using t sub_lamports_write.run [OF t(2) ba(1)] checked_sub_lamports_total [OF t(2)]
      by (auto simp: neutral_run_def intro: program_run_trans)
  qed
  have "program_run ic tc tc1" using debit by (rule with_account_run) (use b in blast)
  moreover have "program_run ic tc1 tc'"
    using credit by (rule with_account_run) (rule add_lamports_write.run)
  moreover have "total_lamports tc1 + unat l = total_lamports tc + 0"
    using debit by (rule with_account_total) (use b in blast)
  moreover have "total_lamports tc' + 0 = total_lamports tc1 + unat l"
    using credit by (rule with_account_total) (simp add: checked_add_lamports_total)
  ultimately show ?thesis by (auto simp: neutral_run_def intro: program_run_trans)
qed

context lamport_free_write
begin

lemma neutral:
  "op ba x tc = Inr tc' \<Longrightarrow> instruction_ba ic ba \<Longrightarrow> in_range ba tc \<Longrightarrow> neutral_run ic tc tc'"
  by (simp add: neutral_run_def run total)

end

section \<open>The effect of a transfer\<close>

definition debit :: "nat \<Rightarrow> u64 \<Rightarrow> AccountSharedData list \<Rightarrow> AccountSharedData list" where
  "debit i l vs = vs[i := (vs ! i)\<lparr>lamports := lamports (vs ! i) - l\<rparr>]"

definition credit :: "nat \<Rightarrow> u64 \<Rightarrow> AccountSharedData list \<Rightarrow> AccountSharedData list" where
  "credit i l vs = vs[i := (vs ! i)\<lparr>lamports := lamports (vs ! i) + l\<rparr>]"

lemma length_debit_credit [simp]: "length (debit i l vs) = length vs" "length (credit i l vs) = length vs"
  by (simp_all add: debit_def credit_def)

lemma nth_debit_credit:
  "n < length vs \<Longrightarrow> debit i l vs ! n = (if n = i then (vs ! n)\<lparr>lamports := lamports (vs ! n) - l\<rparr> else vs ! n)"
  "n < length vs \<Longrightarrow> credit i l vs ! n = (if n = i then (vs ! n)\<lparr>lamports := lamports (vs ! n) + l\<rparr> else vs ! n)"
  by (auto simp: debit_def credit_def)

lemma checked_sub_lamports_values:
  assumes "checked_sub_lamports ba l tc = Inr tc'" and "in_range ba tc"
  shows "l \<le> lamports (ba_account ba tc)"
    and "account_values tc' = debit (unat (ba_index_in_transaction ba)) l (account_values tc)"
proof -
  from assms(1) have le: "l \<le> lamports (ba_account ba tc)"
    and s: "set_lamports ba (lamports (ba_account ba tc) - l) tc = Inr tc'"
    by (auto simp: checked_sub_lamports_def checked_sub_def get_lamports_def result_simps split: if_splits)
  show "l \<le> lamports (ba_account ba tc)" by (fact le)
  show "account_values tc' = debit (unat (ba_index_in_transaction ba)) l (account_values tc)"
    using rewritten_values [OF set_lamports_effect [OF s]]
    by (simp add: debit_def ba_account_values [OF assms(2)])
qed

lemma checked_add_lamports_values:
  assumes "checked_add_lamports ba l tc = Inr tc'" and "in_range ba tc"
  shows "unat (lamports (ba_account ba tc)) + unat l < 2 ^ 64"
    and "account_values tc' = credit (unat (ba_index_in_transaction ba)) l (account_values tc)"
proof -
  from assms(1) have lt: "unat (lamports (ba_account ba tc)) + unat l < 2 ^ 64"
    and s: "set_lamports ba (lamports (ba_account ba tc) + l) tc = Inr tc'"
    by (auto simp: checked_add_lamports_def checked_add_def get_lamports_def result_simps split: if_splits)
  show "unat (lamports (ba_account ba tc)) + unat l < 2 ^ 64" by (fact lt)
  show "account_values tc' = credit (unat (ba_index_in_transaction ba)) l (account_values tc)"
    using rewritten_values [OF set_lamports_effect [OF s]]
    by (simp add: credit_def ba_account_values [OF assms(2)])
qed

lemma credit_block:
  assumes "with_instruction_account ic tc j (\<lambda>to tc. checked_add_lamports to l tc) = Inr tc'"
    and "get (instruction_accounts ic) (unat j) = Some t"
  defines "ti \<equiv> unat (ia_index_in_transaction t)"
  shows "ti < length (accounts tc)"
    and "unat (lamports (account_values tc ! ti)) + unat l < 2 ^ 64"
    and "account_values tc' = credit ti l (account_values tc)"
  using assms(1)
proof (atomize (full), elim with_account_Inr)
  fix ba tc1 tc2 ia
  assume *: "get (instruction_accounts ic) (unat j) = Some ia"
    "ba_index_in_transaction ba = ia_index_in_transaction ia" "in_range ba tc" "in_range ba tc1"
    "account_values tc1 = account_values tc" "ba_account ba tc1 = ba_account ba tc"
    "checked_add_lamports ba l tc1 = Inr tc2" "account_values tc' = account_values tc2"
  then have ti: "unat (ba_index_in_transaction ba) = ti" using assms(2) by (simp add: ti_def)
  show "ti < length (accounts tc) \<and> unat (lamports (account_values tc ! ti)) + unat l < 2 ^ 64 \<and>
      account_values tc' = credit ti l (account_values tc)"
    using checked_add_lamports_values [OF *(7,4)] ba_account_values [OF *(3)] *(3,5,6,8)
    by (simp add: ti in_range_def)
qed

section \<open>Debits\<close>

text \<open>A state that is saved is read back, and nothing else of the accounts changes.\<close>

lemma set_state_reads_back:
  assumes "set_state bc ba st tc = Inr tc'" and "bincode_law bc st" and "in_range ba tc"
  defines "j \<equiv> unat (ba_index_in_transaction ba)"
  shows "bc_deserialize bc (data (account_values tc' ! j)) = Some st"
    and "lamports (account_values tc' ! j) = lamports (account_values tc ! j)"
    and "owner (account_values tc' ! j) = owner (account_values tc ! j)"
    and "k \<noteq> j \<Longrightarrow> account_values tc' ! k = account_values tc ! k"
proof -
  from assms(1) obtain bs where bs: "bc_serialize bc st = Some bs"
    and r: "rewritten ba ((ba_account ba tc)\<lparr>data := overwrite_front (data (ba_account ba tc)) bs\<rparr>) tc tc'"
    by (rule set_state_Inr)
  have j: "j < length (account_values tc)" using assms(3) by (simp add: in_range_def j_def)
  note v = rewritten_values [OF r, folded j_def]
  show "bc_deserialize bc (data (account_values tc' ! j)) = Some st"
    using j by (simp add: v bincode_law_overwrite [OF assms(2) bs])
  show "lamports (account_values tc' ! j) = lamports (account_values tc ! j)"
    "owner (account_values tc' ! j) = owner (account_values tc ! j)"
    using j ba_account_values [OF assms(3)] by (simp_all add: v j_def)
  show "k \<noteq> j \<Longrightarrow> account_values tc' ! k = account_values tc ! k" by (simp add: v)
qed

text \<open>Every account whose lamports decrease satisfies \<open>D\<close>.\<close>

definition debits :: "(nat \<Rightarrow> bool) \<Rightarrow> TransactionContext \<Rightarrow> TransactionContext \<Rightarrow> bool" where
  "debits D tc tc' \<longleftrightarrow>
     length (accounts tc') = length (accounts tc) \<and>
     (\<forall>j < length (accounts tc).
        lamports (account_values tc' ! j) < lamports (account_values tc ! j) \<longrightarrow> D j)"

lemma debits_refl [simp]: "debits D tc tc"
  by (simp add: debits_def)

lemma debits_trans: "debits D a b \<Longrightarrow> debits D b c \<Longrightarrow> debits D a c"
proof -
  assume ab: "debits D a b" and bc: "debits D b c"
  have "D j" if "j < length (accounts a)" "lamports (account_values c ! j) < lamports (account_values a ! j)" for j
  proof (cases "lamports (account_values b ! j) < lamports (account_values a ! j)")
    case True
    then show ?thesis using ab that(1) by (simp add: debits_def)
  next
    case False
    then have "lamports (account_values c ! j) < lamports (account_values b ! j)"
      using that(2) by (simp add: not_less)
    then show ?thesis using ab bc that(1) by (simp add: debits_def)
  qed
  then show ?thesis using ab bc by (simp add: debits_def)
qed

lemma debits_mono: "debits D tc tc' \<Longrightarrow> (\<And>j. D j \<Longrightarrow> E j) \<Longrightarrow> debits E tc tc'"
  by (auto simp: debits_def)

lemma rewritten_debits:
  assumes "rewritten ba a tc tc'"
    and "lamports a < lamports (ba_account ba tc) \<Longrightarrow> D (unat (ba_index_in_transaction ba))"
  shows "debits D tc tc'"
proof -
  have "D j" if "j < length (accounts tc)" "lamports (account_values tc' ! j) < lamports (account_values tc ! j)" for j
  proof (cases "j = unat (ba_index_in_transaction ba)")
    case True
    with that assms show ?thesis
      by (simp add: rewritten_values ba_account_values [symmetric] in_range_def)
  next
    case False
    with that assms(1) show ?thesis by (simp add: rewritten_values)
  qed
  then show ?thesis by (simp add: debits_def rewritten_frame(2) [OF assms(1)])
qed

context lamport_free_write
begin

lemma no_debit: "op ba x tc = Inr tc' \<Longrightarrow> debits D tc tc'"
  by (drule lamports_kept) (auto intro: rewritten_debits)

end

lemma checked_add_no_debit: "checked_add_lamports ba l tc = Inr tc' \<Longrightarrow> debits D tc tc'"
  by (erule checked_add_lamports_Inr) (auto intro!: rewritten_debits simp: word_less_nat_alt)

lemma checked_sub_debit:
  "checked_sub_lamports ba l tc = Inr tc' \<Longrightarrow> D (unat (ba_index_in_transaction ba)) \<Longrightarrow> debits D tc tc'"
  by (erule checked_sub_lamports_Inr) (auto intro!: rewritten_debits)

lemma with_account_debits:
  assumes "with_instruction_account ic tc i body = Inr tc'"
    and "\<And>ba ia tc1 tc2. \<lbrakk>get (instruction_accounts ic) (unat i) = Some ia;
           ba_index_in_transaction ba = ia_index_in_transaction ia;
           account_values tc1 = account_values tc; same_frame tc tc1; in_range ba tc1;
           body ba tc1 = Inr tc2\<rbrakk> \<Longrightarrow> debits D tc1 tc2"
  shows "debits D tc tc'"
  using assms(1)
proof (rule with_account_Inr)
  fix ba ia tc1 tc2
  assume *: "get (instruction_accounts ic) (unat i) = Some ia"
    "ba_index_in_transaction ba = ia_index_in_transaction ia"
    "account_values tc1 = account_values tc" "same_frame tc tc1" "in_range ba tc1"
    "body ba tc1 = Inr tc2"
  assume tc': "account_values tc' = account_values tc2"
  have "length (accounts tc') = length (accounts tc2)" using arg_cong [OF tc', of length] by simp
  then show ?thesis
    using assms(2) [OF *] *(3,4) tc' by (simp add: debits_def same_frame_def)
qed

text \<open>The key of an account of the transaction.\<close>

definition key_at :: "TransactionContext \<Rightarrow> nat \<Rightarrow> pubkey option" where
  "key_at tc j = get (account_keys tc) j"

definition keys_match :: "TransactionContext \<Rightarrow> bool" where
  "keys_match tc \<longleftrightarrow> length (account_keys tc) = length (accounts tc)"

lemma keys_match_new: "keys_match (TransactionContext_new accs rent cap trace_cap)"
  by (simp add: keys_match_def TransactionContext_new_def)

lemma key_at_ba_key:
  "keys_match tc \<Longrightarrow> in_range ba tc \<Longrightarrow> key_at tc (unat (ba_index_in_transaction ba)) = Some (ba_key ba tc)"
  by (simp add: key_at_def get_def keys_match_def in_range_def ba_key_def)

lemma key_at_frame: "same_frame tc tc' \<Longrightarrow> key_at tc' j = key_at tc j"
  by (simp add: key_at_def same_frame_def)

lemma get_signers_loop_mem:
  assumes "get_signers_loop tc ias acc = Inr signers"
  shows "acc \<subseteq> signers \<and> (\<forall>ia \<in> set ias. ia_is_signer ia \<longrightarrow>
           (\<exists>k \<in> signers. key_at tc (unat (ia_index_in_transaction ia)) = Some k))"
  using assms
proof (induction ias arbitrary: acc)
  case (Cons ia ias)
  show ?case
  proof (cases "ia_is_signer ia")
    case True
    with Cons.prems obtain k where k: "get (account_keys tc) (unat (ia_index_in_transaction ia)) = Some k"
      and rest: "get_signers_loop tc ias (insert k acc) = Inr signers"
      by (auto simp: get_key_of_account_at_index_def result_simps)
    from Cons.IH [OF rest] k show ?thesis by (auto simp: key_at_def)
  next
    case False
    with Cons.prems Cons.IH show ?thesis by auto
  qed
qed simp

lemma get_signers_frame: "same_frame tc tc' \<Longrightarrow> get_signers ic tc' = get_signers ic tc"
proof -
  assume "same_frame tc tc'"
  then have "get_key_of_account_at_index tc' i = get_key_of_account_at_index tc i" for i
    by (simp add: get_key_of_account_at_index_def same_frame_def)
  then have "get_signers_loop tc' ias acc = get_signers_loop tc ias acc" for ias acc
    by (induction ias arbitrary: acc) simp_all
  then show ?thesis by (simp add: get_signers_def)
qed

lemma get_signers_mem:
  assumes "get_signers ic tc = Inr signers" and "get (instruction_accounts ic) (unat i) = Some ia"
    and "ia_is_signer ia"
  shows "\<exists>k \<in> signers. key_at tc (unat (ia_index_in_transaction ia)) = Some k"
  using get_signers_loop_mem [of tc _ "{}" signers] assms
  by (auto simp: get_signers_def get_eq_Some_iff)

section \<open>The interface of a builtin program\<close>

text \<open>
  What the runtime relies on when a builtin program returns without an error: it did nothing but
  steps of its instruction, it left no borrow behind and it neither created nor destroyed
  lamports.
\<close>

locale builtin_program =
  fixes process :: "TransactionContext \<Rightarrow> 'e + TransactionContext"
  assumes neutral: "process tc = Inr tc' \<Longrightarrow>
      \<exists>ic. get_current_instruction_context tc = Inr ic \<and> neutral_run ic tc tc'"
begin

lemma runs: "process tc = Inr tc' \<Longrightarrow>
      \<exists>ic. get_current_instruction_context tc = Inr ic \<and> program_run ic tc tc'"
  using neutral by (auto simp: neutral_run_def)

lemma conserves: "process tc = Inr tc' \<Longrightarrow> total_lamports tc' = total_lamports tc"
  using neutral by (auto simp: neutral_run_def)

lemma keeps_frame: "process tc = Inr tc' \<Longrightarrow> same_frame tc tc'"
  using runs program_run_frame by blast

lemma keeps_stack_wf: "process tc = Inr tc' \<Longrightarrow> stack_wf tc \<Longrightarrow> stack_wf tc'"
  using keeps_frame same_frame_stack_wf by blast

lemma keeps_borrows: "process tc = Inr tc' \<Longrightarrow> borrow_flags tc' = borrow_flags tc"
  using runs [of tc tc'] by (auto simp: program_run_def)

lemma releases: "process tc = Inr tc' \<Longrightarrow> no_borrows tc \<Longrightarrow> no_borrows tc'"
  using keeps_borrows by (simp add: no_borrows_flags)

text \<open>The late verification accepts what the program did to every account.\<close>

lemma verified:
  assumes "process tc = Inr tc'" and "get_current_instruction_context tc = Inr ic"
    and "accounts_fit ic" and "get_last_program_key ic tc = Inr pid"
    and "tc_rent tc = Some rent" and "j < length (accounts tc)"
    and "length (data (account_values tc ! j)) \<le> unat MAX_PERMITTED_DATA_LENGTH"
  shows "is_ok (verify (PreAccount_new key (account_values tc ! j)) pid (writable_at ic j) rent
           (account_values tc' ! j) timings outermost_call)"
proof -
  have "(account_step (Some pid) (writable_at ic j) rent)\<^sup>*\<^sup>*
      (account_values tc ! j) (account_values tc' ! j)"
    using runs [OF assms(1)] program_steps_values [OF _ assms(3,5,6)] assms(2,4)
    by (auto simp: program_run_def current_program_of_def)
  then have "change_accepted pid (writable_at ic j) rent (account_values tc ! j) (account_values tc' ! j)"
  proof (induction rule: rtranclp_induct)
    case base
    show ?case using assms(7) by (simp add: change_accepted_def)
  next
    case (step a b)
    then show ?case by (blast intro: account_step_accepted)
  qed
  then show ?thesis by (simp add: is_ok_verify PreAccount_new_def)
qed

lemma readonly_untouched:
  assumes "process tc = Inr tc'" and "get_current_instruction_context tc = Inr ic"
    and "accounts_fit ic" and "tc_rent tc = Some rent" and "j < length (accounts tc)"
    and "\<not> writable_at ic j"
  shows "account_values tc' ! j = account_values tc ! j"
proof -
  have "(account_step (current_program_of ic tc) False rent)\<^sup>*\<^sup>*
      (account_values tc ! j) (account_values tc' ! j)"
    using runs [OF assms(1)] program_steps_values [OF _ assms(3,4,5)] assms(2,6)
    by (auto simp: program_run_def)
  then show ?thesis
    by (induction rule: rtranclp_induct) (auto elim: account_stepE)
qed

end

end
