(* ===== verification/Histories.thy ===== *)
theory Histories
  imports Prelude
begin

text \<open>
  The two bounded histories the runtime keeps in sysvars:
  \<^verbatim>\<open>sdk/program/src/slot_hashes.rs\<close> and \<^verbatim>\<open>sdk/program/src/stake_history.rs\<close>.  Both
  are vectors in descending order of their key, searched and updated through
  \<open>binary_search_by\<close> of the standard library and truncated to a fixed number of entries.  The
  interface \<open>bounded_history\<close> says what they promise: a finite map that keeps the entries of the
  largest keys.
\<close>

section \<open>Binary search\<close>

datatype ordering = Less | Equal | Greater

definition cmp :: "'a::linorder \<Rightarrow> 'a \<Rightarrow> ordering" where
  "cmp a b = (if a < b then Less else if a = b then Equal else Greater)"

text \<open>
  \<open>slice::binary_search_by\<close>: \<open>Inr i\<close> is \<open>Ok(i)\<close> and \<open>Inl i\<close> is \<open>Err(i)\<close>, the place where
  the element can be inserted.
\<close>

function binary_search_loop :: "('a \<Rightarrow> ordering) \<Rightarrow> 'a list \<Rightarrow> nat \<Rightarrow> nat \<Rightarrow> nat + nat" where
  "binary_search_loop f xs left right =
     (if left < right then
        let mid = left + (right - left) div 2
        in case f (xs ! mid) of
             Less \<Rightarrow> binary_search_loop f xs (mid + 1) right
           | Greater \<Rightarrow> binary_search_loop f xs left mid
           | Equal \<Rightarrow> Inr mid
      else Inl left)"
  by pat_completeness auto
termination
  by (relation "measure (\<lambda>(f, xs, l, r). r - l)") auto

declare binary_search_loop.simps [simp del]

definition binary_search_by :: "('a \<Rightarrow> ordering) \<Rightarrow> 'a list \<Rightarrow> nat + nat" where
  "binary_search_by f xs = binary_search_loop f xs 0 (length xs)"

section \<open>Slot hashes\<close>

type_synonym SlotHash = "slot \<times> hash"
type_synonym SlotHashes = "SlotHash list"

text \<open>
  The number of entries kept is an atomic whose initial value is \<open>MAX_ENTRIES\<close>; only tests change
  it, so \<open>add\<close> truncates to the constant.
\<close>

definition SLOT_HASHES_MAX_ENTRIES :: nat where
  "SLOT_HASHES_MAX_ENTRIES = 512"

text \<open>\<open>Vec::insert\<close>.\<close>

definition vec_insert :: "nat \<Rightarrow> 'a \<Rightarrow> 'a list \<Rightarrow> 'a list" where
  "vec_insert i x xs = take i xs @ x # drop i xs"

definition SlotHashes_add :: "SlotHashes \<Rightarrow> slot \<Rightarrow> hash \<Rightarrow> SlotHashes" where
  "SlotHashes_add self slot hash =
     take SLOT_HASHES_MAX_ENTRIES
       (case binary_search_by (\<lambda>(probe, _). cmp slot probe) self of
          Inr index \<Rightarrow> self[index := (slot, hash)]
        | Inl index \<Rightarrow> vec_insert index (slot, hash) self)"

definition SlotHashes_position :: "SlotHashes \<Rightarrow> slot \<Rightarrow> nat option" where
  "SlotHashes_position self slot =
     (case binary_search_by (\<lambda>(probe, _). cmp slot probe) self of
        Inr index \<Rightarrow> Some index | Inl _ \<Rightarrow> None)"

definition SlotHashes_get :: "SlotHashes \<Rightarrow> slot \<Rightarrow> hash option" where
  "SlotHashes_get self slot =
     (case binary_search_by (\<lambda>(probe, _). cmp slot probe) self of
        Inr index \<Rightarrow> Some (snd (self ! index)) | Inl _ \<Rightarrow> None)"

text \<open>\<open>sort_by\<close> is stable; descending order of the slot.\<close>

definition SlotHashes_new :: "SlotHash list \<Rightarrow> SlotHashes" where
  "SlotHashes_new slot_hashes = sort_key (\<lambda>(s, _). - 1 - s) slot_hashes"

section \<open>Stake history\<close>

record StakeHistoryEntry =
  effective :: u64
  activating :: u64
  deactivating :: u64

type_synonym StakeHistory = "(epoch \<times> StakeHistoryEntry) list"

definition STAKE_HISTORY_MAX_ENTRIES :: nat where
  "STAKE_HISTORY_MAX_ENTRIES = 512"

definition StakeHistoryEntry_with_effective :: "u64 \<Rightarrow> StakeHistoryEntry" where
  "StakeHistoryEntry_with_effective e = \<lparr>effective = e, activating = 0, deactivating = 0\<rparr>"

definition StakeHistoryEntry_with_effective_and_activating :: "u64 \<Rightarrow> u64 \<Rightarrow> StakeHistoryEntry" where
  "StakeHistoryEntry_with_effective_and_activating e a =
     \<lparr>effective = e, activating = a, deactivating = 0\<rparr>"

definition StakeHistoryEntry_with_deactivating :: "u64 \<Rightarrow> StakeHistoryEntry" where
  "StakeHistoryEntry_with_deactivating d = \<lparr>effective = d, activating = 0, deactivating = d\<rparr>"

definition StakeHistoryEntry_add :: "StakeHistoryEntry \<Rightarrow> StakeHistoryEntry \<Rightarrow> StakeHistoryEntry" where
  "StakeHistoryEntry_add self rhs =
     \<lparr>effective = saturating_add (effective self) (effective rhs),
      activating = saturating_add (activating self) (activating rhs),
      deactivating = saturating_add (deactivating self) (deactivating rhs)\<rparr>"

definition StakeHistory_get :: "StakeHistory \<Rightarrow> epoch \<Rightarrow> StakeHistoryEntry option" where
  "StakeHistory_get self epoch =
     (case binary_search_by (\<lambda>probe. cmp epoch (fst probe)) self of
        Inr index \<Rightarrow> Some (snd (self ! index)) | Inl _ \<Rightarrow> None)"

definition StakeHistory_add :: "StakeHistory \<Rightarrow> epoch \<Rightarrow> StakeHistoryEntry \<Rightarrow> StakeHistory" where
  "StakeHistory_add self epoch entry =
     take STAKE_HISTORY_MAX_ENTRIES
       (case binary_search_by (\<lambda>probe. cmp epoch (fst probe)) self of
          Inr index \<Rightarrow> self[index := (epoch, entry)]
        | Inl index \<Rightarrow> vec_insert index (epoch, entry) self)"

section \<open>Searching a descending vector\<close>

definition descending :: "('k::linorder \<times> 'v) list \<Rightarrow> bool" where
  "descending xs \<longleftrightarrow> sorted_wrt (\<lambda>a b. fst b < fst a) xs"

lemma descending_nth:
  "descending xs \<Longrightarrow> i < j \<Longrightarrow> j < length xs \<Longrightarrow> fst (xs ! j) < fst (xs ! i)"
  using sorted_wrt_nth_less by (fastforce simp: descending_def)

lemma descending_nth_le:
  "descending xs \<Longrightarrow> i \<le> j \<Longrightarrow> j < length xs \<Longrightarrow> fst (xs ! j) \<le> fst (xs ! i)"
  using descending_nth [of xs i j] by (cases "i = j") auto

definition search_result :: "('k::linorder \<times> 'v) list \<Rightarrow> 'k \<Rightarrow> nat + nat \<Rightarrow> bool" where
  "search_result xs k r \<longleftrightarrow> (case r of
     Inr i \<Rightarrow> i < length xs \<and> fst (xs ! i) = k
   | Inl i \<Rightarrow> i \<le> length xs \<and> (\<forall>j < i. k < fst (xs ! j)) \<and>
              (\<forall>j. i \<le> j \<and> j < length xs \<longrightarrow> fst (xs ! j) < k))"

lemma binary_search_loop_correct:
  fixes xs :: "('k::linorder \<times> 'v) list"
  assumes desc: "descending xs" and "right \<le> length xs" and "left \<le> right"
    and "\<forall>i < left. k < fst (xs ! i)" and "\<forall>i. right \<le> i \<and> i < length xs \<longrightarrow> fst (xs ! i) < k"
  shows "search_result xs k (binary_search_loop (\<lambda>p. cmp k (fst p)) xs left right)"
  using assms(2-)
proof (induction "right - left" arbitrary: left right rule: less_induct)
  case less
  let ?mid = "left + (right - left) div 2"
  note unfold = binary_search_loop.simps [of _ xs left right]
  show ?case
  proof (cases "left < right")
    case False
    with less.prems show ?thesis by (subst unfold) (simp add: search_result_def)
  next
    case True
    then have mid: "left \<le> ?mid" "?mid < right" "?mid < length xs" using less.prems(1) by auto
    consider "k < fst (xs ! ?mid)" | "k = fst (xs ! ?mid)" | "fst (xs ! ?mid) < k"
      by (rule linorder_cases)
    then show ?thesis
    proof cases
      case 1
      then have "\<forall>i < ?mid + 1. k < fst (xs ! i)"
        using descending_nth [OF desc _ mid(3)] by (metis less_Suc_eq Suc_eq_plus1 less_trans)
      moreover have "right - (?mid + 1) < right - left" "?mid + 1 \<le> right" using mid by auto
      ultimately show ?thesis
        using 1 True less.prems less.hyps [of right "?mid + 1"]
        by (simp add: unfold cmp_def Let_def)
    next
      case 2
      then show ?thesis
        using mid True by (simp add: unfold search_result_def cmp_def Let_def)
    next
      case 3
      then have "\<forall>i. ?mid \<le> i \<and> i < length xs \<longrightarrow> fst (xs ! i) < k"
        using descending_nth [OF desc, of ?mid] by (metis le_neq_implies_less less_trans)
      moreover have "?mid - left < right - left" "?mid \<le> length xs" using mid by auto
      ultimately show ?thesis
        using 3 mid(1) True less.prems less.hyps [of ?mid left]
        by (auto simp: unfold cmp_def Let_def)
    qed
  qed
qed

lemma binary_search_by_correct:
  "descending xs \<Longrightarrow> search_result xs k (binary_search_by (\<lambda>p. cmp k (fst p)) xs)"
  by (auto simp: binary_search_by_def intro!: binary_search_loop_correct)

section \<open>The map a history implements\<close>

text \<open>Putting an entry into a descending vector, and looking at the first \<open>n\<close> entries.\<close>

definition desc_put :: "'k::linorder \<Rightarrow> 'v \<Rightarrow> ('k \<times> 'v) list \<Rightarrow> ('k \<times> 'v) list" where
  "desc_put k v xs = filter (\<lambda>p. k < fst p) xs @ (k, v) # filter (\<lambda>p. fst p < k) xs"

lemma filter_prefix:
  assumes "\<And>j. j < i \<Longrightarrow> j < length xs \<Longrightarrow> P (xs ! j)"
    and "\<And>j. i \<le> j \<Longrightarrow> j < length xs \<Longrightarrow> \<not> P (xs ! j)"
  shows "filter P xs = take i xs"
proof -
  have "filter P (take i xs) = take i xs"
    using assms(1) by (auto simp: filter_id_conv in_set_conv_nth)
  moreover have "filter P (drop i xs) = []"
    using assms(2) by (auto simp: filter_empty_conv in_set_conv_nth)
  ultimately show ?thesis
    by (metis append_take_drop_id filter_append append_Nil2)
qed

lemma filter_suffix:
  assumes "\<And>j. j < i \<Longrightarrow> j < length xs \<Longrightarrow> \<not> P (xs ! j)"
    and "\<And>j. i \<le> j \<Longrightarrow> j < length xs \<Longrightarrow> P (xs ! j)"
  shows "filter P xs = drop i xs"
proof -
  have "filter P (drop i xs) = drop i xs"
    using assms(2) by (auto simp: filter_id_conv in_set_conv_nth)
  moreover have "filter P (take i xs) = []"
    using assms(1) by (auto simp: filter_empty_conv in_set_conv_nth)
  ultimately show ?thesis
    by (metis append_take_drop_id filter_append append_Nil)
qed

lemma put_found:
  assumes "descending xs" and "i < length xs" and "fst (xs ! i) = k"
  shows "xs[i := (k, v)] = desc_put k v xs"
proof -
  have "filter (\<lambda>p. k < fst p) xs = take i xs"
    using descending_nth [OF assms(1)] descending_nth_le [OF assms(1)] assms(2,3)
    by (intro filter_prefix) (auto simp: not_less)
  moreover have "filter (\<lambda>p. fst p < k) xs = drop (Suc i) xs"
    using descending_nth [OF assms(1)] descending_nth_le [OF assms(1)] assms(2,3)
    by (intro filter_suffix) (auto simp: not_less less_Suc_eq_le Suc_le_eq)
  ultimately show ?thesis
    using assms(2) by (simp add: desc_put_def upd_conv_take_nth_drop)
qed

lemma put_missing:
  assumes "search_result xs k (Inl i)"
  shows "vec_insert i (k, v) xs = desc_put k v xs"
proof -
  have "filter (\<lambda>p. k < fst p) xs = take i xs" "filter (\<lambda>p. fst p < k) xs = drop i xs"
    using assms by (auto simp: search_result_def intro!: filter_prefix filter_suffix dest: less_asym)
  then show ?thesis by (simp add: desc_put_def vec_insert_def)
qed

lemma put_search:
  assumes "descending xs"
  shows "(case binary_search_by (\<lambda>p. cmp k (fst p)) xs of
            Inr i \<Rightarrow> xs[i := (k, v)] | Inl i \<Rightarrow> vec_insert i (k, v) xs) = desc_put k v xs"
proof (cases "binary_search_by (\<lambda>p. cmp k (fst p)) xs")
  case (Inl i)
  then show ?thesis
    using binary_search_by_correct [OF assms, of k] by (simp add: put_missing)
next
  case (Inr i)
  then show ?thesis
    using binary_search_by_correct [OF assms, of k] by (simp add: search_result_def put_found [OF assms])
qed

lemma descending_distinct: "descending xs \<Longrightarrow> distinct (map fst xs)"
  unfolding descending_def by (induction xs) auto

lemma get_search:
  assumes "descending xs"
  shows "(case binary_search_by (\<lambda>p. cmp k (fst p)) xs of
            Inr i \<Rightarrow> Some (snd (xs ! i)) | Inl i \<Rightarrow> None) = map_of xs k"
proof (cases "binary_search_by (\<lambda>p. cmp k (fst p)) xs")
  case (Inl i)
  then have "k \<notin> fst ` set xs"
    using binary_search_by_correct [OF assms, of k]
    by (auto simp: search_result_def in_set_conv_nth) (metis leI less_irrefl prod.sel(1))
  then have "map_of xs k = None" by (simp add: map_of_eq_None_iff)
  then show ?thesis by (simp add: Inl)
next
  case (Inr i)
  then have "i < length xs" "fst (xs ! i) = k"
    using binary_search_by_correct [OF assms, of k] by (auto simp: search_result_def)
  then have "map_of xs k = Some (snd (xs ! i))"
    using descending_distinct [OF assms] by (metis map_of_is_SomeI nth_mem prod.collapse)
  then show ?thesis by (simp add: Inr)
qed

lemma descending_put: "descending xs \<Longrightarrow> descending (desc_put k v xs)"
  by (auto simp: descending_def desc_put_def sorted_wrt_append intro: sorted_wrt_filter)

lemma map_of_put: "map_of (desc_put k v xs) = (map_of xs)(k \<mapsto> v)"
proof
  fix j
  have "map_of (filter (\<lambda>p. P (fst p)) xs) j = (if P j then map_of xs j else None)" for P
    by (induction xs) auto
  from this [of "\<lambda>x. k < x"] this [of "\<lambda>x. x < k"]
  show "map_of (desc_put k v xs) j = ((map_of xs)(k \<mapsto> v)) j"
    by (auto simp: desc_put_def map_add_def not_less split: option.splits)
qed

lemma descending_take: "descending xs \<Longrightarrow> descending (take n xs)"
  by (simp add: descending_def sorted_wrt_take)

lemma map_of_take_descending:
  assumes "descending xs"
  shows "map_of (take n xs) j =
     (if card {i \<in> fst ` set xs. j < i} < n then map_of xs j else None)"
  using assms
proof (induction xs arbitrary: n)
  case (Cons p xs)
  have below: "\<forall>i \<in> fst ` set xs. i < fst p" and IH: "descending xs"
    using Cons.prems by (auto simp: descending_def)
  show ?case
  proof (cases n)
    case (Suc m)
    consider "j = fst p" | "fst p < j" | "j < fst p" by (rule linorder_cases)
    then show ?thesis
    proof cases
      case 1
      then have none: "{i \<in> fst ` set (p # xs). j < i} = {}" using below by auto
      show ?thesis unfolding none using 1 Suc by simp
    next
      case 2
      then have "j \<notin> fst ` set xs" using below by auto
      then have "map_of xs j = None" "map_of (take m xs) j = None"
        by (auto simp: map_of_eq_None_iff image_iff dest: in_set_takeD)
      then show ?thesis using 2 Suc by simp
    next
      case 3
      then have "{i \<in> fst ` set (p # xs). j < i} = insert (fst p) {i \<in> fst ` set xs. j < i}"
        by auto
      moreover have "fst p \<notin> {i \<in> fst ` set xs. j < i}" using below by auto
      ultimately have one: "card {i \<in> fst ` set (p # xs). j < i} = Suc (card {i \<in> fst ` set xs. j < i})"
        by simp
      show ?thesis unfolding one using less_imp_neq [OF 3] Suc Cons.IH [OF IH, of m] by simp
    qed
  qed simp
qed simp

section \<open>The interface of a bounded history\<close>

text \<open>
  What the clients of a history rely on: \<open>add\<close> puts an entry into the descending vector and
  keeps the first \<open>cap\<close> entries, and \<open>lookup\<close> reads the map the vector stands for.
\<close>

locale bounded_history =
  fixes add :: "('k::linorder \<times> 'v) list \<Rightarrow> 'k \<Rightarrow> 'v \<Rightarrow> ('k \<times> 'v) list"
    and lookup :: "('k \<times> 'v) list \<Rightarrow> 'k \<Rightarrow> 'v option"
    and cap :: nat
  assumes add_law: "descending xs \<Longrightarrow> add xs k v = take cap (desc_put k v xs)"
    and lookup_law: "descending xs \<Longrightarrow> lookup xs k = map_of xs k"
begin

lemma add_wf: "descending xs \<Longrightarrow> descending (add xs k v) \<and> length (add xs k v) \<le> cap"
  by (simp add: add_law descending_put descending_take)

lemma keys_put: "fst ` set (desc_put k v xs) = insert k (fst ` set xs)"
  by (auto simp: desc_put_def image_iff)

lemma lookup_add:
  assumes "descending xs"
  shows "lookup (add xs k v) j =
     (if card {i \<in> insert k (fst ` set xs). j < i} < cap then ((map_of xs)(k \<mapsto> v)) j else None)"
proof -
  have "lookup (add xs k v) j = map_of (take cap (desc_put k v xs)) j"
    using add_wf [OF assms] by (simp add: lookup_law) (simp add: add_law assms)
  then show ?thesis
    unfolding map_of_take_descending [OF descending_put [OF assms]] keys_put map_of_put .
qed

lemma lookup_newest:
  assumes "descending xs" and "0 < cap" and "\<forall>i \<in> fst ` set xs. i \<le> k"
  shows "lookup (add xs k v) k = Some v"
proof -
  have none: "{i \<in> insert k (fst ` set xs). k < i} = {}" using assms(3) by (auto simp: not_less)
  show ?thesis unfolding lookup_add [OF assms(1)] none using assms(2) by simp
qed

end

interpretation slot_hashes: bounded_history SlotHashes_add SlotHashes_get SLOT_HASHES_MAX_ENTRIES
  by unfold_locales
     (simp_all add: SlotHashes_add_def SlotHashes_get_def case_prod_unfold put_search get_search)

interpretation stake_history: bounded_history StakeHistory_add StakeHistory_get STAKE_HISTORY_MAX_ENTRIES
  by unfold_locales (simp_all add: StakeHistory_add_def StakeHistory_get_def put_search get_search)

text \<open>
  C31: The slot hashes are the 512 newest: after \<open>add\<close>, a lookup returns what a map updated at
  the slot would hold, except that a slot with 512 newer slots in the history is gone; the vector
  stays strictly descending and within its bound.
\<close>

theorem slot_hashes_window:
  assumes "descending h"
  shows "descending (SlotHashes_add h slot hash) \<and>
     length (SlotHashes_add h slot hash) \<le> 512 \<and>
     SlotHashes_get (SlotHashes_add h slot hash) s =
       (if card {i \<in> insert slot (fst ` set h). s < i} < 512
        then ((map_of h)(slot \<mapsto> hash)) s else None)"
  using slot_hashes.add_wf [OF assms] slot_hashes.lookup_add [OF assms]
  by (simp add: SLOT_HASHES_MAX_ENTRIES_def)

theorem slot_hashes_window_witness:
  "SlotHashes_get (SlotHashes_add [(9, 90), (7, 70), (4, 40)] 8 80) 7 = Some 70"
proof -
  have "descending [(9 :: slot, 90 :: hash), (7, 70), (4, 40)]"
    by (simp add: descending_def)
  from slot_hashes_window [OF this, of 8 80 7]
  show ?thesis
    by (simp add: Collect_conv_if conj_disj_distribR Collect_disj_eq)
qed

end
