(* ===== verification/EpochSchedule.thy ===== *)
theory EpochSchedule
  imports Float64
begin

text \<open>
  \<^verbatim>\<open>sdk/program/src/epoch_schedule.rs\<close>: how slots are grouped into epochs, with the
  doubling epochs of the warmup period, and the arithmetic between slots and epochs.  The theorem
  at the end says that the two directions agree for every slot.
\<close>

section \<open>Powers of two\<close>

text \<open>
  \<open>u64::next_power_of_two\<close> (0 when it does not fit, as in a release build) and
  \<open>u64::trailing_zeros\<close>.
\<close>

definition next_power_of_two :: "u64 \<Rightarrow> u64" where
  "next_power_of_two n = (if n \<le> 1 then 1 else of_nat (2 ^ bitlen (unat n - 1)))"

fun count_trailing_zeros :: "nat \<Rightarrow> nat" where
  "count_trailing_zeros n =
     (if n = 0 \<or> odd n then 0 else Suc (count_trailing_zeros (n div 2)))"

declare count_trailing_zeros.simps [simp del]

definition trailing_zeros :: "u64 \<Rightarrow> u32" where
  "trailing_zeros n = (if n = 0 then 64 else of_nat (count_trailing_zeros (unat n)))"

section \<open>The schedule\<close>

record EpochSchedule =
  slots_per_epoch :: u64
  leader_schedule_slot_offset :: u64
  warmup :: bool
  first_normal_epoch :: epoch
  first_normal_slot :: slot

definition MINIMUM_SLOTS_PER_EPOCH :: u64 where "MINIMUM_SLOTS_PER_EPOCH = 32"
definition DEFAULT_SLOTS_PER_EPOCH :: u64 where "DEFAULT_SLOTS_PER_EPOCH = 2 * 13824000 div 64"
definition DEFAULT_LEADER_SCHEDULE_SLOT_OFFSET :: u64 where
  "DEFAULT_LEADER_SCHEDULE_SLOT_OFFSET = DEFAULT_SLOTS_PER_EPOCH"

text \<open>\<open>None\<close> is the failed assertion.\<close>

definition EpochSchedule_custom :: "u64 \<Rightarrow> u64 \<Rightarrow> bool \<Rightarrow> EpochSchedule option" where
  "EpochSchedule_custom spe offset wu =
     (if MINIMUM_SLOTS_PER_EPOCH \<le> spe then
        let (fne, fns) =
          (if wu then
             let npt = next_power_of_two spe;
                 log2_slots_per_epoch =
                   saturating_sub (trailing_zeros npt) (trailing_zeros MINIMUM_SLOTS_PER_EPOCH)
             in (ucast log2_slots_per_epoch, saturating_sub npt MINIMUM_SLOTS_PER_EPOCH)
           else (0, 0))
        in Some \<lparr>slots_per_epoch = spe, leader_schedule_slot_offset = offset, warmup = wu,
                 first_normal_epoch = fne, first_normal_slot = fns\<rparr>
      else None)"

definition EpochSchedule_default :: "EpochSchedule option" where
  "EpochSchedule_default =
     EpochSchedule_custom DEFAULT_SLOTS_PER_EPOCH DEFAULT_LEADER_SCHEDULE_SLOT_OFFSET True"

definition EpochSchedule_new :: "u64 \<Rightarrow> EpochSchedule option" where
  "EpochSchedule_new spe = EpochSchedule_custom spe spe True"

definition without_warmup :: "EpochSchedule option" where
  "without_warmup =
     EpochSchedule_custom DEFAULT_SLOTS_PER_EPOCH DEFAULT_LEADER_SCHEDULE_SLOT_OFFSET False"

definition unwrap_or :: "'a option \<Rightarrow> 'a \<Rightarrow> 'a" where
  "unwrap_or x d = (case x of None \<Rightarrow> d | Some a \<Rightarrow> a)"

definition get_slots_in_epoch :: "EpochSchedule \<Rightarrow> epoch \<Rightarrow> u64" where
  "get_slots_in_epoch self epoch =
     (if epoch < first_normal_epoch self
      then saturating_pow 2
             (unat (saturating_add (ucast epoch :: u32) (trailing_zeros MINIMUM_SLOTS_PER_EPOCH)))
      else slots_per_epoch self)"

definition get_epoch_and_slot_index :: "EpochSchedule \<Rightarrow> slot \<Rightarrow> epoch \<times> u64" where
  "get_epoch_and_slot_index self slot =
     (if slot < first_normal_slot self then
        let epoch =
              saturating_sub
                (saturating_sub
                  (trailing_zeros
                    (next_power_of_two (saturating_add (saturating_add slot MINIMUM_SLOTS_PER_EPOCH) 1)))
                  (trailing_zeros MINIMUM_SLOTS_PER_EPOCH)) 1;
            epoch_len =
              saturating_pow 2
                (unat (saturating_add epoch (trailing_zeros MINIMUM_SLOTS_PER_EPOCH)))
        in (ucast epoch,
            saturating_sub slot (saturating_sub epoch_len MINIMUM_SLOTS_PER_EPOCH))
      else
        let normal_slot_index = saturating_sub slot (first_normal_slot self);
            normal_epoch_index = unwrap_or (checked_div normal_slot_index (slots_per_epoch self)) 0
        in (saturating_add (first_normal_epoch self) normal_epoch_index,
            unwrap_or (checked_rem normal_slot_index (slots_per_epoch self)) 0))"

definition get_epoch :: "EpochSchedule \<Rightarrow> slot \<Rightarrow> epoch" where
  "get_epoch self slot = fst (get_epoch_and_slot_index self slot)"

definition get_leader_schedule_epoch :: "EpochSchedule \<Rightarrow> slot \<Rightarrow> epoch" where
  "get_leader_schedule_epoch self slot =
     (if slot < first_normal_slot self
      then saturating_add (fst (get_epoch_and_slot_index self slot)) 1
      else
        let new_slots_since_first_normal_slot = saturating_sub slot (first_normal_slot self);
            new_first_normal_leader_schedule_slot =
              saturating_add new_slots_since_first_normal_slot (leader_schedule_slot_offset self);
            new_epochs_since_first_normal_leader_schedule =
              unwrap_or (checked_div new_first_normal_leader_schedule_slot (slots_per_epoch self)) 0
        in saturating_add (first_normal_epoch self) new_epochs_since_first_normal_leader_schedule)"

definition get_first_slot_in_epoch :: "EpochSchedule \<Rightarrow> epoch \<Rightarrow> slot" where
  "get_first_slot_in_epoch self epoch =
     (if epoch \<le> first_normal_epoch self
      then saturating_mul (saturating_sub (saturating_pow 2 (unat (ucast epoch :: u32))) 1)
             MINIMUM_SLOTS_PER_EPOCH
      else saturating_add
             (saturating_mul (saturating_sub epoch (first_normal_epoch self)) (slots_per_epoch self))
             (first_normal_slot self))"

definition get_last_slot_in_epoch :: "EpochSchedule \<Rightarrow> epoch \<Rightarrow> slot" where
  "get_last_slot_in_epoch self epoch =
     saturating_sub
       (saturating_add (get_first_slot_in_epoch self epoch) (get_slots_in_epoch self epoch)) 1"

section \<open>Slots and epochs agree\<close>

lemma word_eq_of_natI: "unat w = n \<Longrightarrow> w = of_nat n"
  by auto

lemma bitlen_eqI: "2 ^ (k - 1) \<le> n \<Longrightarrow> n < 2 ^ k \<Longrightarrow> 0 < k \<Longrightarrow> bitlen n = k"
  using bitlen_le_iff [of n k] bitlen_le_iff [of n "k - 1"] by linarith

lemma bitlen_bounds: "0 < n \<Longrightarrow> 2 ^ (bitlen n - 1) \<le> n \<and> n < 2 ^ bitlen n \<and> 0 < bitlen n"
  using bitlen_le_iff [of n "bitlen n"] bitlen_le_iff [of n "bitlen n - 1"]
  by (cases "bitlen n") (auto simp: not_less [symmetric])

lemma unat_next_power_of_two:
  assumes "1 < unat n" and "unat n \<le> 2 ^ 63"
  shows "unat (next_power_of_two n) = 2 ^ bitlen (unat n - 1)"
    and "bitlen (unat n - 1) \<le> 63"
proof -
  show le: "bitlen (unat n - 1) \<le> 63"
    using assms by (simp add: bitlen_le_iff)
  have "(2::nat) ^ bitlen (unat n - 1) \<le> 2 ^ 63"
    using le by (intro power_increasing) simp_all
  moreover have "\<not> n \<le> 1"
    using assms(1) by (simp add: word_le_nat_alt)
  ultimately show "unat (next_power_of_two n) = 2 ^ bitlen (unat n - 1)"
    by (simp only: next_power_of_two_def if_False unat_of_nat) simp
qed

lemma count_trailing_zeros_power: "count_trailing_zeros (2 ^ k) = k"
  by (induction k) (simp_all add: count_trailing_zeros.simps)

lemma trailing_zeros_power:
  assumes "unat w = 2 ^ k" and "k \<le> 64"
  shows "unat (trailing_zeros w) = k"
proof -
  have "w \<noteq> 0" using assms(1) by auto
  then show ?thesis
    using assms by (simp add: trailing_zeros_def count_trailing_zeros_power unat_of_nat)
qed

lemma unat_minimum: "unat MINIMUM_SLOTS_PER_EPOCH = 32"
  by (simp add: MINIMUM_SLOTS_PER_EPOCH_def)

lemma trailing_zeros_minimum: "unat (trailing_zeros MINIMUM_SLOTS_PER_EPOCH) = 5"
  by (rule trailing_zeros_power) (simp_all add: MINIMUM_SLOTS_PER_EPOCH_def)

text \<open>
  The shape every schedule has: the warmup ends at \<open>2 ^ l - 32\<close> slots and \<open>l - 5\<close>
  epochs (\<open>l = 5\<close> without warmup).
\<close>

definition schedule_wf :: "EpochSchedule \<Rightarrow> bool" where
  "schedule_wf self \<longleftrightarrow>
     32 \<le> unat (slots_per_epoch self) \<and>
     (\<exists>l. 5 \<le> l \<and> l \<le> 63 \<and> unat (first_normal_epoch self) = l - 5 \<and>
          unat (first_normal_slot self) = 2 ^ l - 32)"

lemma custom_wf:
  assumes "EpochSchedule_custom spe offset wu = Some self" and "unat spe \<le> 2 ^ 63"
  shows "schedule_wf self"
proof -
  from assms(1) have spe: "32 \<le> unat spe" and sps: "slots_per_epoch self = spe"
    by (auto simp: EpochSchedule_custom_def MINIMUM_SLOTS_PER_EPOCH_def word_le_nat_alt
        split: if_splits prod.splits)
  show ?thesis
  proof (cases wu)
    case False
    then have "unat (first_normal_epoch self) = 5 - 5" "unat (first_normal_slot self) = 2 ^ 5 - 32"
      using assms(1) by (auto simp: EpochSchedule_custom_def split: if_splits)
    then show ?thesis
      using spe sps unfolding schedule_wf_def by (intro conjI exI [of _ 5]) simp_all
  next
    case True
    let ?l = "bitlen (unat spe - 1)"
    have npt: "unat (next_power_of_two spe) = 2 ^ ?l" and l: "?l \<le> 63"
      using unat_next_power_of_two [of spe] spe assms(2) by simp_all
    have "\<not> ?l \<le> 4"
      unfolding bitlen_le_iff using spe by simp
    then have "5 \<le> ?l" by simp
    moreover have "unat (first_normal_slot self) = 2 ^ ?l - 32"
      using True assms(1) npt
      by (auto simp: EpochSchedule_custom_def MINIMUM_SLOTS_PER_EPOCH_def unat_saturating_sub Let_def
          split: if_splits)
    moreover have "unat (first_normal_epoch self) = ?l - 5"
    proof -
      have "first_normal_epoch self = ucast (saturating_sub (trailing_zeros (next_power_of_two spe))
          (trailing_zeros MINIMUM_SLOTS_PER_EPOCH))"
        using True assms(1) by (auto simp: EpochSchedule_custom_def Let_def split: if_splits)
      then show ?thesis
        using trailing_zeros_power [OF npt] l
        by (simp add: unat_ucast_u32 unat_saturating_sub trailing_zeros_minimum)
    qed
    ultimately show ?thesis
      using spe sps l unfolding schedule_wf_def by blast
  qed
qed

text \<open>The warmup: with \<open>k\<close> the bit length of \<open>slot + 32\<close>, the epoch is \<open>k - 6\<close>.\<close>

lemma warmup_epoch:
  assumes "slot < first_normal_slot self" and "unat (first_normal_slot self) = 2 ^ l - 32" and "l \<le> 63"
  defines "k \<equiv> bitlen (unat slot + 32)"
  shows "get_epoch_and_slot_index self slot =
      (of_nat (k - 6), of_nat (unat slot + 32 - 2 ^ (k - 1)))"
    and "6 \<le> k" and "k \<le> l" and "2 ^ (k - 1) \<le> unat slot + 32" and "unat slot + 32 < 2 ^ k"
proof -
  let ?min = MINIMUM_SLOTS_PER_EPOCH
  have l63: "(2::nat) ^ l \<le> 2 ^ 63" using assms(3) by (intro power_increasing) simp_all
  have slot: "unat slot + 32 < 2 ^ l"
    using assms(1,2) by (simp add: word_less_nat_alt)
  have k0: "2 ^ (k - 1) \<le> unat slot + 32" "unat slot + 32 < 2 ^ k" "0 < k"
    using bitlen_bounds [of "unat slot + 32"] by (simp_all add: k_def)
  then show "2 ^ (k - 1) \<le> unat slot + 32" "unat slot + 32 < 2 ^ k" by simp_all
  have "\<not> k \<le> 5"
    unfolding k_def bitlen_le_iff by simp
  then show k6: "6 \<le> k" by simp
  show kl: "k \<le> l"
    using slot by (simp add: k_def bitlen_le_iff)
  define n where "n = saturating_add (saturating_add slot ?min) 1"
  have n: "unat n = unat slot + 33"
    using slot l63 by (simp add: n_def unat_saturating_add MINIMUM_SLOTS_PER_EPOCH_def)
  have npt: "unat (next_power_of_two n) = 2 ^ k"
    using unat_next_power_of_two(1) [of n] n slot l63 by (simp add: k_def add.commute)
  define e where "e = saturating_sub (saturating_sub (trailing_zeros (next_power_of_two n)) (trailing_zeros ?min)) 1"
  have e: "unat e = k - 6"
    using trailing_zeros_power [OF npt] kl assms(3)
    by (simp add: e_def unat_saturating_sub trailing_zeros_minimum)
  have len: "unat (saturating_pow (2 :: u64) (unat (saturating_add e (trailing_zeros ?min)))) = 2 ^ (k - 1)"
  proof -
    have "unat (saturating_add e (trailing_zeros ?min)) = k - 1"
      using e k6 kl assms(3) by (simp add: unat_saturating_add trailing_zeros_minimum)
    moreover have "(2::nat) ^ (k - 1) \<le> 2 ^ 63"
      using kl assms(3) by (intro power_increasing) simp_all
    ultimately show ?thesis by (simp add: unat_saturating_pow)
  qed
  have "(32::nat) = 2 ^ 5" by simp
  also have "(2::nat) ^ 5 \<le> 2 ^ (k - 1)" using k6 by (intro power_increasing) simp_all
  finally have min: "32 \<le> (2::nat) ^ (k - 1)" .
  have "ucast e = (of_nat (k - 6) :: u64)"
    using e by (intro word_eq_of_natI) (simp add: unat_ucast_u32)
  moreover have "saturating_sub slot (saturating_sub (saturating_pow 2
      (unat (saturating_add e (trailing_zeros ?min)))) ?min) = of_nat (unat slot + 32 - 2 ^ (k - 1))"
  proof -
    have "unat (saturating_sub slot (saturating_sub (saturating_pow 2
      (unat (saturating_add e (trailing_zeros ?min)))) ?min)) = unat slot + 32 - 2 ^ (k - 1)"
      using min by (simp add: unat_saturating_sub len unat_minimum)
    then show ?thesis by (rule word_eq_of_natI)
  qed
  ultimately show "get_epoch_and_slot_index self slot =
      (of_nat (k - 6), of_nat (unat slot + 32 - 2 ^ (k - 1)))"
    using assms(1) by (simp add: get_epoch_and_slot_index_def Let_def n_def [symmetric] e_def [symmetric])
qed

lemma unat_of_nat_small: "n < 2 ^ 64 \<Longrightarrow> unat (of_nat n :: u64) = n"
  by (simp add: unat_of_nat)

lemma unat_two_pow: "k \<le> 63 \<Longrightarrow> unat (saturating_pow (2 :: u64) k) = 2 ^ k"
proof -
  assume "k \<le> 63"
  then have "(2::nat) ^ k \<le> 2 ^ 63" by (intro power_increasing) simp_all
  then show ?thesis by (simp add: unat_saturating_pow)
qed

lemma warmup_first_slot:
  assumes "unat e \<le> 58" and "e \<le> first_normal_epoch self"
  shows "unat (get_first_slot_in_epoch self e) = (2 ^ unat e - 1) * 32"
proof -
  have "unat (ucast e :: u32) = unat e"
    using assms(1) by (simp add: unsigned_ucast_eq take_bit_nat_eq_self)
  moreover have "(2::nat) ^ unat e \<le> 2 ^ 58"
    using assms(1) by (intro power_increasing) simp_all
  ultimately show ?thesis
    using assms by (simp add: get_first_slot_in_epoch_def unat_saturating_mul unat_saturating_sub
        unat_two_pow unat_minimum)
qed

lemma warmup_slot_in_its_epoch:
  assumes l: "5 \<le> l" "l \<le> 63" and fne: "unat (first_normal_epoch self) = l - 5"
    and fns: "unat (first_normal_slot self) = 2 ^ l - 32"
    and early: "slot < first_normal_slot self" and ei0: "get_epoch_and_slot_index self slot = (e, i)"
  shows "unat (get_first_slot_in_epoch self e) + unat i = unat slot \<and>
         unat i < unat (get_slots_in_epoch self e)"
proof -
  let ?k = "bitlen (unat slot + 32)"
  note w = warmup_epoch [OF early fns l(2)]
  have ei: "e = of_nat (?k - 6)" "i = of_nat (unat slot + 32 - 2 ^ (?k - 1))"
    using w(1) ei0 by simp_all
  have "?k - 6 < 2 ^ 64" using w(3) l(2) by simp
  then have e: "unat e = ?k - 6" by (simp only: ei(1) unat_of_nat_small)
  have i: "unat i = unat slot + 32 - 2 ^ (?k - 1)"
  proof -
    have "32 \<le> (2::nat) ^ (?k - 1)"
      using w(2) power_increasing [of 5 "?k - 1" "2::nat"] by simp
    then have "unat slot + 32 - 2 ^ (?k - 1) < 2 ^ 64"
      using unsigned_less [of slot, where ?'a = nat] by simp
    then show ?thesis by (simp only: ei(2) unat_of_nat_small)
  qed
  have lt: "e < first_normal_epoch self"
    using e fne w(2,3) by (simp add: word_less_nat_alt)
  have "unat (get_slots_in_epoch self e) = 2 ^ (?k - 1)"
  proof -
    have "unat (ucast e :: u32) = unat e"
      using e w(3) l(2) by (simp add: unsigned_ucast_eq take_bit_nat_eq_self)
    then have "unat (saturating_add (ucast e :: u32) (trailing_zeros MINIMUM_SLOTS_PER_EPOCH)) = ?k - 1"
      using e w(2,3) l(2) by (simp add: unat_saturating_add trailing_zeros_minimum)
    then show ?thesis
      using lt w(3) l(2) by (simp add: get_slots_in_epoch_def unat_two_pow)
  qed
  moreover have "unat (get_first_slot_in_epoch self e) = 2 ^ (?k - 1) - 32"
  proof -
    have "(2 ^ (?k - 6) - 1) * 32 = (2::nat) ^ (?k - 1) - 32"
      using w(2) power_add [of "2::nat" "?k - 6" 5] by (simp add: diff_mult_distrib)
    then show ?thesis
      using warmup_first_slot [of e self] e lt w(3) l(2) by simp
  qed
  moreover have "32 \<le> (2::nat) ^ (?k - 1)"
    using w(2) power_increasing [of 5 "?k - 1" "2::nat"] by simp
  moreover have "(2::nat) ^ ?k = 2 ^ (?k - 1) + 2 ^ (?k - 1)"
    using w(2) by (cases ?k) auto
  ultimately show ?thesis
    using i w(4,5) by linarith
qed

lemma normal_slot_in_its_epoch:
  assumes spe: "32 \<le> unat (slots_per_epoch self)"
    and l: "5 \<le> l" "l \<le> 63" and fne: "unat (first_normal_epoch self) = l - 5"
    and fns: "unat (first_normal_slot self) = 2 ^ l - 32"
    and normal: "\<not> slot < first_normal_slot self" and ei0: "get_epoch_and_slot_index self slot = (e, i)"
  shows "unat (get_first_slot_in_epoch self e) + unat i = unat slot \<and>
         unat i < unat (get_slots_in_epoch self e)"
proof -
  let ?p = "unat (slots_per_epoch self)" and ?n = "unat slot - (2 ^ l - 32)"
  have ne: "slots_per_epoch self \<noteq> 0" using spe by auto
  have ge: "2 ^ l - 32 \<le> unat slot" using normal fns by (simp add: word_less_nat_alt not_less)
  have small: "unat slot < 2 ^ 64" using unsigned_less [of slot] by simp
  have "?n div ?p \<le> ?n div 32" using spe by (intro div_le_mono2) simp_all
  also have "\<dots> < 2 ^ 59" using small by simp
  finally have q: "?n div ?p < 2 ^ 59" .
  have e: "unat e = l - 5 + ?n div ?p"
    using ei0 normal ne fne fns q l(2)
    by (auto simp: get_epoch_and_slot_index_def Let_def checked_div_def unwrap_or_def
        unat_saturating_add unat_saturating_sub unat_div)
  have i: "unat i = ?n mod ?p"
    using ei0 normal ne fns
    by (auto simp: get_epoch_and_slot_index_def Let_def checked_rem_def unwrap_or_def
        unat_saturating_sub unat_mod)
  have len: "get_slots_in_epoch self e = slots_per_epoch self"
    using e fne by (simp add: get_slots_in_epoch_def word_less_nat_alt)
  have "unat (get_first_slot_in_epoch self e) = 2 ^ l - 32 + (?n div ?p) * ?p"
  proof (cases "?n div ?p = 0")
    case True
    have "(2 ^ (l - 5) - 1) * 32 = (2::nat) ^ l - 32"
      using l(1) power_add [of "2::nat" "l - 5" 5] by (simp add: diff_mult_distrib)
    then show ?thesis
      using True warmup_first_slot [of e self] e fne l(2) by (simp add: word_le_nat_alt)
  next
    case False
    have "\<not> e \<le> first_normal_epoch self" using False e fne by (simp add: word_le_nat_alt)
    moreover have "(?n div ?p) * ?p + (2 ^ l - 32) \<le> unat slot"
      using ge div_times_less_eq_dividend [of ?n ?p] by linarith
    ultimately show ?thesis
      using e fne fns small
      by (simp add: get_first_slot_in_epoch_def unat_saturating_add unat_saturating_mul
          unat_saturating_sub)
  qed
  then show ?thesis
    using ge i len spe by (simp add: mod_less_divisor)
qed

text \<open>
  C32: Slots and epochs agree.  In a schedule made by \<open>EpochSchedule::custom\<close>, with or without
  warmup and with at most \<open>2^63\<close> slots per epoch, every slot lies in the epoch \<open>get_epoch_and_slot_index\<close> gives it: it is the first
  slot of that epoch plus the index, and the index is below the length of the epoch.
\<close>

theorem slot_in_its_epoch:
  assumes "EpochSchedule_custom spe offset wu = Some self" and "unat spe \<le> 2 ^ 63"
    and "get_epoch_and_slot_index self slot = (e, i)"
  shows "unat (get_first_slot_in_epoch self e) + unat i = unat slot \<and>
         unat i < unat (get_slots_in_epoch self e)"
proof -
  from custom_wf [OF assms(1,2)] obtain l where spe: "32 \<le> unat (slots_per_epoch self)"
    and l: "5 \<le> l" "l \<le> 63" and fne: "unat (first_normal_epoch self) = l - 5"
    and fns: "unat (first_normal_slot self) = 2 ^ l - 32"
    by (auto simp: schedule_wf_def)
  show ?thesis
    using warmup_slot_in_its_epoch [OF l fne fns _ assms(3)]
      normal_slot_in_its_epoch [OF spe l fne fns _ assms(3)] by blast
qed

definition sample_schedule :: EpochSchedule where
  "sample_schedule =
     \<lparr>slots_per_epoch = 128, leader_schedule_slot_offset = 128, warmup = True,
      first_normal_epoch = 2, first_normal_slot = 96\<rparr>"

theorem slot_in_its_epoch_witness:
  "EpochSchedule_custom 128 128 True = Some sample_schedule \<and>
   get_epoch_and_slot_index sample_schedule 40 = (1, 8) \<and>
   unat (get_first_slot_in_epoch sample_schedule 1) + unat (8 :: u64) = unat (40 :: slot)"
proof -
  have *: "EpochSchedule_custom 128 128 True = Some sample_schedule"
    "get_epoch_and_slot_index sample_schedule 40 = (1, 8)"
    by (simp_all add: EpochSchedule_custom_def sample_schedule_def get_epoch_and_slot_index_def
        next_power_of_two_def trailing_zeros_def bitlen.simps count_trailing_zeros.simps
        MINIMUM_SLOTS_PER_EPOCH_def word_le_nat_alt exec)
  then show ?thesis
    using slot_in_its_epoch [OF *(1) _ *(2)] by simp
qed

end
