(* ===== verification/Sysvars.thy ===== *)
theory Sysvars
  imports BorrowedAccount Histories EpochSchedule
begin

text \<open>
  What a builtin program sees of the bank: the feature set
  (\<^verbatim>\<open>sdk/src/feature_set.rs\<close>), the cached sysvars
  (\<^verbatim>\<open>program-runtime/src/sysvar_cache.rs\<close>) and the fields of \<open>InvokeContext\<close> that only
  provide values.  A feature is named by its constant in the source; its address is not relevant
  here.  The decoding of sysvar accounts and of instruction data is \<open>bincode\<close>'s and given from
  outside.
\<close>

section \<open>Features\<close>

datatype feature =
    allow_votes_to_directly_update_vote_state
  | commission_updates_only_allowed_in_first_half_of_epoch
  | compact_vote_state_updates
  | enable_early_verification_of_account_modifications
  | filter_votes_outside_slot_hashes
  | merge_nonce_error_into_system_error
  | reject_vote_account_close_unless_zero_credit_epoch
  | system_transfer_zero_check
  | vote_authorize_with_seed
  | vote_stake_checked_instructions
  | vote_state_update_credit_per_dequeue
  | vote_state_update_root_fix
  | vote_withdraw_authority_may_change_authorized_voter

type_synonym FeatureSet = "feature \<Rightarrow> slot option"

definition is_active :: "FeatureSet \<Rightarrow> feature \<Rightarrow> bool" where
  "is_active self f \<longleftrightarrow> self f \<noteq> None"

section \<open>The sysvar cache\<close>

text \<open>\<open>UnixTimestamp\<close> is an \<open>i64\<close>.\<close>

record Clock =
  clock_slot :: slot
  epoch_start_timestamp :: int
  clock_epoch :: epoch
  leader_schedule_epoch :: epoch
  unix_timestamp :: int

record Entry =
  entry_blockhash :: hash
  entry_lamports_per_signature :: u64

record SysvarCache =
  sc_clock :: "Clock option"
  sc_epoch_schedule :: "EpochSchedule option"
  sc_fees :: "u64 option"
  sc_rent :: "Rent option"
  sc_slot_hashes :: "SlotHashes option"
  sc_recent_blockhashes :: "Entry list option"
  sc_stake_history :: "StakeHistory option"

definition SysvarCache_default :: SysvarCache where
  "SysvarCache_default =
     \<lparr>sc_clock = None, sc_epoch_schedule = None, sc_fees = None, sc_rent = None,
      sc_slot_hashes = None, sc_recent_blockhashes = None, sc_stake_history = None\<rparr>"

definition get_clock :: "SysvarCache \<Rightarrow> InstructionError + Clock" where
  "get_clock self = ok_or (sc_clock self) UnsupportedSysvar"

definition get_epoch_schedule :: "SysvarCache \<Rightarrow> InstructionError + EpochSchedule" where
  "get_epoch_schedule self = ok_or (sc_epoch_schedule self) UnsupportedSysvar"

definition get_fees :: "SysvarCache \<Rightarrow> InstructionError + u64" where
  "get_fees self = ok_or (sc_fees self) UnsupportedSysvar"

definition get_rent :: "SysvarCache \<Rightarrow> InstructionError + Rent" where
  "get_rent self = ok_or (sc_rent self) UnsupportedSysvar"

definition get_slot_hashes :: "SysvarCache \<Rightarrow> InstructionError + SlotHashes" where
  "get_slot_hashes self = ok_or (sc_slot_hashes self) UnsupportedSysvar"

definition get_recent_blockhashes :: "SysvarCache \<Rightarrow> InstructionError + Entry list" where
  "get_recent_blockhashes self = ok_or (sc_recent_blockhashes self) UnsupportedSysvar"

definition get_stake_history :: "SysvarCache \<Rightarrow> InstructionError + StakeHistory" where
  "get_stake_history self = ok_or (sc_stake_history self) UnsupportedSysvar"

definition set_clock :: "SysvarCache \<Rightarrow> Clock \<Rightarrow> SysvarCache" where
  "set_clock self c = self\<lparr>sc_clock := Some c\<rparr>"

definition set_epoch_schedule :: "SysvarCache \<Rightarrow> EpochSchedule \<Rightarrow> SysvarCache" where
  "set_epoch_schedule self s = self\<lparr>sc_epoch_schedule := Some s\<rparr>"

definition set_fees :: "SysvarCache \<Rightarrow> u64 \<Rightarrow> SysvarCache" where
  "set_fees self f = self\<lparr>sc_fees := Some f\<rparr>"

definition set_rent :: "SysvarCache \<Rightarrow> Rent \<Rightarrow> SysvarCache" where
  "set_rent self r = self\<lparr>sc_rent := Some r\<rparr>"

definition set_slot_hashes :: "SysvarCache \<Rightarrow> SlotHashes \<Rightarrow> SysvarCache" where
  "set_slot_hashes self h = self\<lparr>sc_slot_hashes := Some h\<rparr>"

definition set_recent_blockhashes :: "SysvarCache \<Rightarrow> Entry list \<Rightarrow> SysvarCache" where
  "set_recent_blockhashes self r = self\<lparr>sc_recent_blockhashes := Some r\<rparr>"

definition set_stake_history :: "SysvarCache \<Rightarrow> StakeHistory \<Rightarrow> SysvarCache" where
  "set_stake_history self h = self\<lparr>sc_stake_history := Some h\<rparr>"

definition SysvarCache_reset :: "SysvarCache \<Rightarrow> SysvarCache" where
  "SysvarCache_reset self = SysvarCache_default"

text \<open>The addresses of the sysvar accounts, from their base-58 text.\<close>

definition Clock_id :: pubkey where
  "Clock_id = 0x6a7d51718c774c928566398691d5eb68b5eb8a39b4b6d5c73555b2100000000"
definition EpochSchedule_id :: pubkey where
  "EpochSchedule_id = 0x6a7d51718dc3fee02d3e47f0100f8b054f7942e60591e3f508719a805000000"
definition Fees_id :: pubkey where
  "Fees_id = 0x6a7d51718e25a8d83503c251a7af07126fd7200df6fc4ed526a9c9000000000"
definition Rent_id :: pubkey where
  "Rent_id = 0x6a7d517192c5c51218cc94c3d4af17f58daee089ba1fd44e3dbd98a00000000"
definition SlotHashes_id :: pubkey where
  "SlotHashes_id = 0x6a7d517192f0aafc6f265e3fb77cc7ada82c529d0be3b136e2d005520000000"
definition RecentBlockhashes_id :: pubkey where
  "RecentBlockhashes_id = 0x6a7d517192c568ee08a845f73d29788cf035c3145b21ab344d8062ea9400000"
definition StakeHistory_id :: pubkey where
  "StakeHistory_id = 0x6a7d517193584d0feed9bb3431d13206be544281b57b8566cc5375ff4000000"

text \<open>The decoders of \<open>bincode::deserialize\<close> for the sysvars.\<close>

record sysvar_decoders =
  decode_clock :: "bytes \<Rightarrow> Clock option"
  decode_epoch_schedule :: "bytes \<Rightarrow> EpochSchedule option"
  decode_fees :: "bytes \<Rightarrow> u64 option"
  decode_rent :: "bytes \<Rightarrow> Rent option"
  decode_slot_hashes :: "bytes \<Rightarrow> SlotHashes option"
  decode_recent_blockhashes :: "bytes \<Rightarrow> Entry list option"
  decode_stake_history :: "bytes \<Rightarrow> StakeHistory option"

definition fill_entry ::
    "(pubkey \<Rightarrow> bytes option) \<Rightarrow> pubkey \<Rightarrow> (bytes \<Rightarrow> 'a option) \<Rightarrow> 'a option \<Rightarrow> 'a option" where
  "fill_entry get_account_data id' decode cached =
     (if cached = None then Option.bind (get_account_data id') decode else cached)"

definition fill_missing_entries ::
    "sysvar_decoders \<Rightarrow> (pubkey \<Rightarrow> bytes option) \<Rightarrow> SysvarCache \<Rightarrow> SysvarCache" where
  "fill_missing_entries dec get_account_data self =
     \<lparr>sc_clock = fill_entry get_account_data Clock_id (decode_clock dec) (sc_clock self),
      sc_epoch_schedule =
        fill_entry get_account_data EpochSchedule_id (decode_epoch_schedule dec)
          (sc_epoch_schedule self),
      sc_fees = fill_entry get_account_data Fees_id (decode_fees dec) (sc_fees self),
      sc_rent = fill_entry get_account_data Rent_id (decode_rent dec) (sc_rent self),
      sc_slot_hashes =
        fill_entry get_account_data SlotHashes_id (decode_slot_hashes dec) (sc_slot_hashes self),
      sc_recent_blockhashes =
        fill_entry get_account_data RecentBlockhashes_id (decode_recent_blockhashes dec)
          (sc_recent_blockhashes self),
      sc_stake_history =
        fill_entry get_account_data StakeHistory_id (decode_stake_history dec)
          (sc_stake_history self)\<rparr>"

section \<open>What a program is given\<close>

record InvokeEnv =
  sysvar_cache :: SysvarCache
  feature_set :: FeatureSet
  blockhash :: hash
  lamports_per_signature :: u64

definition check_sysvar_account ::
    "pubkey \<Rightarrow> TransactionContext \<Rightarrow> InstructionContext \<Rightarrow> IndexOfAccount \<Rightarrow> InstructionError + unit" where
  "check_sysvar_account id' tc ic i =
     and_then (get_index_of_instruction_account_in_transaction ic i) (\<lambda>index_in_transaction.
     and_then (get_key_of_account_at_index tc index_in_transaction) (\<lambda>key.
     if key \<noteq> id' then Inl InvalidArgument else Inr ()))"

definition sysvar_clock ::
    "InvokeEnv \<Rightarrow> TransactionContext \<Rightarrow> InstructionContext \<Rightarrow> IndexOfAccount \<Rightarrow> InstructionError + Clock" where
  "sysvar_clock env tc ic i =
     and_then (check_sysvar_account Clock_id tc ic i) (\<lambda>_. get_clock (sysvar_cache env))"

definition sysvar_rent ::
    "InvokeEnv \<Rightarrow> TransactionContext \<Rightarrow> InstructionContext \<Rightarrow> IndexOfAccount \<Rightarrow> InstructionError + Rent" where
  "sysvar_rent env tc ic i =
     and_then (check_sysvar_account Rent_id tc ic i) (\<lambda>_. get_rent (sysvar_cache env))"

definition sysvar_slot_hashes ::
    "InvokeEnv \<Rightarrow> TransactionContext \<Rightarrow> InstructionContext \<Rightarrow> IndexOfAccount \<Rightarrow> InstructionError + SlotHashes" where
  "sysvar_slot_hashes env tc ic i =
     and_then (check_sysvar_account SlotHashes_id tc ic i)
       (\<lambda>_. get_slot_hashes (sysvar_cache env))"

definition sysvar_recent_blockhashes ::
    "InvokeEnv \<Rightarrow> TransactionContext \<Rightarrow> InstructionContext \<Rightarrow> IndexOfAccount \<Rightarrow> InstructionError + Entry list" where
  "sysvar_recent_blockhashes env tc ic i =
     and_then (check_sysvar_account RecentBlockhashes_id tc ic i)
       (\<lambda>_. get_recent_blockhashes (sysvar_cache env))"

definition sysvar_stake_history ::
    "InvokeEnv \<Rightarrow> TransactionContext \<Rightarrow> InstructionContext \<Rightarrow> IndexOfAccount \<Rightarrow> InstructionError + StakeHistory" where
  "sysvar_stake_history env tc ic i =
     and_then (check_sysvar_account StakeHistory_id tc ic i)
       (\<lambda>_. get_stake_history (sysvar_cache env))"

text \<open>\<open>limited_deserialize\<close>: a failure of the decoder, which stops at the size of a packet, is
  invalid instruction data.\<close>

definition limited_deserialize :: "(bytes \<Rightarrow> 'i option) \<Rightarrow> bytes \<Rightarrow> InstructionError + 'i" where
  "limited_deserialize decode d = ok_or (decode d) InvalidInstructionData"

lemmas [exec] =
  is_active_def get_clock_def get_epoch_schedule_def get_rent_def get_slot_hashes_def
  get_recent_blockhashes_def Clock_id_def Rent_id_def SlotHashes_id_def RecentBlockhashes_id_def
  check_sysvar_account_def sysvar_clock_def sysvar_rent_def sysvar_slot_hashes_def
  sysvar_recent_blockhashes_def limited_deserialize_def

section \<open>The cache keeps what it has\<close>

lemma fill_entry_idem:
  "fill_entry g i d (fill_entry g i d c) = fill_entry g i d c"
  by (cases c) (simp_all add: fill_entry_def)

lemma fill_missing_entries_idem:
  "fill_missing_entries dec g (fill_missing_entries dec g c) = fill_missing_entries dec g c"
  by (simp add: fill_missing_entries_def fill_entry_idem)

text \<open>An entry that was set survives filling; after a reset an entry is what its account holds.\<close>

lemma fill_keeps_set:
  "get_clock (fill_missing_entries dec g (set_clock c x)) = Inr x"
  "get_rent (fill_missing_entries dec g (set_rent c r)) = Inr r"
  "get_slot_hashes (fill_missing_entries dec g (set_slot_hashes c h)) = Inr h"
  by (simp_all add: fill_missing_entries_def fill_entry_def set_clock_def set_rent_def
      set_slot_hashes_def get_clock_def get_rent_def get_slot_hashes_def)

lemma fill_after_reset:
  "get_clock (fill_missing_entries dec g (SysvarCache_reset c)) =
     ok_or (Option.bind (g Clock_id) (decode_clock dec)) UnsupportedSysvar"
  by (simp add: fill_missing_entries_def fill_entry_def SysvarCache_reset_def SysvarCache_default_def
      get_clock_def)

end
