(* ===== verification/Keys.thy ===== *)
theory Keys
  imports Errors
begin

text \<open>
  Address derivation of \<^verbatim>\<open>sdk/program/src/pubkey.rs\<close>.  SHA-256 and the ed25519 point test
  belong to third-party crates: they are the parameters \<open>sha256\<close>, a function of the bytes
  hashed (hashing several slices hashes their concatenation, as \<open>Hasher\<close> in
  \<^verbatim>\<open>sdk/program/src/hash.rs\<close> feeds them one after the other), and
  \<open>bytes_are_curve_point\<close>.  Seeds are byte strings.
\<close>

definition pubkey_bytes :: "pubkey \<Rightarrow> bytes" where
  "pubkey_bytes k = map (\<lambda>i. ucast (drop_bit (8 * (31 - i)) k)) [0..<32]"

definition MAX_SEED_LEN :: nat where "MAX_SEED_LEN = 32"
definition MAX_SEEDS :: nat where "MAX_SEEDS = 16"

text \<open>The ASCII codes of \<open>ProgramDerivedAddress\<close>.\<close>

definition PDA_MARKER :: bytes where
  "PDA_MARKER =
     [80, 114, 111, 103, 114, 97, 109, 68, 101, 114, 105, 118, 101, 100, 65, 100, 100, 114, 101,
      115, 115]"

definition hashv :: "(bytes \<Rightarrow> hash) \<Rightarrow> bytes list \<Rightarrow> hash" where
  "hashv sha256 vals = sha256 (concat vals)"

definition create_with_seed ::
    "(bytes \<Rightarrow> hash) \<Rightarrow> pubkey \<Rightarrow> bytes \<Rightarrow> pubkey \<Rightarrow> PubkeyError + pubkey" where
  "create_with_seed sha256 base seed owner =
     (if MAX_SEED_LEN < length seed then Inl PKE_MaxSeedLengthExceeded
      else
        let ow = pubkey_bytes owner
        in if length PDA_MARKER \<le> length ow \<and> drop (length ow - length PDA_MARKER) ow = PDA_MARKER
           then Inl PKE_IllegalOwner
           else Inr (hashv sha256 [pubkey_bytes base, seed, ow]))"

definition create_program_address ::
    "(bytes \<Rightarrow> hash) \<Rightarrow> (hash \<Rightarrow> bool) \<Rightarrow> bytes list \<Rightarrow> pubkey \<Rightarrow> PubkeyError + pubkey" where
  "create_program_address sha256 bytes_are_curve_point seeds program_id =
     (if MAX_SEEDS < length seeds then Inl PKE_MaxSeedLengthExceeded
      else if \<exists>seed \<in> set seeds. MAX_SEED_LEN < length seed then Inl PKE_MaxSeedLengthExceeded
      else
        let hash = hashv sha256 (seeds @ [pubkey_bytes program_id, PDA_MARKER])
        in if bytes_are_curve_point hash then Inl PKE_InvalidSeeds else Inr hash)"

text \<open>The search for a bump seed: 255 attempts, from 255 down to 1.\<close>

fun find_bump ::
    "(bytes \<Rightarrow> hash) \<Rightarrow> (hash \<Rightarrow> bool) \<Rightarrow> bytes list \<Rightarrow> pubkey \<Rightarrow> nat \<Rightarrow> u8 \<Rightarrow> (pubkey \<times> u8) option" where
  "find_bump sha256 curve seeds program_id 0 bump_seed = None"
| "find_bump sha256 curve seeds program_id (Suc n) bump_seed =
     (case create_program_address sha256 curve (seeds @ [[bump_seed]]) program_id of
        Inr address \<Rightarrow> Some (address, bump_seed)
      | Inl PKE_InvalidSeeds \<Rightarrow> find_bump sha256 curve seeds program_id n (bump_seed - 1)
      | Inl _ \<Rightarrow> None)"

definition try_find_program_address ::
    "(bytes \<Rightarrow> hash) \<Rightarrow> (hash \<Rightarrow> bool) \<Rightarrow> bytes list \<Rightarrow> pubkey \<Rightarrow> (pubkey \<times> u8) option" where
  "try_find_program_address sha256 curve seeds program_id =
     find_bump sha256 curve seeds program_id 255 255"

lemmas [exec] =
  MAX_SEED_LEN_def MAX_SEEDS_def PDA_MARKER_def hashv_def create_with_seed_def
  create_program_address_def

section \<open>Derived addresses\<close>

lemma length_pubkey_bytes [simp]: "length (pubkey_bytes k) = 32"
  by (simp add: pubkey_bytes_def)

lemma length_PDA_MARKER [simp]: "length PDA_MARKER = 21"
  by (simp add: PDA_MARKER_def)

lemma find_bump_Some:
  assumes "find_bump sha256 curve seeds pid n b = Some (address, bump)" and "n \<le> unat b"
  shows "create_program_address sha256 curve (seeds @ [[bump]]) pid = Inr address \<and>
     bump \<le> b \<and> unat b - n < unat bump \<and>
     (\<forall>c. bump < c \<and> c \<le> b \<longrightarrow>
        create_program_address sha256 curve (seeds @ [[c]]) pid = Inl PKE_InvalidSeeds)"
  using assms
proof (induction n arbitrary: b)
  case (Suc n)
  show ?case
  proof (cases "create_program_address sha256 curve (seeds @ [[b]]) pid")
    case (Inr a)
    with Suc.prems show ?thesis by (auto simp: not_less)
  next
    case (Inl err)
    with Suc.prems have err: "err = PKE_InvalidSeeds"
      and rest: "find_bump sha256 curve seeds pid n (b - 1) = Some (address, bump)"
      by (auto split: PubkeyError.splits)
    have b1: "unat (b - 1) = unat b - 1"
      using Suc.prems(2) unat_minus_no_borrow [of 1 b] by (simp add: word_le_nat_alt)
    then have "n \<le> unat (b - 1)" using Suc.prems(2) by simp
    note IH = Suc.IH [OF rest this]
    have "c \<le> b - 1 \<or> c = b" if "c \<le> b" for c
    proof (cases "c = b")
      case False
      with that have "c < b" by simp
      then have "unat c \<le> unat (b - 1)" using b1 by (simp add: word_less_nat_alt)
      then show ?thesis by (simp add: word_le_nat_alt)
    qed simp
    then show ?thesis
      using IH Inl err b1 Suc.prems(2) by (auto simp: word_le_nat_alt)
  qed
qed simp

text \<open>
  C33: A program address that \<open>try_find_program_address\<close> returns is what
  \<open>create_program_address\<close> derives from the seeds with the bump appended, it is not a point of
  the curve, the bump is at least 1, and every larger bump yields a point of the curve: the
  search returns the canonical bump.
\<close>

theorem try_find_program_address_canonical:
  assumes "try_find_program_address sha256 curve seeds pid = Some (address, bump)"
  shows "create_program_address sha256 curve (seeds @ [[bump]]) pid = Inr address \<and>
     \<not> curve address \<and> 1 \<le> unat bump \<and>
     (\<forall>c. bump < c \<longrightarrow>
        create_program_address sha256 curve (seeds @ [[c]]) pid = Inl PKE_InvalidSeeds)"
proof -
  have found: "create_program_address sha256 curve (seeds @ [[bump]]) pid = Inr address"
    "unat (255 :: u8) - 255 < unat bump"
    "\<forall>c. bump < c \<and> c \<le> 255 \<longrightarrow>
        create_program_address sha256 curve (seeds @ [[c]]) pid = Inl PKE_InvalidSeeds"
    using find_bump_Some [OF assms [unfolded try_find_program_address_def]] by simp_all
  have "c \<le> 255" for c :: u8
    using unsigned_less [of c, where ?'a = nat] by (simp add: word_le_nat_alt)
  moreover have "\<not> curve address"
    using found(1) by (auto simp: create_program_address_def Let_def split: if_splits)
  ultimately show ?thesis using found by auto
qed

text \<open>
  The domains of the two derivations are apart: what is hashed for an address with a seed never
  ends in the marker, what is hashed for a program address always does.
\<close>

definition seed_preimage :: "pubkey \<Rightarrow> bytes \<Rightarrow> pubkey \<Rightarrow> bytes" where
  "seed_preimage base seed owner = pubkey_bytes base @ seed @ pubkey_bytes owner"

definition program_preimage :: "bytes list \<Rightarrow> pubkey \<Rightarrow> bytes" where
  "program_preimage seeds pid = concat seeds @ pubkey_bytes pid @ PDA_MARKER"

lemma drop_tail: "drop (length (xs @ ys) - n) (xs @ ys) = drop (length ys - n) ys" if "n \<le> length ys"
  using that by simp

text \<open>
  C34: Addresses with a seed cannot be forged as program addresses.  When both derivations
  succeed, the addresses are the hashes of two different byte strings, so an account created
  with a seed coincides with a program address only through a collision of the hash function on
  these two strings.
\<close>

theorem derivation_domains_disjoint:
  assumes "create_with_seed sha256 base seed owner = Inr k"
    and "create_program_address sha256 curve seeds pid = Inr k'"
  shows "k = sha256 (seed_preimage base seed owner) \<and> k' = sha256 (program_preimage seeds pid) \<and>
         seed_preimage base seed owner \<noteq> program_preimage seeds pid"
proof -
  have "drop (length (seed_preimage base seed owner) - 21) (seed_preimage base seed owner) \<noteq> PDA_MARKER"
    using assms(1) drop_tail [of 21 "pubkey_bytes owner" "pubkey_bytes base @ seed"]
    by (auto simp: create_with_seed_def seed_preimage_def Let_def split: if_splits)
  moreover have "drop (length (program_preimage seeds pid) - 21) (program_preimage seeds pid) = PDA_MARKER"
    using drop_tail [of 21 PDA_MARKER "concat seeds @ pubkey_bytes pid"]
    by (simp add: program_preimage_def)
  moreover have "k = sha256 (seed_preimage base seed owner)" "k' = sha256 (program_preimage seeds pid)"
    using assms by (auto simp: create_with_seed_def create_program_address_def seed_preimage_def
        program_preimage_def hashv_def Let_def split: if_splits)
  ultimately show ?thesis by metis
qed

definition sample_sha256 :: "bytes \<Rightarrow> hash" where
  "sample_sha256 d = of_nat (length d)"

theorem try_find_program_address_canonical_witness:
  "try_find_program_address sample_sha256 (\<lambda>h. h = 0) [[1, 2]] 5 = Some (56, 255) \<and>
   create_program_address sample_sha256 (\<lambda>h. h = 0) ([[1, 2]] @ [[255]]) 5 = Inr 56"
proof -
  have "find_bump sample_sha256 (\<lambda>h. h = 0) [[1, 2]] 5 (Suc 254) 255 = Some (56, 255)"
    by (subst find_bump.simps) (simp add: sample_sha256_def exec)
  then have found: "try_find_program_address sample_sha256 (\<lambda>h. h = 0) [[1, 2]] 5 = Some (56, 255)"
    by (simp add: try_find_program_address_def)
  from try_find_program_address_canonical [OF this] found show ?thesis by simp
qed

theorem derivation_domains_disjoint_witness:
  "create_with_seed sample_sha256 1 [7] 2 = Inr 65 \<and>
   create_program_address sample_sha256 (\<lambda>h. h = 0) [[1, 2]] 5 = Inr 55 \<and>
   seed_preimage 1 [7] 2 \<noteq> program_preimage [[1, 2]] 5"
proof -
  have a: "create_with_seed sample_sha256 1 [7] 2 = Inr 65"
    by (simp add: sample_sha256_def pubkey_bytes_def exec)
  have b: "create_program_address sample_sha256 (\<lambda>h. h = 0) [[1, 2]] 5 = Inr 55"
    by (simp add: sample_sha256_def exec)
  from derivation_domains_disjoint [OF a b] a b show ?thesis by simp
qed

end
