(* ===== verification/Nonce.thy ===== *)
theory Nonce
  imports BuiltinProgram Sysvars Keys
begin

text \<open>
  Durable transaction nonces: the state of \<^verbatim>\<open>sdk/program/src/nonce/state\<close> and the handlers of
  \<^verbatim>\<open>runtime/src/nonce_keyed_account.rs\<close>.  A handler on a borrowed account takes the account and
  the context and returns the new context; \<open>withdraw_nonce_account\<close> borrows two accounts itself.
  The log messages of the source are left out.
\<close>

section \<open>State\<close>

record NonceData =
  authority :: pubkey
  durable_nonce :: hash
  nonce_lamports_per_signature :: u64

datatype NonceState = Uninitialized | Initialized NonceData

datatype NonceVersions = Legacy NonceState | Current NonceState

datatype AuthorizeNonceError = ANE_MissingRequiredSignature pubkey | ANE_Uninitialized

definition NonceData_new :: "pubkey \<Rightarrow> hash \<Rightarrow> u64 \<Rightarrow> NonceData" where
  "NonceData_new a n l = \<lparr>authority = a, durable_nonce = n, nonce_lamports_per_signature = l\<rparr>"

text \<open>\<open>DURABLE_NONCE_HASH_PREFIX\<close> is the ASCII text \<open>DURABLE_NONCE\<close>.\<close>

definition DURABLE_NONCE_HASH_PREFIX :: bytes where
  "DURABLE_NONCE_HASH_PREFIX = [68, 85, 82, 65, 66, 76, 69, 95, 78, 79, 78, 67, 69]"

definition from_blockhash :: "(bytes \<Rightarrow> hash) \<Rightarrow> hash \<Rightarrow> hash" where
  "from_blockhash sha256 h = hashv sha256 [DURABLE_NONCE_HASH_PREFIX, pubkey_bytes h]"

definition NonceState_size :: nat where
  "NonceState_size = 80"

definition NonceVersions_new :: "NonceState \<Rightarrow> NonceVersions" where
  "NonceVersions_new st = Current st"

fun nonce_state :: "NonceVersions \<Rightarrow> NonceState" where
  "nonce_state (Legacy st) = st"
| "nonce_state (Current st) = st"

fun verify_recent_blockhash :: "NonceVersions \<Rightarrow> hash \<Rightarrow> NonceData option" where
  "verify_recent_blockhash (Legacy _) h = None"
| "verify_recent_blockhash (Current Uninitialized) h = None"
| "verify_recent_blockhash (Current (Initialized d)) h = (if h = durable_nonce d then Some d else None)"

fun upgrade :: "(bytes \<Rightarrow> hash) \<Rightarrow> NonceVersions \<Rightarrow> NonceVersions option" where
  "upgrade sha256 (Legacy Uninitialized) = None"
| "upgrade sha256 (Legacy (Initialized d)) =
     Some (Current (Initialized (d\<lparr>durable_nonce := from_blockhash sha256 (durable_nonce d)\<rparr>)))"
| "upgrade sha256 (Current _) = None"

definition nonce_authorize ::
    "NonceVersions \<Rightarrow> pubkey set \<Rightarrow> pubkey \<Rightarrow> AuthorizeNonceError + NonceVersions" where
  "nonce_authorize self signers new_authority =
     (case nonce_state self of
        Uninitialized \<Rightarrow> Inl ANE_Uninitialized
      | Initialized d \<Rightarrow>
          if authority d \<notin> signers then Inl (ANE_MissingRequiredSignature (authority d))
          else
            let st = Initialized (NonceData_new new_authority (durable_nonce d)
                       (nonce_lamports_per_signature d))
            in Inr (case self of Legacy _ \<Rightarrow> Legacy st | Current _ \<Rightarrow> Current st))"

section \<open>Handlers\<close>

definition advance_nonce_account ::
    "(bytes \<Rightarrow> hash) \<Rightarrow> NonceVersions bincode \<Rightarrow> InvokeEnv \<Rightarrow> pubkey set \<Rightarrow> BorrowedAccount
       \<Rightarrow> TransactionContext \<Rightarrow> InstructionError + TransactionContext" where
  "advance_nonce_account sha256 bc env signers account tc =
     (let merge = is_active (feature_set env) merge_nonce_error_into_system_error in
      if \<not> is_writable account then Inl InvalidArgument
      else
        and_then (get_state bc account tc) (\<lambda>state.
        case nonce_state state of
          Initialized d \<Rightarrow>
            if authority d \<notin> signers then Inl MissingRequiredSignature
            else
              let next_durable_nonce = from_blockhash sha256 (blockhash env) in
              if durable_nonce d = next_durable_nonce
              then Inl (nonce_to_instruction_error NE_NotExpired merge)
              else
                let new_data = NonceData_new (authority d) next_durable_nonce (lamports_per_signature env)
                in set_state bc account (NonceVersions_new (Initialized new_data)) tc
        | Uninitialized \<Rightarrow> Inl (nonce_to_instruction_error NE_BadAccountState merge)))"

text \<open>
  The first half of \<open>withdraw_nonce_account\<close>: the checks on the nonce account and the key that
  must have signed.
\<close>

definition withdraw_nonce_signer ::
    "(bytes \<Rightarrow> hash) \<Rightarrow> NonceVersions bincode \<Rightarrow> InvokeEnv \<Rightarrow> u64 \<Rightarrow> Rent \<Rightarrow> BorrowedAccount
       \<Rightarrow> TransactionContext \<Rightarrow> InstructionError + (pubkey \<times> TransactionContext)" where
  "withdraw_nonce_signer sha256 bc env l rent from tc =
     (let merge = is_active (feature_set env) merge_nonce_error_into_system_error in
      if \<not> is_writable from then Inl InvalidArgument
      else
        and_then (get_state bc from tc) (\<lambda>state.
        case nonce_state state of
          Uninitialized \<Rightarrow>
            if get_lamports from tc < l then Inl InsufficientFunds else Inr (ba_key from tc, tc)
        | Initialized d \<Rightarrow>
            if l = get_lamports from tc then
              if durable_nonce d = from_blockhash sha256 (blockhash env)
              then Inl (nonce_to_instruction_error NE_NotExpired merge)
              else
                and_then (set_state bc from (NonceVersions_new Uninitialized) tc)
                  (\<lambda>tc. Inr (authority d, tc))
            else
              let min_balance = minimum_balance rent (length (get_data from tc)) in
              and_then (ok_or (checked_add l min_balance) InsufficientFunds) (\<lambda>amount.
              if get_lamports from tc < amount then Inl InsufficientFunds
              else Inr (authority d, tc))))"

definition withdraw_nonce_account ::
    "(bytes \<Rightarrow> hash) \<Rightarrow> NonceVersions bincode \<Rightarrow> InvokeEnv \<Rightarrow> IndexOfAccount \<Rightarrow> u64 \<Rightarrow> IndexOfAccount
       \<Rightarrow> Rent \<Rightarrow> pubkey set \<Rightarrow> InstructionContext \<Rightarrow> TransactionContext
       \<Rightarrow> InstructionError + TransactionContext" where
  "withdraw_nonce_account sha256 bc env from_account_index l to_account_index rent signers ic tc =
     and_then
       (with_instruction_account ic tc from_account_index (\<lambda>from tc.
          and_then (withdraw_nonce_signer sha256 bc env l rent from tc) (\<lambda>(signer, tc).
          if signer \<notin> signers then Inl MissingRequiredSignature
          else checked_sub_lamports from l tc)))
       (\<lambda>tc. with_instruction_account ic tc to_account_index (\<lambda>to tc. checked_add_lamports to l tc))"

definition initialize_nonce_account ::
    "(bytes \<Rightarrow> hash) \<Rightarrow> NonceVersions bincode \<Rightarrow> InvokeEnv \<Rightarrow> pubkey \<Rightarrow> Rent \<Rightarrow> BorrowedAccount
       \<Rightarrow> TransactionContext \<Rightarrow> InstructionError + TransactionContext" where
  "initialize_nonce_account sha256 bc env nonce_authority rent account tc =
     (let merge = is_active (feature_set env) merge_nonce_error_into_system_error in
      if \<not> is_writable account then Inl InvalidArgument
      else
        and_then (get_state bc account tc) (\<lambda>state.
        case nonce_state state of
          Uninitialized \<Rightarrow>
            let min_balance = minimum_balance rent (length (get_data account tc)) in
            if get_lamports account tc < min_balance then Inl InsufficientFunds
            else
              let d = NonceData_new nonce_authority (from_blockhash sha256 (blockhash env))
                        (lamports_per_signature env)
              in set_state bc account (NonceVersions_new (Initialized d)) tc
        | Initialized _ \<Rightarrow> Inl (nonce_to_instruction_error NE_BadAccountState merge)))"

definition authorize_nonce_account ::
    "NonceVersions bincode \<Rightarrow> InvokeEnv \<Rightarrow> pubkey \<Rightarrow> pubkey set \<Rightarrow> BorrowedAccount
       \<Rightarrow> TransactionContext \<Rightarrow> InstructionError + TransactionContext" where
  "authorize_nonce_account bc env nonce_authority signers account tc =
     (let merge = is_active (feature_set env) merge_nonce_error_into_system_error in
      if \<not> is_writable account then Inl InvalidArgument
      else
        and_then (get_state bc account tc) (\<lambda>state.
        case nonce_authorize state signers nonce_authority of
          Inr versions \<Rightarrow> set_state bc account versions tc
        | Inl ANE_Uninitialized \<Rightarrow> Inl (nonce_to_instruction_error NE_BadAccountState merge)
        | Inl (ANE_MissingRequiredSignature _) \<Rightarrow> Inl MissingRequiredSignature))"

section \<open>What the handlers do when they succeed\<close>

lemma advance_nonce_account_Inr:
  assumes "advance_nonce_account sha256 bc env signers ba tc = Inr tc'"
  obtains v d where "is_writable ba" "get_state bc ba tc = Inr v" "nonce_state v = Initialized d"
    "authority d \<in> signers" "durable_nonce d \<noteq> from_blockhash sha256 (blockhash env)"
    "set_state bc ba (Current (Initialized (NonceData_new (authority d)
       (from_blockhash sha256 (blockhash env)) (lamports_per_signature env)))) tc = Inr tc'"
proof (cases "get_state bc ba tc")
  case (Inr v)
  with assms that show ?thesis
    by (cases "nonce_state v")
       (auto simp: advance_nonce_account_def NonceVersions_new_def Let_def split: if_splits)
qed (use assms in \<open>auto simp: advance_nonce_account_def Let_def split: if_splits\<close>)

lemma initialize_nonce_account_Inr:
  assumes "initialize_nonce_account sha256 bc env a rent ba tc = Inr tc'"
  obtains v where "is_writable ba" "get_state bc ba tc = Inr v" "nonce_state v = Uninitialized"
    "minimum_balance rent (length (get_data ba tc)) \<le> get_lamports ba tc"
    "set_state bc ba (Current (Initialized (NonceData_new a
       (from_blockhash sha256 (blockhash env)) (lamports_per_signature env)))) tc = Inr tc'"
proof (cases "get_state bc ba tc")
  case (Inr v)
  with assms that show ?thesis
    by (cases "nonce_state v")
       (auto simp: initialize_nonce_account_def NonceVersions_new_def Let_def not_less split: if_splits)
qed (use assms in \<open>auto simp: initialize_nonce_account_def Let_def split: if_splits\<close>)

lemma authorize_nonce_account_Inr:
  assumes "authorize_nonce_account bc env a signers ba tc = Inr tc'"
  obtains v w where "is_writable ba" "get_state bc ba tc = Inr v"
    "nonce_authorize v signers a = Inr w" "set_state bc ba w tc = Inr tc'"
proof (cases "get_state bc ba tc")
  case (Inr v)
  with assms that show ?thesis
    by (auto simp: authorize_nonce_account_def Let_def
        split: if_splits sum.splits AuthorizeNonceError.splits)
qed (use assms in \<open>auto simp: authorize_nonce_account_def Let_def split: if_splits\<close>)

text \<open>The checks of a withdrawal leave the account as it is or reset it to be uninitialized.\<close>

lemma withdraw_nonce_signer_Inr:
  assumes "withdraw_nonce_signer sha256 bc env l rent ba tc = Inr (k, tc')"
  obtains (uninitialized) v where "is_writable ba" "get_state bc ba tc = Inr v"
      "nonce_state v = Uninitialized" "l \<le> get_lamports ba tc" "k = ba_key ba tc" "tc' = tc"
  | (close) v d where "is_writable ba" "get_state bc ba tc = Inr v" "nonce_state v = Initialized d"
      "l = get_lamports ba tc" "durable_nonce d \<noteq> from_blockhash sha256 (blockhash env)"
      "k = authority d" "set_state bc ba (Current Uninitialized) tc = Inr tc'"
  | (keep) v d where "is_writable ba" "get_state bc ba tc = Inr v" "nonce_state v = Initialized d"
      "l \<noteq> get_lamports ba tc" "k = authority d" "tc' = tc"
      "unat l + unat (minimum_balance rent (length (get_data ba tc))) \<le> unat (get_lamports ba tc)"
proof (cases "get_state bc ba tc")
  case (Inr v)
  show ?thesis
  proof (cases "nonce_state v")
    case Uninitialized
    with Inr assms have "is_writable ba" "l \<le> get_lamports ba tc" "k = ba_key ba tc" "tc' = tc"
      by (auto simp: withdraw_nonce_signer_def Let_def not_less split: if_splits)
    with that(1) Inr Uninitialized show ?thesis by blast
  next
    case (Initialized d)
    show ?thesis
    proof (cases "l = get_lamports ba tc")
      case True
      with Inr Initialized assms have "is_writable ba" "k = authority d"
        "durable_nonce d \<noteq> from_blockhash sha256 (blockhash env)"
        "set_state bc ba (Current Uninitialized) tc = Inr tc'"
        by (auto simp: withdraw_nonce_signer_def NonceVersions_new_def Let_def result_simps split: if_splits)
      with that(2) Inr Initialized True show ?thesis by blast
    next
      case False
      with Inr Initialized assms obtain amount where
        "checked_add l (minimum_balance rent (length (get_data ba tc))) = Some amount"
        "\<not> get_lamports ba tc < amount" "is_writable ba" "k = authority d" "tc' = tc"
        by (auto simp: withdraw_nonce_signer_def Let_def result_simps split: if_splits)
      moreover have "unat l + unat (minimum_balance rent (length (get_data ba tc))) \<le> unat (get_lamports ba tc)"
        using checked_add_Some [OF calculation(1)] calculation(2) by (simp add: word_less_nat_alt)
      ultimately show ?thesis
        using that(3) [OF _ Inr Initialized False] by blast
    qed
  qed
qed (use assms in \<open>auto simp: withdraw_nonce_signer_def Let_def split: if_splits\<close>)

section \<open>The handlers are steps of the program and keep the lamports\<close>

lemma advance_nonce_account_neutral:
  "\<lbrakk>advance_nonce_account sha256 bc env signers ba tc = Inr tc'; instruction_ba ic ba; in_range ba tc\<rbrakk>
    \<Longrightarrow> neutral_run ic tc tc'"
  by (erule advance_nonce_account_Inr) (rule state_write.neutral)

lemma initialize_nonce_account_neutral:
  "\<lbrakk>initialize_nonce_account sha256 bc env a rent ba tc = Inr tc'; instruction_ba ic ba; in_range ba tc\<rbrakk>
    \<Longrightarrow> neutral_run ic tc tc'"
  by (erule initialize_nonce_account_Inr) (rule state_write.neutral)

lemma authorize_nonce_account_neutral:
  "\<lbrakk>authorize_nonce_account bc env a signers ba tc = Inr tc'; instruction_ba ic ba; in_range ba tc\<rbrakk>
    \<Longrightarrow> neutral_run ic tc tc'"
  by (erule authorize_nonce_account_Inr) (rule state_write.neutral)

lemma withdraw_nonce_signer_neutral:
  "\<lbrakk>withdraw_nonce_signer sha256 bc env l rent ba tc = Inr (k, tc'); instruction_ba ic ba; in_range ba tc\<rbrakk>
    \<Longrightarrow> neutral_run ic tc tc'"
  by (erule withdraw_nonce_signer_Inr) (auto dest: state_write.neutral)

lemma withdraw_nonce_account_neutral:
  assumes "withdraw_nonce_account sha256 bc env i l j rent signers ic tc = Inr tc'"
  shows "neutral_run ic tc tc'"
proof -
  let ?body = "\<lambda>from tc. and_then (withdraw_nonce_signer sha256 bc env l rent from tc) (\<lambda>(signer, tc).
      if signer \<notin> signers then Inl MissingRequiredSignature else checked_sub_lamports from l tc)"
  from assms obtain tc1 where debit: "with_instruction_account ic tc i ?body = Inr tc1"
    and credit: "with_instruction_account ic tc1 j (\<lambda>to tc. checked_add_lamports to l tc) = Inr tc'"
    by (auto simp: withdraw_nonce_account_def result_simps)
  from debit credit show ?thesis
    by (rule debit_credit_neutral)
       (auto simp: result_simps split: if_splits dest: withdraw_nonce_signer_neutral)
qed

end
