(* ===== verification/SystemProgram.thy ===== *)
theory SystemProgram
  imports Nonce
begin

text \<open>
  \<^verbatim>\<open>runtime/src/system_instruction_processor.rs\<close>: the system program, which creates, funds and
  assigns accounts and runs the nonce instructions.  The instruction data is decoded by
  \<open>bincode\<close> (parameter \<open>decode\<close>); \<open>sha256\<close> and the codec \<open>bc\<close> of nonce accounts are
  parameters too.  Log messages are left out; they decide nothing, except that the message of a
  missing signature, when messages are collected, looks up the key of the account and may fail
  instead, which the model keeps.
\<close>

section \<open>Instructions\<close>

datatype SystemInstruction =
    CreateAccount u64 u64 pubkey
  | Assign pubkey
  | Transfer u64
  | CreateAccountWithSeed pubkey bytes u64 u64 pubkey
  | AdvanceNonceAccount
  | WithdrawNonceAccount u64
  | InitializeNonceAccount pubkey
  | AuthorizeNonceAccount pubkey
  | Allocate u64
  | AllocateWithSeed pubkey bytes u64 pubkey
  | AssignWithSeed pubkey bytes pubkey
  | TransferWithSeed u64 bytes pubkey
  | UpgradeNonceAccount

definition system_program_id :: pubkey where
  "system_program_id = 0"

section \<open>Addresses\<close>

record Address =
  address :: pubkey
  base :: "pubkey option"

definition Address_is_signer :: "Address \<Rightarrow> pubkey set \<Rightarrow> bool" where
  "Address_is_signer self signers =
     (case base self of Some b \<Rightarrow> b \<in> signers | None \<Rightarrow> address self \<in> signers)"

definition Address_create ::
    "(bytes \<Rightarrow> hash) \<Rightarrow> pubkey \<Rightarrow> (pubkey \<times> bytes \<times> pubkey) option \<Rightarrow> InstructionError + Address" where
  "Address_create sha256 addr with_seed =
     (case with_seed of
        Some (b, seed, ow) \<Rightarrow>
          and_then (map_err pubkey_error (create_with_seed sha256 b seed ow)) (\<lambda>address_with_seed.
          if addr \<noteq> address_with_seed then Inl (system_error SE_AddressWithSeedMismatch)
          else Inr \<lparr>address = addr, base = Some b\<rparr>)
      | None \<Rightarrow> Inr \<lparr>address = addr, base = None\<rparr>)"

section \<open>Operations\<close>

definition allocate ::
    "BorrowedAccount \<Rightarrow> Address \<Rightarrow> u64 \<Rightarrow> pubkey set \<Rightarrow> TransactionContext
       \<Rightarrow> InstructionError + TransactionContext" where
  "allocate account addr space signers tc =
     (if \<not> Address_is_signer addr signers then Inl MissingRequiredSignature
      else if get_data account tc \<noteq> [] \<or> get_owner account tc \<noteq> system_program_id
      then Inl (system_error SE_AccountAlreadyInUse)
      else if MAX_PERMITTED_DATA_LENGTH < space
      then Inl (system_error SE_InvalidAccountDataLength)
      else set_data_length account (unat space) tc)"

definition assign ::
    "BorrowedAccount \<Rightarrow> Address \<Rightarrow> pubkey \<Rightarrow> pubkey set \<Rightarrow> TransactionContext
       \<Rightarrow> InstructionError + TransactionContext" where
  "assign account addr ow signers tc =
     (if get_owner account tc = ow then Inr tc
      else if \<not> Address_is_signer addr signers then Inl MissingRequiredSignature
      else set_owner account ow tc)"

definition allocate_and_assign ::
    "BorrowedAccount \<Rightarrow> Address \<Rightarrow> u64 \<Rightarrow> pubkey \<Rightarrow> pubkey set \<Rightarrow> TransactionContext
       \<Rightarrow> InstructionError + TransactionContext" where
  "allocate_and_assign to to_address space ow signers tc =
     and_then (allocate to to_address space signers tc) (\<lambda>tc. assign to to_address ow signers tc)"

definition transfer_verified ::
    "IndexOfAccount \<Rightarrow> IndexOfAccount \<Rightarrow> u64 \<Rightarrow> InstructionContext \<Rightarrow> TransactionContext
       \<Rightarrow> InstructionError + TransactionContext" where
  "transfer_verified from_account_index to_account_index l ic tc =
     and_then
       (with_instruction_account ic tc from_account_index (\<lambda>from tc.
          if get_data from tc \<noteq> [] then Inl InvalidArgument
          else if get_lamports from tc < l then Inl (system_error SE_ResultWithNegativeLamports)
          else checked_sub_lamports from l tc))
       (\<lambda>tc. with_instruction_account ic tc to_account_index (\<lambda>to tc. checked_add_lamports to l tc))"

definition transfer ::
    "InvokeEnv \<Rightarrow> IndexOfAccount \<Rightarrow> IndexOfAccount \<Rightarrow> u64 \<Rightarrow> InstructionContext \<Rightarrow> TransactionContext
       \<Rightarrow> InstructionError + TransactionContext" where
  "transfer env from_account_index to_account_index l ic tc =
     (if \<not> is_active (feature_set env) system_transfer_zero_check \<and> l = 0 then Inr tc
      else
        and_then (is_instruction_account_signer ic from_account_index) (\<lambda>signer.
        if \<not> signer
        then and_then (instruction_account_key ic tc from_account_index) (\<lambda>_. Inl MissingRequiredSignature)
        else transfer_verified from_account_index to_account_index l ic tc))"

definition create_account ::
    "InvokeEnv \<Rightarrow> IndexOfAccount \<Rightarrow> IndexOfAccount \<Rightarrow> Address \<Rightarrow> u64 \<Rightarrow> u64 \<Rightarrow> pubkey \<Rightarrow> pubkey set
       \<Rightarrow> InstructionContext \<Rightarrow> TransactionContext \<Rightarrow> InstructionError + TransactionContext" where
  "create_account env from_account_index to_account_index to_address l space ow signers ic tc =
     and_then
       (with_instruction_account ic tc to_account_index (\<lambda>to tc.
          if 0 < get_lamports to tc then Inl (system_error SE_AccountAlreadyInUse)
          else allocate_and_assign to to_address space ow signers tc))
       (\<lambda>tc. transfer env from_account_index to_account_index l ic tc)"

definition transfer_with_seed ::
    "(bytes \<Rightarrow> hash) \<Rightarrow> InvokeEnv \<Rightarrow> IndexOfAccount \<Rightarrow> IndexOfAccount \<Rightarrow> bytes \<Rightarrow> pubkey
       \<Rightarrow> IndexOfAccount \<Rightarrow> u64 \<Rightarrow> InstructionContext \<Rightarrow> TransactionContext
       \<Rightarrow> InstructionError + TransactionContext" where
  "transfer_with_seed sha256 env from_account_index from_base_account_index from_seed from_owner
       to_account_index l ic tc =
     (if \<not> is_active (feature_set env) system_transfer_zero_check \<and> l = 0 then Inr tc
      else
        and_then (is_instruction_account_signer ic from_base_account_index) (\<lambda>signer.
        if \<not> signer
        then and_then (instruction_account_key ic tc from_base_account_index)
               (\<lambda>_. Inl MissingRequiredSignature)
        else
          and_then (instruction_account_key ic tc from_base_account_index) (\<lambda>base_key.
          and_then (map_err pubkey_error (create_with_seed sha256 base_key from_seed from_owner))
            (\<lambda>address_from_seed.
          and_then (instruction_account_key ic tc from_account_index) (\<lambda>from_key.
          if from_key \<noteq> address_from_seed then Inl (system_error SE_AddressWithSeedMismatch)
          else transfer_verified from_account_index to_account_index l ic tc)))))"

section \<open>The entry point\<close>

definition upgrade_nonce_account ::
    "(bytes \<Rightarrow> hash) \<Rightarrow> NonceVersions bincode \<Rightarrow> BorrowedAccount \<Rightarrow> TransactionContext
       \<Rightarrow> InstructionError + TransactionContext" where
  "upgrade_nonce_account sha256 bc nonce_account tc =
     (if get_owner nonce_account tc \<noteq> system_program_id then Inl InvalidAccountOwner
      else if \<not> is_writable nonce_account then Inl InvalidArgument
      else
        and_then (get_state bc nonce_account tc) (\<lambda>nonce_versions.
        case upgrade sha256 nonce_versions of
          None \<Rightarrow> Inl InvalidArgument
        | Some nonce_versions \<Rightarrow> set_state bc nonce_account nonce_versions tc))"

text \<open>One arm of the match of \<open>process_instruction\<close> per instruction.\<close>

definition process_system_instruction ::
    "(bytes \<Rightarrow> hash) \<Rightarrow> NonceVersions bincode \<Rightarrow> InvokeEnv \<Rightarrow> SystemInstruction \<Rightarrow> pubkey set
       \<Rightarrow> InstructionContext \<Rightarrow> TransactionContext \<Rightarrow> InstructionError + TransactionContext" where
  "process_system_instruction sha256 bc env instruction signers ic tc =
     (case instruction of
        CreateAccount l space ow \<Rightarrow>
          and_then (check_number_of_instruction_accounts ic 2) (\<lambda>_.
          and_then (instruction_account_key ic tc 1) (\<lambda>key.
          and_then (Address_create sha256 key None) (\<lambda>to_address.
          create_account env 0 1 to_address l space ow signers ic tc)))
      | CreateAccountWithSeed b seed l space ow \<Rightarrow>
          and_then (check_number_of_instruction_accounts ic 2) (\<lambda>_.
          and_then (instruction_account_key ic tc 1) (\<lambda>key.
          and_then (Address_create sha256 key (Some (b, seed, ow))) (\<lambda>to_address.
          create_account env 0 1 to_address l space ow signers ic tc)))
      | Assign ow \<Rightarrow>
          and_then (check_number_of_instruction_accounts ic 1) (\<lambda>_.
          with_instruction_account ic tc 0 (\<lambda>account tc.
          and_then (instruction_account_key ic tc 0) (\<lambda>key.
          and_then (Address_create sha256 key None) (\<lambda>addr.
          assign account addr ow signers tc))))
      | Transfer l \<Rightarrow>
          and_then (check_number_of_instruction_accounts ic 2) (\<lambda>_. transfer env 0 1 l ic tc)
      | TransferWithSeed l from_seed from_owner \<Rightarrow>
          and_then (check_number_of_instruction_accounts ic 3) (\<lambda>_.
          transfer_with_seed sha256 env 0 1 from_seed from_owner 2 l ic tc)
      | AdvanceNonceAccount \<Rightarrow>
          and_then (check_number_of_instruction_accounts ic 1) (\<lambda>_.
          with_instruction_account ic tc 0 (\<lambda>me tc.
          and_then (sysvar_recent_blockhashes env tc ic 1) (\<lambda>recent_blockhashes.
          if recent_blockhashes = [] then Inl (nonce_error NE_NoRecentBlockhashes)
          else advance_nonce_account sha256 bc env signers me tc)))
      | WithdrawNonceAccount l \<Rightarrow>
          and_then (check_number_of_instruction_accounts ic 2) (\<lambda>_.
          and_then (sysvar_recent_blockhashes env tc ic 2) (\<lambda>_.
          and_then (sysvar_rent env tc ic 3) (\<lambda>rent.
          withdraw_nonce_account sha256 bc env 0 l 1 rent signers ic tc)))
      | InitializeNonceAccount authorized \<Rightarrow>
          and_then (check_number_of_instruction_accounts ic 1) (\<lambda>_.
          with_instruction_account ic tc 0 (\<lambda>me tc.
          and_then (sysvar_recent_blockhashes env tc ic 1) (\<lambda>recent_blockhashes.
          if recent_blockhashes = [] then Inl (nonce_error NE_NoRecentBlockhashes)
          else
            and_then (sysvar_rent env tc ic 2) (\<lambda>rent.
            initialize_nonce_account sha256 bc env authorized rent me tc))))
      | AuthorizeNonceAccount nonce_authority \<Rightarrow>
          and_then (check_number_of_instruction_accounts ic 1) (\<lambda>_.
          with_instruction_account ic tc 0 (\<lambda>me tc.
          authorize_nonce_account bc env nonce_authority signers me tc))
      | UpgradeNonceAccount \<Rightarrow>
          and_then (check_number_of_instruction_accounts ic 1) (\<lambda>_.
          with_instruction_account ic tc 0 (\<lambda>nonce_account tc.
          upgrade_nonce_account sha256 bc nonce_account tc))
      | Allocate space \<Rightarrow>
          and_then (check_number_of_instruction_accounts ic 1) (\<lambda>_.
          with_instruction_account ic tc 0 (\<lambda>account tc.
          and_then (instruction_account_key ic tc 0) (\<lambda>key.
          and_then (Address_create sha256 key None) (\<lambda>addr.
          allocate account addr space signers tc))))
      | AllocateWithSeed b seed space ow \<Rightarrow>
          and_then (check_number_of_instruction_accounts ic 1) (\<lambda>_.
          with_instruction_account ic tc 0 (\<lambda>account tc.
          and_then (instruction_account_key ic tc 0) (\<lambda>key.
          and_then (Address_create sha256 key (Some (b, seed, ow))) (\<lambda>addr.
          allocate_and_assign account addr space ow signers tc))))
      | AssignWithSeed b seed ow \<Rightarrow>
          and_then (check_number_of_instruction_accounts ic 1) (\<lambda>_.
          with_instruction_account ic tc 0 (\<lambda>account tc.
          and_then (instruction_account_key ic tc 0) (\<lambda>key.
          and_then (Address_create sha256 key (Some (b, seed, ow))) (\<lambda>addr.
          assign account addr ow signers tc)))))"

definition system_process_instruction ::
    "(bytes \<Rightarrow> SystemInstruction option) \<Rightarrow> (bytes \<Rightarrow> hash) \<Rightarrow> NonceVersions bincode \<Rightarrow> InvokeEnv
       \<Rightarrow> TransactionContext \<Rightarrow> InstructionError + TransactionContext" where
  "system_process_instruction decode sha256 bc env tc =
     and_then (get_current_instruction_context tc) (\<lambda>ic.
     and_then (limited_deserialize decode (instruction_data ic)) (\<lambda>instruction.
     and_then (get_signers ic tc) (\<lambda>signers.
     process_system_instruction sha256 bc env instruction signers ic tc)))"

datatype SystemAccountKind = SAK_System | SAK_Nonce

definition get_system_account_kind ::
    "NonceVersions bincode \<Rightarrow> AccountSharedData \<Rightarrow> SystemAccountKind option" where
  "get_system_account_kind bc account =
     (if owner account = system_program_id then
        if data account = [] then Some SAK_System
        else if length (data account) = NonceState_size then
          (case bc_deserialize bc (data account) of
             None \<Rightarrow> None
           | Some nonce_versions \<Rightarrow>
               (case nonce_state nonce_versions of
                  Uninitialized \<Rightarrow> None
                | Initialized _ \<Rightarrow> Some SAK_Nonce))
        else None
      else None)"

section \<open>The system program keeps the contract\<close>

lemma allocate_neutral:
  "\<lbrakk>allocate ba addr space signers tc = Inr tc'; instruction_ba ic ba; in_range ba tc\<rbrakk>
    \<Longrightarrow> neutral_run ic tc tc'"
  by (auto simp: allocate_def split: if_splits intro: length_write.neutral)

lemma assign_neutral:
  "\<lbrakk>assign ba addr ow signers tc = Inr tc'; instruction_ba ic ba; in_range ba tc\<rbrakk>
    \<Longrightarrow> neutral_run ic tc tc'"
  by (auto simp: assign_def split: if_splits intro: owner_write.neutral)

lemma allocate_and_assign_neutral:
  assumes "allocate_and_assign ba addr space ow signers tc = Inr tc'" and "instruction_ba ic ba"
    and "in_range ba tc"
  shows "neutral_run ic tc tc'"
proof -
  from assms(1) obtain t where a: "allocate ba addr space signers tc = Inr t"
    and b: "assign ba addr ow signers t = Inr tc'"
    by (auto simp: allocate_and_assign_def result_simps)
  have "neutral_run ic tc t" using a assms(2,3) by (rule allocate_neutral)
  moreover have "neutral_run ic t tc'"
    using b assms(2) by (rule assign_neutral) (rule neutral_run_in_range [OF \<open>neutral_run ic tc t\<close> assms(3)])
  ultimately show ?thesis by (rule neutral_run_trans)
qed

lemma transfer_verified_neutral:
  assumes "transfer_verified i j l ic tc = Inr tc'"
  shows "neutral_run ic tc tc'"
proof -
  let ?body = "\<lambda>from tc. if get_data from tc \<noteq> [] then Inl InvalidArgument
      else if get_lamports from tc < l then Inl (system_error SE_ResultWithNegativeLamports)
      else checked_sub_lamports from l tc"
  from assms obtain tc1 where debit: "with_instruction_account ic tc i ?body = Inr tc1"
    and credit: "with_instruction_account ic tc1 j (\<lambda>to tc. checked_add_lamports to l tc) = Inr tc'"
    by (auto simp: transfer_verified_def result_simps)
  from debit credit show ?thesis
    by (rule debit_credit_neutral) (auto split: if_splits intro: neutral_run_refl)
qed

lemma transfer_neutral: "transfer env i j l ic tc = Inr tc' \<Longrightarrow> neutral_run ic tc tc'"
  by (auto simp: transfer_def result_simps split: if_splits intro: transfer_verified_neutral)

lemma transfer_with_seed_neutral:
  "transfer_with_seed sha256 env i b seed ow j l ic tc = Inr tc' \<Longrightarrow> neutral_run ic tc tc'"
  by (auto simp: transfer_with_seed_def result_simps split: if_splits intro: transfer_verified_neutral)

lemma create_account_neutral:
  assumes "create_account env i j addr l space ow signers ic tc = Inr tc'"
  shows "neutral_run ic tc tc'"
proof -
  let ?body = "\<lambda>to tc. if 0 < get_lamports to tc then Inl (system_error SE_AccountAlreadyInUse)
      else allocate_and_assign to addr space ow signers tc"
  from assms obtain tc1 where w: "with_instruction_account ic tc j ?body = Inr tc1"
    and t: "transfer env i j l ic tc1 = Inr tc'"
    by (auto simp: create_account_def result_simps)
  have "neutral_run ic tc tc1"
    using w by (rule with_account_neutral) (auto split: if_splits intro: allocate_and_assign_neutral)
  then show ?thesis using transfer_neutral [OF t] by (rule neutral_run_trans)
qed

lemma upgrade_nonce_account_neutral:
  "\<lbrakk>upgrade_nonce_account sha256 bc ba tc = Inr tc'; instruction_ba ic ba; in_range ba tc\<rbrakk>
    \<Longrightarrow> neutral_run ic tc tc'"
  by (auto simp: upgrade_nonce_account_def result_simps split: if_splits option.splits
      intro: state_write.neutral)

lemmas system_handlers_neutral =
  allocate_neutral assign_neutral allocate_and_assign_neutral transfer_neutral
  transfer_with_seed_neutral create_account_neutral upgrade_nonce_account_neutral
  advance_nonce_account_neutral initialize_nonce_account_neutral authorize_nonce_account_neutral
  withdraw_nonce_account_neutral

lemma process_system_instruction_neutral:
  assumes "process_system_instruction sha256 bc env instruction signers ic tc = Inr tc'"
  shows "neutral_run ic tc tc'"
  using assms
  by (cases instruction)
     (auto simp: process_system_instruction_def result_simps split: if_splits
       intro: system_handlers_neutral elim!: with_account_neutral)

interpretation system_program: builtin_program "system_process_instruction decode sha256 bc env"
  for decode sha256 bc env
  by unfold_locales
     (auto simp: system_process_instruction_def result_simps intro: process_system_instruction_neutral)

section \<open>Who can be debited\<close>

text \<open>
  The authority a debit needs: the account signed, or it is derived with a seed from a base that
  signed, or it is an initialized nonce account whose authority signed.
\<close>

definition key_authorised :: "(bytes \<Rightarrow> hash) \<Rightarrow> pubkey set \<Rightarrow> TransactionContext \<Rightarrow> nat \<Rightarrow> bool" where
  "key_authorised sha256 signers tc j \<longleftrightarrow>
     (\<exists>k. key_at tc j = Some k \<and>
        (k \<in> signers \<or> (\<exists>b \<in> signers. \<exists>seed ow. create_with_seed sha256 b seed ow = Inr k)))"

definition nonce_authorised :: "NonceVersions bincode \<Rightarrow> pubkey set \<Rightarrow> AccountSharedData \<Rightarrow> bool" where
  "nonce_authorised bc signers a \<longleftrightarrow>
     (\<exists>v d. bc_deserialize bc (data a) = Some v \<and> nonce_state v = Initialized d \<and> authority d \<in> signers)"

lemma key_authorised_frame:
  "same_frame tc tc' \<Longrightarrow> key_authorised sha256 signers tc' j = key_authorised sha256 signers tc j"
  by (simp add: key_authorised_def key_at_frame)

lemma transfer_verified_debits:
  assumes "transfer_verified i j l ic tc = Inr tc'"
    and "\<And>ia. get (instruction_accounts ic) (unat i) = Some ia \<Longrightarrow> D (unat (ia_index_in_transaction ia))"
  shows "debits D tc tc'"
proof -
  let ?body = "\<lambda>from tc. if get_data from tc \<noteq> [] then Inl InvalidArgument
      else if get_lamports from tc < l then Inl (system_error SE_ResultWithNegativeLamports)
      else checked_sub_lamports from l tc"
  from assms obtain tc1 where debit: "with_instruction_account ic tc i ?body = Inr tc1"
    and credit: "with_instruction_account ic tc1 j (\<lambda>to tc. checked_add_lamports to l tc) = Inr tc'"
    by (auto simp: transfer_verified_def result_simps)
  have "debits D tc tc1"
    using debit by (rule with_account_debits) (auto split: if_splits intro!: checked_sub_debit assms(2))
  moreover have "debits D tc1 tc'"
    using credit by (rule with_account_debits) (rule checked_add_no_debit)
  ultimately show ?thesis by (rule debits_trans)
qed

lemma signer_key_authorised:
  assumes "get_signers ic tc = Inr signers" and "is_instruction_account_signer ic i = Inr True"
    and "get (instruction_accounts ic) (unat i) = Some ia"
  shows "key_authorised sha256 signers tc (unat (ia_index_in_transaction ia))"
  using get_signers_mem [OF assms(1,3)] assms(2,3)
  by (auto simp: key_authorised_def is_instruction_account_signer_def)

lemma transfer_debits:
  assumes "transfer env i j l ic tc = Inr tc'" and "get_signers ic tc = Inr signers"
  shows "debits (key_authorised sha256 signers tc) tc tc'"
  using assms(1)
  by (auto simp: transfer_def result_simps split: if_splits
      intro!: transfer_verified_debits signer_key_authorised [OF assms(2)])

lemma transfer_with_seed_debits:
  assumes "transfer_with_seed sha256 env i b seed ow j l ic tc = Inr tc'"
    and "get_signers ic tc = Inr signers"
  shows "debits (key_authorised sha256 signers tc) tc tc'"
proof (cases "\<not> is_active (feature_set env) system_transfer_zero_check \<and> l = 0")
  case False
  with assms(1) obtain bk k where s: "is_instruction_account_signer ic b = Inr True"
    and bk: "instruction_account_key ic tc b = Inr bk"
    and k: "instruction_account_key ic tc i = Inr k" "create_with_seed sha256 bk seed ow = Inr k"
    and t: "transfer_verified i j l ic tc = Inr tc'"
    by (auto simp: transfer_with_seed_def result_simps split: if_splits)
  from s obtain ia where ia: "get (instruction_accounts ic) (unat b) = Some ia" "ia_is_signer ia"
    by (auto simp: is_instruction_account_signer_def result_simps)
  then have "bk \<in> signers"
    using get_signers_mem [OF assms(2) ia] bk
    by (auto simp: instruction_account_key_def ic_access_defs result_simps key_at_def)
  then show ?thesis
    using t k by (auto intro!: transfer_verified_debits
        simp: key_authorised_def instruction_account_key_def ic_access_defs result_simps key_at_def)
qed (use assms in \<open>simp add: transfer_with_seed_def\<close>)

lemma allocate_and_assign_no_debit:
  "allocate_and_assign ba addr space ow signers tc = Inr tc' \<Longrightarrow> debits D tc tc'"
  by (auto simp: allocate_and_assign_def allocate_def assign_def result_simps split: if_splits
      dest: length_write.no_debit owner_write.no_debit
      intro: debits_trans [OF length_write.no_debit owner_write.no_debit])

lemma create_account_debits:
  assumes "create_account env i j addr l space ow signers ic tc = Inr tc'"
    and "get_signers ic tc = Inr signers"
  shows "debits (key_authorised sha256 signers tc) tc tc'"
proof -
  let ?body = "\<lambda>to tc. if 0 < get_lamports to tc then Inl (system_error SE_AccountAlreadyInUse)
      else allocate_and_assign to addr space ow signers tc"
  from assms(1) obtain tc1 where w: "with_instruction_account ic tc j ?body = Inr tc1"
    and t: "transfer env i j l ic tc1 = Inr tc'"
    by (auto simp: create_account_def result_simps)
  have d1: "debits (key_authorised sha256 signers tc) tc tc1"
    using w by (rule with_account_debits) (auto split: if_splits intro: allocate_and_assign_no_debit)
  have "neutral_run ic tc tc1"
    using w by (rule with_account_neutral) (auto split: if_splits intro: allocate_and_assign_neutral)
  then have fr: "same_frame tc tc1" by (auto simp: neutral_run_def dest: program_run_frame)
  have "debits (key_authorised sha256 signers tc1) tc1 tc'"
    using t by (rule transfer_debits) (simp add: get_signers_frame [OF fr] assms(2))
  then have "debits (key_authorised sha256 signers tc) tc1 tc'"
    by (rule debits_mono) (simp add: key_authorised_frame [OF fr])
  with d1 show ?thesis by (rule debits_trans)
qed

lemma withdraw_nonce_signer_no_debit:
  "withdraw_nonce_signer sha256 bc env l rent ba tc = Inr (k, tc') \<Longrightarrow> debits D tc tc'"
  by (erule withdraw_nonce_signer_Inr) (auto dest: state_write.no_debit)

lemma withdraw_nonce_account_debits:
  assumes "withdraw_nonce_account sha256 bc env i l j rent signers ic tc = Inr tc'"
    and "keys_match tc"
  shows "debits (\<lambda>k. key_authorised sha256 signers tc k \<or> nonce_authorised bc signers (account_values tc ! k)) tc tc'"
    (is "debits ?D tc tc'")
proof -
  let ?body = "\<lambda>from tc. and_then (withdraw_nonce_signer sha256 bc env l rent from tc) (\<lambda>(signer, tc).
      if signer \<notin> signers then Inl MissingRequiredSignature else checked_sub_lamports from l tc)"
  from assms(1) obtain tc1 where debit: "with_instruction_account ic tc i ?body = Inr tc1"
    and credit: "with_instruction_account ic tc1 j (\<lambda>to tc. checked_add_lamports to l tc) = Inr tc'"
    by (auto simp: withdraw_nonce_account_def result_simps)
  have "debits ?D tc tc1"
    using debit
  proof (rule with_account_debits)
    fix ba ia t1 t2
    assume v: "account_values t1 = account_values tc" "same_frame tc t1" "in_range ba t1"
      and "?body ba t1 = Inr t2"
    then obtain k t where w: "withdraw_nonce_signer sha256 bc env l rent ba t1 = Inr (k, t)"
      and k: "k \<in> signers" and sub: "checked_sub_lamports ba l t = Inr t2"
      by (auto simp: result_simps split: if_splits)
    have acct: "ba_account ba t1 = account_values tc ! unat (ba_index_in_transaction ba)"
      using ba_account_values [OF v(3)] v(1) by simp
    from w have "?D (unat (ba_index_in_transaction ba))"
    proof (cases rule: withdraw_nonce_signer_Inr)
      case uninitialized
      have "keys_match t1" using v(2) assms(2) by (simp add: keys_match_def same_frame_def)
      then show ?thesis
        using k uninitialized(5) key_at_ba_key [OF _ v(3)] key_at_frame [OF v(2)]
        by (auto simp: key_authorised_def)
    next
      case (close v d)
      then show ?thesis
        using k acct by (auto simp: nonce_authorised_def get_state_def get_data_def result_simps)
    next
      case (keep v d)
      then show ?thesis
        using k acct by (auto simp: nonce_authorised_def get_state_def get_data_def result_simps)
    qed
    then show "debits ?D t1 t2"
      by (rule debits_trans [OF withdraw_nonce_signer_no_debit [OF w] checked_sub_debit [OF sub]])
  qed
  moreover have "debits ?D tc1 tc'"
    using credit by (rule with_account_debits) (rule checked_add_no_debit)
  ultimately show ?thesis by (rule debits_trans)
qed

lemma nonce_handlers_no_debit:
  "advance_nonce_account sha256 bc env signers ba tc = Inr tc' \<Longrightarrow> debits D tc tc'"
  "initialize_nonce_account sha256 bc env a rent ba tc = Inr tc' \<Longrightarrow> debits D tc tc'"
  "authorize_nonce_account bc env a signers ba tc = Inr tc' \<Longrightarrow> debits D tc tc'"
  by (erule advance_nonce_account_Inr initialize_nonce_account_Inr authorize_nonce_account_Inr,
      erule state_write.no_debit)+

lemma account_handlers_no_debit:
  "upgrade_nonce_account sha256 bc ba tc = Inr tc' \<Longrightarrow> debits D tc tc'"
  "allocate ba addr space signers tc = Inr tc' \<Longrightarrow> debits D tc tc'"
  "assign ba addr ow signers tc = Inr tc' \<Longrightarrow> debits D tc tc'"
  by (auto simp: upgrade_nonce_account_def allocate_def assign_def result_simps
      split: if_splits option.splits
      intro: state_write.no_debit length_write.no_debit owner_write.no_debit)

lemmas system_no_debit =
  nonce_handlers_no_debit account_handlers_no_debit allocate_and_assign_no_debit

lemma process_system_instruction_debits:
  assumes "process_system_instruction sha256 bc env instruction signers ic tc = Inr tc'"
    and "get_signers ic tc = Inr signers" and "keys_match tc"
  shows "debits (\<lambda>k. key_authorised sha256 signers tc k \<or> nonce_authorised bc signers (account_values tc ! k))
           tc tc'" (is "debits ?D tc tc'")
proof -
  have key: "debits ?D tc tc'" if "debits (key_authorised sha256 signers tc) tc tc'"
    using that by (rule debits_mono) simp
  show ?thesis
  proof (cases instruction)
    case (WithdrawNonceAccount l)
    with assms(1) show ?thesis
      using withdraw_nonce_account_debits [OF _ assms(3)]
      by (auto simp: process_system_instruction_def result_simps)
  qed (use assms(1) in \<open>auto simp: process_system_instruction_def result_simps split: if_splits
         intro: key create_account_debits [OF _ assms(2)] transfer_debits [OF _ assms(2)]
           transfer_with_seed_debits [OF _ assms(2)] system_no_debit
         elim!: with_account_debits\<close>)
qed

text \<open>
  C5: Lamports leave an account only with its authority.  When an instruction of the system
  program succeeds and the lamports of an account have decreased, the key of the account is among
  the signers of the instruction, or it is derived with a seed from a key among them, or the
  account held an initialized nonce whose authority is among them.
\<close>

theorem system_debit_authorised:
  assumes "system_process_instruction decode sha256 bc env tc = Inr tc'"
    and "get_current_instruction_context tc = Inr ic" and "get_signers ic tc = Inr signers"
    and "keys_match tc" and "j < length (accounts tc)"
    and "lamports (account_values tc' ! j) < lamports (account_values tc ! j)"
  shows "key_authorised sha256 signers tc j \<or> nonce_authorised bc signers (account_values tc ! j)"
proof -
  from assms(1-3) obtain instruction where
    "process_system_instruction sha256 bc env instruction signers ic tc = Inr tc'"
    by (auto simp: system_process_instruction_def result_simps)
  from process_system_instruction_debits [OF this assms(3,4)] assms(5,6) show ?thesis
    by (simp add: debits_def)
qed

section \<open>What a transfer does\<close>

lemma transfer_verified_effect:
  assumes "transfer_verified i j l ic tc = Inr tc'"
    and "get (instruction_accounts ic) (unat i) = Some f"
    and "get (instruction_accounts ic) (unat j) = Some t"
  defines "fi \<equiv> unat (ia_index_in_transaction f)" and "ti \<equiv> unat (ia_index_in_transaction t)"
  shows "data (account_values tc ! fi) = [] \<and> l \<le> lamports (account_values tc ! fi) \<and>
     unat (lamports (debit fi l (account_values tc) ! ti)) + unat l < 2 ^ 64 \<and>
     account_values tc' = credit ti l (debit fi l (account_values tc))"
proof -
  let ?body = "\<lambda>from tc. if get_data from tc \<noteq> [] then Inl InvalidArgument
      else if get_lamports from tc < l then Inl (system_error SE_ResultWithNegativeLamports)
      else checked_sub_lamports from l tc"
  from assms(1) obtain tc1 where debit: "with_instruction_account ic tc i ?body = Inr tc1"
    and credit: "with_instruction_account ic tc1 j (\<lambda>to tc. checked_add_lamports to l tc) = Inr tc'"
    by (auto simp: transfer_verified_def result_simps)
  from debit have "data (account_values tc ! fi) = [] \<and> l \<le> lamports (account_values tc ! fi) \<and>
      account_values tc1 = debit fi l (account_values tc)"
  proof (rule with_account_Inr)
    fix ba t1 t2 ia
    assume *: "get (instruction_accounts ic) (unat i) = Some ia"
      "ba_index_in_transaction ba = ia_index_in_transaction ia" "in_range ba tc" "in_range ba t1"
      "account_values t1 = account_values tc" "ba_account ba t1 = ba_account ba tc"
      "?body ba t1 = Inr t2" "account_values tc1 = account_values t2"
    then have fi: "unat (ba_index_in_transaction ba) = fi" using assms(2) by (simp add: fi_def)
    from *(7) have "data (ba_account ba t1) = []" "checked_sub_lamports ba l t1 = Inr t2"
      by (auto simp: get_data_def split: if_splits)
    then show ?thesis
      using checked_sub_lamports_values [OF _ *(4)] ba_account_values [OF *(3)] *(5,6,8) by (simp add: fi)
  qed
  moreover note credit_block [OF credit assms(3)]
  ultimately show ?thesis by (simp add: ti_def)
qed

text \<open>
  C27: A transfer moves exactly its amount.  A \<open>Transfer\<close> that succeeds and is not the ignored
  transfer of 0 had the signature of the funding account, which carries no data and holds the
  amount; it takes the amount from that account and adds it to the recipient without overflow,
  and changes nothing else, also when both are the same account.
\<close>

theorem transfer_moves_lamports:
  assumes "process_system_instruction sha256 bc env (Transfer l) signers ic tc = Inr tc'"
    and "l \<noteq> 0 \<or> is_active (feature_set env) system_transfer_zero_check"
  shows "\<exists>f t. get (instruction_accounts ic) 0 = Some f \<and> get (instruction_accounts ic) 1 = Some t \<and>
     ia_is_signer f \<and>
     (let fi = unat (ia_index_in_transaction f); ti = unat (ia_index_in_transaction t);
          vs = account_values tc
      in data (vs ! fi) = [] \<and> l \<le> lamports (vs ! fi) \<and>
         unat (lamports (debit fi l vs ! ti)) + unat l < 2 ^ 64 \<and>
         account_values tc' = credit ti l (debit fi l vs))"
proof -
  from assms have n: "\<not> get_number_of_instruction_accounts ic < 2"
    and t: "transfer_verified 0 1 l ic tc = Inr tc'" and s: "is_instruction_account_signer ic 0 = Inr True"
    by (auto simp: process_system_instruction_def transfer_def check_number_of_instruction_accounts_def
        result_simps split: if_splits)
  from s obtain f where f: "get (instruction_accounts ic) (unat (0 :: IndexOfAccount)) = Some f" "ia_is_signer f"
    by (auto simp: is_instruction_account_signer_def result_simps)
  have "2 \<le> length (instruction_accounts ic)"
    using n by (simp add: get_number_of_instruction_accounts_def word_less_nat_alt unat_of_nat)
  then obtain r where r: "get (instruction_accounts ic) (unat (1 :: IndexOfAccount)) = Some r"
    by (simp add: get_def)
  show ?thesis
    using transfer_verified_effect [OF t f(1) r] f r by (auto simp: Let_def)
qed

section \<open>What creating an account does\<close>

lemma vec_resize_Nil: "vec_resize [] n = replicate n 0"
  by (simp add: vec_resize_def)

lemma allocate_and_assign_effect:
  assumes "allocate_and_assign ba addr space ow signers tc = Inr tc'" and "in_range ba tc"
  defines "a \<equiv> ba_account ba tc"
  shows "Address_is_signer addr signers" and "data a = []" and "owner a = system_program_id"
    and "space \<le> MAX_PERMITTED_DATA_LENGTH"
    and "account_values tc' = (account_values tc)[unat (ba_index_in_transaction ba) :=
           a\<lparr>data := replicate (unat space) 0, owner := ow\<rparr>]"
proof -
  from assms(1) obtain t where alloc: "allocate ba addr space signers tc = Inr t"
    and asgn: "assign ba addr ow signers t = Inr tc'"
    by (auto simp: allocate_and_assign_def result_simps)
  from alloc show s: "Address_is_signer addr signers" and d: "data a = []"
    and o: "owner a = system_program_id" and "space \<le> MAX_PERMITTED_DATA_LENGTH"
    by (auto simp: allocate_def a_def get_data_def get_owner_def split: if_splits)
  from alloc have "set_data_length ba (unat space) tc = Inr t"
    by (auto simp: allocate_def split: if_splits)
  from set_data_length_effect [OF this]
  have r: "rewritten ba (a\<lparr>data := replicate (unat space) 0\<rparr>) tc t"
    using d by (simp add: a_def vec_resize_Nil)
  have at: "ba_account ba t = a\<lparr>data := replicate (unat space) 0\<rparr>"
    using rewritten_account [OF r assms(2)] .
  show "account_values tc' = (account_values tc)[unat (ba_index_in_transaction ba) :=
      a\<lparr>data := replicate (unat space) 0, owner := ow\<rparr>]"
  proof (cases "get_owner ba t = ow")
    case True
    then have "tc' = t" "owner a = ow" using asgn at by (auto simp: assign_def get_owner_def)
    then have "a\<lparr>data := replicate (unat space) 0, owner := ow\<rparr> = a\<lparr>data := replicate (unat space) 0\<rparr>"
      by (cases a) simp
    then show ?thesis using rewritten_values [OF r] \<open>tc' = t\<close> by simp
  next
    case False
    then have "set_owner ba ow t = Inr tc'" using asgn s by (simp add: assign_def)
    from rewritten_values [OF set_owner_effect [OF this]] show ?thesis
      by (simp add: at rewritten_values [OF r])
  qed
qed

text \<open>
  C26: Creating an account.  When \<open>CreateAccount\<close> succeeds with distinct funding and new
  accounts and a transfer that is not ignored, the new account was empty, owned by the system
  program and not yet funded, its key signed; afterwards it holds exactly the lamports of the
  instruction, \<open>space\<close> zero bytes and the requested owner, its other fields are as before, and
  the funding account lost exactly those lamports.
\<close>

theorem create_account_effect:
  assumes "process_system_instruction sha256 bc env (CreateAccount l space ow) signers ic tc = Inr tc'"
    and "l \<noteq> 0 \<or> is_active (feature_set env) system_transfer_zero_check"
    and f: "get (instruction_accounts ic) 0 = Some f" and t: "get (instruction_accounts ic) 1 = Some t"
    and ne: "ia_index_in_transaction f \<noteq> ia_index_in_transaction t"
  shows "let fi = unat (ia_index_in_transaction f); ti = unat (ia_index_in_transaction t);
             vs = account_values tc
         in lamports (vs ! ti) = 0 \<and> data (vs ! ti) = [] \<and> owner (vs ! ti) = system_program_id \<and>
            (\<exists>k \<in> signers. key_at tc ti = Some k) \<and> ia_is_signer f \<and> l \<le> lamports (vs ! fi) \<and>
            account_values tc' =
              (debit fi l vs)[ti := (vs ! ti)\<lparr>data := replicate (unat space) 0, owner := ow, lamports := l\<rparr>]"
proof -
  define fi where "fi = unat (ia_index_in_transaction f)"
  define ti where "ti = unat (ia_index_in_transaction t)"
  define vs where "vs = account_values tc"
  have fiti: "fi \<noteq> ti"
    using ne unsigned_word_eqI [of "ia_index_in_transaction f" "ia_index_in_transaction t"]
    by (auto simp: fi_def ti_def)
  let ?a = "(vs ! ti)\<lparr>data := replicate (unat space) 0, owner := ow\<rparr>"
  let ?body = "\<lambda>addr to tc. if 0 < get_lamports to tc then Inl (system_error SE_AccountAlreadyInUse)
      else allocate_and_assign to addr space ow signers tc"
  from assms(1) t obtain key tc1 where key: "key_at tc ti = Some key"
    and w: "with_instruction_account ic tc 1 (?body \<lparr>address = key, base = None\<rparr>) = Inr tc1"
    and tr: "transfer env 0 1 l ic tc1 = Inr tc'"
    by (auto simp: process_system_instruction_def create_account_def Address_create_def
        instruction_account_key_def ic_access_defs result_simps key_at_def ti_def)
  from w have "lamports (vs ! ti) = 0 \<and> data (vs ! ti) = [] \<and> owner (vs ! ti) = system_program_id \<and>
      key \<in> signers \<and> ti < length vs \<and> account_values tc1 = vs[ti := ?a]"
  proof (rule with_account_Inr)
    fix ba t1 t2 ia
    assume *: "get (instruction_accounts ic) (unat (1 :: IndexOfAccount)) = Some ia"
      "ba_index_in_transaction ba = ia_index_in_transaction ia" "in_range ba tc" "in_range ba t1"
      "account_values t1 = account_values tc" "ba_account ba t1 = ba_account ba tc"
      "?body \<lparr>address = key, base = None\<rparr> ba t1 = Inr t2" "account_values tc1 = account_values t2"
    then have ti: "unat (ba_index_in_transaction ba) = ti" using t by (simp add: ti_def)
    have acct: "ba_account ba t1 = vs ! ti" using ba_account_values [OF *(3)] *(6) by (simp add: ti vs_def)
    from *(7) have z: "lamports (ba_account ba t1) = 0"
      and aa: "allocate_and_assign ba \<lparr>address = key, base = None\<rparr> space ow signers t1 = Inr t2"
      by (auto simp: get_lamports_def word_gt_0 split: if_splits)
    show ?thesis
      using allocate_and_assign_effect [OF aa *(4)] z acct *(3,5,8)
      by (simp add: ti Address_is_signer_def vs_def in_range_def)
  qed
  moreover from tr assms(2) f have "ia_is_signer f" and tv: "transfer_verified 0 1 l ic tc1 = Inr tc'"
    by (auto simp: transfer_def is_instruction_account_signer_def result_simps split: if_splits)
  moreover note transfer_verified_effect [OF tv, of f t] f t
  ultimately show ?thesis
    using fiti key
    by (simp add: fi_def [symmetric] ti_def [symmetric] vs_def [symmetric] debit_def credit_def
        list_update_swap)
qed

end
