(* ===== verification/SystemProperties.thy ===== *)
theory SystemProperties
  imports SystemProgram Bytes
begin

text \<open>
  Properties of the system program as a whole: what the contract \<open>builtin_program\<close> gives for it,
  and what its nonce instructions guarantee.  The samples at the end run the program on concrete
  transactions.
\<close>

section \<open>The contract of a builtin program, for the system program\<close>

text \<open>
  C6: The system program conserves lamports.  An instruction it completes leaves the sum of the
  lamports of all accounts of the transaction unchanged, keeps the keys, the number of accounts,
  the stack and the trace, and leaves borrowed exactly the accounts that were.
\<close>

theorem system_conserves_lamports:
  assumes "system_process_instruction decode sha256 bc env tc = Inr tc'"
  shows "total_lamports tc' = total_lamports tc \<and> same_frame tc tc' \<and>
         borrow_flags tc' = borrow_flags tc"
  using system_program.conserves [OF assms] system_program.keeps_frame [OF assms]
    system_program.keeps_borrows [OF assms] by blast

text \<open>
  C7: The late verification accepts the system program.  With a rent in force, what an
  instruction of the system program did to any account of the transaction passes
  \<open>PreAccount::verify\<close> for the program that ran, and an account the instruction does not make
  writable is as it was.
\<close>

theorem system_passes_verify:
  assumes "system_process_instruction decode sha256 bc env tc = Inr tc'"
    and "get_current_instruction_context tc = Inr ic" and "accounts_fit ic"
    and "get_last_program_key ic tc = Inr pid" and "tc_rent tc = Some rent"
    and "j < length (accounts tc)"
    and "length (data (account_values tc ! j)) \<le> unat MAX_PERMITTED_DATA_LENGTH"
  shows "is_ok (verify (PreAccount_new key (account_values tc ! j)) pid (writable_at ic j) rent
           (account_values tc' ! j) timings outermost_call) \<and>
         (\<not> writable_at ic j \<longrightarrow> account_values tc' ! j = account_values tc ! j)"
  using system_program.verified [OF assms] system_program.readonly_untouched [OF assms(1-3,5,6)]
  by blast

section \<open>Nonces\<close>

text \<open>
  C29: Advancing a nonce retires it.  When \<open>AdvanceNonceAccount\<close> succeeds and the codec reads back
  what it writes, the account held an initialized nonce whose authority signed; afterwards the
  old nonce no longer verifies, the nonce made from the current blockhash does, with the same
  authority and the current fee, and no lamports and no other account changed.
\<close>

theorem advance_nonce_retires:
  assumes "process_system_instruction sha256 bc env AdvanceNonceAccount signers ic tc = Inr tc'"
    and "get (instruction_accounts ic) 0 = Some f"
    and law: "\<And>v. bincode_law bc v"
  shows "\<exists>v d v'. let j = unat (ia_index_in_transaction f);
             new = from_blockhash sha256 (blockhash env) in
     bc_deserialize bc (data (account_values tc ! j)) = Some v \<and> nonce_state v = Initialized d \<and>
     authority d \<in> signers \<and>
     bc_deserialize bc (data (account_values tc' ! j)) = Some v' \<and>
     verify_recent_blockhash v' (durable_nonce d) = None \<and>
     verify_recent_blockhash v' new = Some (NonceData_new (authority d) new (lamports_per_signature env)) \<and>
     lamports (account_values tc' ! j) = lamports (account_values tc ! j) \<and>
     (\<forall>k. k \<noteq> j \<longrightarrow> account_values tc' ! k = account_values tc ! k)"
proof -
  define j where "j = unat (ia_index_in_transaction f)"
  let ?body = "\<lambda>me tc. and_then (sysvar_recent_blockhashes env tc ic 1) (\<lambda>recent_blockhashes.
      if recent_blockhashes = [] then Inl (nonce_error NE_NoRecentBlockhashes)
      else advance_nonce_account sha256 bc env signers me tc)"
  from assms(1) have "with_instruction_account ic tc 0 ?body = Inr tc'"
    by (simp add: process_system_instruction_def result_simps)
  then obtain ba t1 t2 ia where "get (instruction_accounts ic) (unat (0 :: IndexOfAccount)) = Some ia"
    "ba_index_in_transaction ba = ia_index_in_transaction ia"
    and r: "in_range ba tc" "in_range ba t1" and v: "account_values t1 = account_values tc"
    and a: "ba_account ba t1 = ba_account ba tc"
    and body: "?body ba t1 = Inr t2" and v': "account_values tc' = account_values t2"
    by (rule with_account_Inr)
  then have idx: "unat (ba_index_in_transaction ba) = j" using assms(2) by (simp add: j_def)
  from body have adv: "advance_nonce_account sha256 bc env signers ba t1 = Inr t2"
    by (auto simp: result_simps split: if_splits)
  from adv obtain v d where old: "get_state bc ba t1 = Inr v" "nonce_state v = Initialized d"
    "authority d \<in> signers" "durable_nonce d \<noteq> from_blockhash sha256 (blockhash env)"
    and new: "set_state bc ba (Current (Initialized (NonceData_new (authority d)
       (from_blockhash sha256 (blockhash env)) (lamports_per_signature env)))) t1 = Inr t2"
    by (rule advance_nonce_account_Inr)
  have "bc_deserialize bc (data (account_values tc ! j)) = Some v"
    using old(1) a ba_account_values [OF r(1)]
    by (auto simp: get_state_def get_data_def result_simps idx)
  then show ?thesis
    using old(2-4) set_state_reads_back [OF new law r(2)] unfolding j_def [symmetric]
    by (auto simp: v v' idx NonceData_new_def Let_def)
qed

text \<open>
  C30: A withdrawal never leaves a nonce account underfunded.  When \<open>WithdrawNonceAccount\<close>
  succeeds on an initialized nonce, to another account, the authority of the nonce signed, and
  the account is either closed (no lamports left and its state uninitialized, and its nonce was
  not the one of the current blockhash), or it keeps its data and at least the rent-exempt
  minimum for them.
\<close>

theorem withdraw_nonce_keeps_minimum:
  assumes "process_system_instruction sha256 bc env (WithdrawNonceAccount l) signers ic tc = Inr tc'"
    and f: "get (instruction_accounts ic) 0 = Some f" and t: "get (instruction_accounts ic) 1 = Some t"
    and ne: "ia_index_in_transaction f \<noteq> ia_index_in_transaction t"
    and rent: "sc_rent (sysvar_cache env) = Some rent"
    and old: "bc_deserialize bc (data (account_values tc ! unat (ia_index_in_transaction f))) = Some v"
      "nonce_state v = Initialized d"
    and law: "\<And>v. bincode_law bc v"
  shows "let a = account_values tc ! unat (ia_index_in_transaction f);
             a' = account_values tc' ! unat (ia_index_in_transaction f) in
     authority d \<in> signers \<and>
     (lamports a' = 0 \<and> bc_deserialize bc (data a') = Some (Current Uninitialized) \<and>
        durable_nonce d \<noteq> from_blockhash sha256 (blockhash env) \<or>
      data a' = data a \<and> minimum_balance rent (length (data a)) \<le> lamports a')"
proof -
  define j where "j = unat (ia_index_in_transaction f)"
  define k where "k = unat (ia_index_in_transaction t)"
  have jk: "k \<noteq> j"
    using ne unsigned_word_eqI [of "ia_index_in_transaction t" "ia_index_in_transaction f"]
    by (auto simp: j_def k_def)
  let ?body = "\<lambda>from tc. and_then (withdraw_nonce_signer sha256 bc env l rent from tc) (\<lambda>(signer, tc).
      if signer \<notin> signers then Inl MissingRequiredSignature else checked_sub_lamports from l tc)"
  from assms(1) rent obtain tc1 where debit: "with_instruction_account ic tc 0 ?body = Inr tc1"
    and credit: "with_instruction_account ic tc1 1 (\<lambda>to tc. checked_add_lamports to l tc) = Inr tc'"
    by (auto simp: process_system_instruction_def withdraw_nonce_account_def sysvar_rent_def
        get_rent_def result_simps)
  from credit_block(3) [OF credit] t jk have same: "account_values tc' ! j = account_values tc1 ! j"
    by (simp add: credit_def k_def)
  from debit obtain ba t1 t2 ia where "get (instruction_accounts ic) (unat (0 :: IndexOfAccount)) = Some ia"
    "ba_index_in_transaction ba = ia_index_in_transaction ia"
    and r: "in_range ba tc" "in_range ba t1" and v: "account_values t1 = account_values tc"
    and a: "ba_account ba t1 = ba_account ba tc"
    and body: "?body ba t1 = Inr t2" and v1: "account_values tc1 = account_values t2"
    by (rule with_account_Inr)
  then have idx: "unat (ba_index_in_transaction ba) = j" using f by (simp add: j_def)
  have acct: "ba_account ba t1 = account_values tc ! j"
    using ba_account_values [OF r(1)] a by (simp add: idx)
  from body obtain key t3 where w: "withdraw_nonce_signer sha256 bc env l rent ba t1 = Inr (key, t3)"
    and key: "key \<in> signers" and sub: "checked_sub_lamports ba l t3 = Inr t2"
    by (auto simp: result_simps split: if_splits)
  have jlen: "j < length (account_values tc)" using r(1) by (simp add: in_range_def idx)
  have state: "get_state bc ba t1 = Inr v" using old acct by (simp add: get_state_def get_data_def j_def)
  have final: "in_range ba t3 \<Longrightarrow> account_values t2 = debit j l (account_values t3)
      \<and> l \<le> lamports (account_values t3 ! j)"
    using checked_sub_lamports_values [OF sub] ba_account_values [of ba t3] by (simp add: idx)
  show ?thesis
    using w
  proof (cases rule: withdraw_nonce_signer_Inr)
    case (uninitialized v')
    then show ?thesis using state old by simp
  next
    case (close v' d')
    note rb = set_state_reads_back [OF close(7) law r(2), unfolded idx v]
    have "in_range ba t3" using close(7) r(2)
      by (auto dest!: state_write.writes allowed_write_same_frame simp: in_range_def same_frame_def)
    moreover from this have "j < length (accounts t3)" by (simp add: in_range_def idx)
    ultimately show ?thesis
      using close key state old rb final acct
      by (simp add: Let_def j_def [symmetric] same v1 debit_def get_lamports_def)
  next
    case (keep v' d')
    have "minimum_balance rent (length (data (account_values tc ! j))) \<le> lamports (account_values tc ! j) - l"
      using keep(7) acct by (simp add: word_le_nat_alt get_lamports_def get_data_def unat_sub)
    then show ?thesis
      using keep key state old final r acct jlen v
      by (simp add: Let_def j_def [symmetric] same v1 debit_def)
  qed
qed

section \<open>Runs on concrete transactions\<close>

lemmas [exec] =
  system_process_instruction_def process_system_instruction_def limited_deserialize_def
  check_number_of_instruction_accounts_def transfer_def transfer_verified_def create_account_def
  allocate_and_assign_def allocate_def assign_def Address_create_def Address_is_signer_def
  instruction_account_key_def system_program_id_def account_values_def total_lamports_def
  checked_sub_lamports_def checked_add_lamports_def

definition sample_system_accounts :: "InstructionAccount list" where
  "sample_system_accounts =
     [\<lparr>ia_index_in_transaction = 1, ia_index_in_caller = 1, ia_index_in_callee = 0,
       ia_is_signer = True, ia_is_writable = True\<rparr>,
      \<lparr>ia_index_in_transaction = 2, ia_index_in_caller = 2, ia_index_in_callee = 1,
       ia_is_signer = True, ia_is_writable = True\<rparr>]"

definition sample_system_ic :: InstructionContext where
  "sample_system_ic = configure [0] sample_system_accounts [] InstructionContext_default"

text \<open>Accounts with the keys 8 and 9 are passed to the system program; 8 pays.\<close>

definition sample_system_tc :: TransactionContext where
  "sample_system_tc =
     (TransactionContext_new [(0, shared_new 1 0 0), (8, shared_new 100 0 0), (9, shared_new 0 0 0)]
        (Some Rent_default) 5 64)
       \<lparr>instruction_trace := [sample_system_ic, InstructionContext_default], instruction_stack := [0]\<rparr>"

definition sample_env :: InvokeEnv where
  "sample_env =
     \<lparr>sysvar_cache = SysvarCache_default, feature_set = (\<lambda>_. None), blockhash = 77,
      lamports_per_signature = 5000\<rparr>"

definition sample_codec :: "NonceVersions bincode" where
  "sample_codec = \<lparr>bc_serialize = (\<lambda>_. None), bc_deserialize = (\<lambda>_. None)\<rparr>"

lemmas [exec] = sample_system_accounts_def sample_system_ic_def sample_system_tc_def sample_env_def

definition sample_transfer :: "InstructionError + TransactionContext" where
  "sample_transfer =
     system_process_instruction (\<lambda>_. Some (Transfer 30)) sample_sha256 sample_codec sample_env
       sample_system_tc"

lemma sample_current: "get_current_instruction_context sample_system_tc = Inr sample_system_ic"
  by (simp add: exec)

lemma sample_signers: "get_signers sample_system_ic sample_system_tc = Inr {8, 9}"
  by (simp add: exec insert_commute)

lemma sample_transfer_process:
  "sample_transfer = process_system_instruction sample_sha256 sample_codec sample_env (Transfer 30)
     {8, 9} sample_system_ic sample_system_tc"
  by (simp add: sample_transfer_def system_process_instruction_def sample_current sample_signers
      limited_deserialize_def)

lemma sample_transfer_runs:
  "\<exists>tc'. sample_transfer = Inr tc' \<and>
     account_values tc' = [shared_new 1 0 0, shared_new 70 0 0, shared_new 30 0 0]"
  by (simp add: sample_transfer_process is_active_def exec)

lemma sample_create_runs:
  "\<exists>tc'. process_system_instruction sample_sha256 sample_codec sample_env (CreateAccount 30 2 5)
     {8, 9} sample_system_ic sample_system_tc = Inr tc' \<and>
     account_values tc' = [shared_new 1 0 0, shared_new 70 0 0, shared_new 30 2 5]"
  by (simp add: is_active_def exec)

theorem system_conserves_lamports_witness:
  "\<exists>tc'. sample_transfer = Inr tc' \<and> lamports (account_values tc' ! 2) = 30 \<and>
     total_lamports tc' = 101"
proof -
  obtain tc' where *: "sample_transfer = Inr tc'"
    "account_values tc' = [shared_new 1 0 0, shared_new 70 0 0, shared_new 30 0 0]"
    using sample_transfer_runs by blast
  have "total_lamports tc' = total_lamports sample_system_tc"
    using system_conserves_lamports [OF *(1) [unfolded sample_transfer_def]] by blast
  also have "\<dots> = 101" by (simp add: exec)
  finally show ?thesis using * by (intro exI [of _ tc']) (simp add: shared_new_def)
qed

theorem system_passes_verify_witness:
  "\<exists>tc'. sample_transfer = Inr tc' \<and> lamports (account_values tc' ! 1) = 70 \<and>
     is_ok (verify (PreAccount_new 8 (account_values sample_system_tc ! 1)) 0 True Rent_default
       (account_values tc' ! 1) sample_timings True)"
proof -
  obtain tc' where *: "sample_transfer = Inr tc'"
    "account_values tc' = [shared_new 1 0 0, shared_new 70 0 0, shared_new 30 0 0]"
    using sample_transfer_runs by blast
  have "accounts_fit sample_system_ic" "writable_at sample_system_ic 1"
    "get_last_program_key sample_system_ic sample_system_tc = Inr 0"
    "tc_rent sample_system_tc = Some Rent_default" "1 < length (accounts sample_system_tc)"
    "length (data (account_values sample_system_tc ! 1)) \<le> unat MAX_PERMITTED_DATA_LENGTH"
    by (simp_all add: accounts_fit_def writable_at_def exec)
  from system_passes_verify [OF *(1) [unfolded sample_transfer_def] sample_current this(1,3-6)] this(2)
  show ?thesis using * by (intro exI [of _ tc']) (simp add: shared_new_def)
qed

theorem system_debit_authorised_witness:
  "\<exists>tc'. sample_transfer = Inr tc' \<and>
     lamports (account_values tc' ! 1) < lamports (account_values sample_system_tc ! 1) \<and>
     (key_authorised sample_sha256 {8, 9} sample_system_tc 1 \<or>
      nonce_authorised sample_codec {8, 9} (account_values sample_system_tc ! 1))"
proof -
  obtain tc' where *: "sample_transfer = Inr tc'"
    "account_values tc' = [shared_new 1 0 0, shared_new 70 0 0, shared_new 30 0 0]"
    using sample_transfer_runs by blast
  have less: "lamports (account_values tc' ! 1) < lamports (account_values sample_system_tc ! 1)"
    unfolding *(2) by (simp add: exec)
  have "keys_match sample_system_tc" "1 < length (accounts sample_system_tc)"
    by (simp_all add: keys_match_def exec)
  from system_debit_authorised [OF *(1) [unfolded sample_transfer_def] sample_current
      sample_signers this less] * less show ?thesis by blast
qed

theorem transfer_moves_lamports_witness:
  "\<exists>tc'. sample_transfer = Inr tc' \<and>
     account_values tc' = credit 2 30 (debit 1 30 (account_values sample_system_tc))"
proof -
  obtain tc' where *: "sample_transfer = Inr tc'" using sample_transfer_runs by blast
  from transfer_moves_lamports [OF * [unfolded sample_transfer_process]] * show ?thesis
    by (intro exI [of _ tc'])
       (simp add: sample_system_ic_def sample_system_accounts_def configure_def get_def Let_def)
qed

theorem create_account_effect_witness:
  "\<exists>tc'. process_system_instruction sample_sha256 sample_codec sample_env (CreateAccount 30 2 5)
     {8, 9} sample_system_ic sample_system_tc = Inr tc' \<and>
     account_values tc' = (debit 1 30 (account_values sample_system_tc))
       [2 := (account_values sample_system_tc ! 2)\<lparr>data := replicate 2 0, owner := 5, lamports := 30\<rparr>]"
proof -
  obtain tc' where *: "process_system_instruction sample_sha256 sample_codec sample_env
      (CreateAccount 30 2 5) {8, 9} sample_system_ic sample_system_tc = Inr tc'"
    using sample_create_runs by blast
  from create_account_effect [OF *] * show ?thesis
    by (intro exI [of _ tc'])
       (simp add: sample_system_ic_def sample_system_accounts_def configure_def get_def Let_def)
qed

section \<open>Runs on a nonce account\<close>

text \<open>A codec with the layout of \<open>bincode\<close>: two 4-byte tags, then the fields.\<close>

definition sample_data_bytes :: "NonceData \<Rightarrow> bytes" where
  "sample_data_bytes d =
     le_bytes 32 (authority d) @ le_bytes 32 (durable_nonce d) @ le_bytes 8 (nonce_lamports_per_signature d)"

definition sample_state_bytes :: "NonceState \<Rightarrow> bytes" where
  "sample_state_bytes st =
     (case st of Uninitialized \<Rightarrow> le_bytes 4 (0 :: u32)
      | Initialized d \<Rightarrow> le_bytes 4 (1 :: u32) @ sample_data_bytes d)"

definition sample_nonce_bytes :: "NonceVersions \<Rightarrow> bytes" where
  "sample_nonce_bytes v =
     (case v of Legacy st \<Rightarrow> le_bytes 4 (0 :: u32) @ sample_state_bytes st
      | Current st \<Rightarrow> le_bytes 4 (1 :: u32) @ sample_state_bytes st)"

definition sample_nonce_read :: "bytes \<Rightarrow> NonceVersions option" where
  "sample_nonce_read bs =
     (let st = (if from_le_bytes (take 4 (drop 4 bs)) = (0 :: u32) then Uninitialized
                else Initialized
                  \<lparr>authority = from_le_bytes (take 32 (drop 8 bs)),
                   durable_nonce = from_le_bytes (take 32 (drop 40 bs)),
                   nonce_lamports_per_signature = from_le_bytes (take 8 (drop 72 bs))\<rparr>)
      in if length bs < 8 then None
         else if from_le_bytes (take 4 bs) = (0 :: u32) then Some (Legacy st) else Some (Current st))"

definition sample_nonce_codec :: "NonceVersions bincode" where
  "sample_nonce_codec =
     \<lparr>bc_serialize = (\<lambda>v. Some (sample_nonce_bytes v)), bc_deserialize = sample_nonce_read\<rparr>"

lemma sample_nonce_read_bytes: "sample_nonce_read (sample_nonce_bytes v @ rest) = Some v"
proof -
  have st: "v = Legacy Uninitialized \<or> v = Current Uninitialized \<or>
      (\<exists>d. v = Legacy (Initialized d)) \<or> (\<exists>d. v = Current (Initialized d))"
    by (metis NonceState.exhaust NonceVersions.exhaust)
  then show ?thesis
    by (elim disjE exE)
       (simp_all add: sample_nonce_read_def sample_nonce_bytes_def sample_state_bytes_def
          sample_data_bytes_def from_le_bytes_le_bytes Let_def del: le_bytes.simps)
qed

lemma sample_nonce_law: "bincode_law sample_nonce_codec v"
  by (simp add: bincode_law_def sample_nonce_codec_def sample_nonce_read_bytes)

lemma sample_nonce_codec_simps:
  "bc_serialize sample_nonce_codec v = Some (sample_nonce_bytes v)"
  "bc_deserialize sample_nonce_codec (sample_nonce_bytes v) = Some v"
  using sample_nonce_read_bytes [of v "[]"] by (simp_all add: sample_nonce_codec_def)

definition sample_nonce :: NonceVersions where
  "sample_nonce = Current (Initialized (NonceData_new 7 5 5000))"

lemma length_sample_nonce_bytes:
  "length (sample_nonce_bytes (Current (Initialized d))) = 80"
  "length (sample_nonce_bytes (Current Uninitialized)) = 8"
  by (simp_all add: sample_nonce_bytes_def sample_state_bytes_def sample_data_bytes_def)

definition sample_ia :: "IndexOfAccount \<Rightarrow> InstructionAccount" where
  "sample_ia i =
     \<lparr>ia_index_in_transaction = i, ia_index_in_caller = i, ia_index_in_callee = i,
      ia_is_signer = (i = 5), ia_is_writable = (i < 3)\<rparr>"

definition sample_nonce_ic :: "IndexOfAccount list \<Rightarrow> InstructionContext" where
  "sample_nonce_ic is = configure [0] (map sample_ia is) [] InstructionContext_default"

definition sample_nonce_tc :: "IndexOfAccount list \<Rightarrow> TransactionContext" where
  "sample_nonce_tc is =
     (TransactionContext_new
        [(0, shared_new 1 0 0), (8, (shared_new 3000000 0 0)\<lparr>data := sample_nonce_bytes sample_nonce\<rparr>),
         (9, shared_new 0 0 0), (RecentBlockhashes_id, shared_new 1 0 5), (Rent_id, shared_new 1 0 5),
         (7, shared_new 1 0 0)]
        (Some Rent_default) 5 64)
       \<lparr>instruction_trace := [sample_nonce_ic is, InstructionContext_default], instruction_stack := [0]\<rparr>"

definition sample_nonce_env :: InvokeEnv where
  "sample_nonce_env =
     \<lparr>sysvar_cache = SysvarCache_default\<lparr>sc_rent := Some Rent_default,
        sc_recent_blockhashes := Some [\<lparr>entry_blockhash = 77, entry_lamports_per_signature = 5000\<rparr>]\<rparr>,
      feature_set = (\<lambda>_. None), blockhash = 77, lamports_per_signature = 5000\<rparr>"

lemmas sample_nonce_exec =
  sample_ia_def sample_nonce_ic_def sample_nonce_tc_def sample_nonce_env_def sample_nonce_def
  sample_nonce_codec_simps length_sample_nonce_bytes from_blockhash_def sample_sha256_def
  advance_nonce_account_def withdraw_nonce_account_def withdraw_nonce_signer_def
  sysvar_recent_blockhashes_def sysvar_rent_def check_sysvar_account_def get_rent_def
  get_recent_blockhashes_def Rent_id_def RecentBlockhashes_id_def NonceVersions_new_def
  DURABLE_NONCE_HASH_PREFIX_def NonceData_new_def Let_def

lemma sample_advance_runs:
  "\<exists>tc'. process_system_instruction sample_sha256 sample_nonce_codec sample_nonce_env
     AdvanceNonceAccount {7} (sample_nonce_ic [1, 3, 5]) (sample_nonce_tc [1, 3, 5]) = Inr tc'"
  by (simp add: sample_nonce_exec exec overwrite_front_def)

lemma sample_minimum: "minimum_balance Rent_default 80 = 1447680"
  using default_minimum_exact [of 80] by (simp add: word_unat_eq_iff)

lemma sample_withdraw_runs:
  "\<exists>tc'. process_system_instruction sample_sha256 sample_nonce_codec sample_nonce_env
     (WithdrawNonceAccount 1000000) {7} (sample_nonce_ic [1, 2, 3, 4, 5]) (sample_nonce_tc [1, 2, 3, 4, 5])
       = Inr tc' \<and> lamports (account_values tc' ! 2) = 1000000"
  by (simp add: sample_nonce_exec sample_minimum exec)

lemma sample_nonce_old:
  "bc_deserialize sample_nonce_codec (data (account_values (sample_nonce_tc is) ! 1)) = Some sample_nonce"
  by (simp add: sample_nonce_tc_def account_values_def TransactionContext_new_def sample_nonce_codec_simps)

theorem advance_nonce_retires_witness:
  "\<exists>tc' v'. process_system_instruction sample_sha256 sample_nonce_codec sample_nonce_env
       AdvanceNonceAccount {7} (sample_nonce_ic [1, 3, 5]) (sample_nonce_tc [1, 3, 5]) = Inr tc' \<and>
     bc_deserialize sample_nonce_codec (data (account_values tc' ! 1)) = Some v' \<and>
     verify_recent_blockhash v' 5 = None \<and>
     verify_recent_blockhash v' 45 = Some (NonceData_new 7 45 5000)"
proof -
  obtain tc' where *: "process_system_instruction sample_sha256 sample_nonce_codec sample_nonce_env
     AdvanceNonceAccount {7} (sample_nonce_ic [1, 3, 5]) (sample_nonce_tc [1, 3, 5]) = Inr tc'"
    using sample_advance_runs by blast
  have "get (instruction_accounts (sample_nonce_ic [1, 3, 5])) 0 = Some (sample_ia 1)"
    by (simp add: sample_nonce_ic_def configure_def get_def)
  from advance_nonce_retires [OF * this sample_nonce_law] show ?thesis
    using * sample_nonce_old [of "[1, 3, 5]"]
    by (auto simp: Let_def sample_ia_def sample_nonce_def sample_nonce_env_def from_blockhash_def
        hashv_def sample_sha256_def DURABLE_NONCE_HASH_PREFIX_def NonceData_new_def)
qed

theorem withdraw_nonce_keeps_minimum_witness:
  "\<exists>tc'. process_system_instruction sample_sha256 sample_nonce_codec sample_nonce_env
       (WithdrawNonceAccount 1000000) {7} (sample_nonce_ic [1, 2, 3, 4, 5])
       (sample_nonce_tc [1, 2, 3, 4, 5]) = Inr tc' \<and>
     (lamports (account_values tc' ! 1) = 0 \<or>
      minimum_balance Rent_default 80 \<le> lamports (account_values tc' ! 1))"
proof -
  obtain tc' where *: "process_system_instruction sample_sha256 sample_nonce_codec sample_nonce_env
     (WithdrawNonceAccount 1000000) {7} (sample_nonce_ic [1, 2, 3, 4, 5])
     (sample_nonce_tc [1, 2, 3, 4, 5]) = Inr tc'"
    using sample_withdraw_runs by blast
  have "get (instruction_accounts (sample_nonce_ic [1, 2, 3, 4, 5])) 0 = Some (sample_ia 1)"
    "get (instruction_accounts (sample_nonce_ic [1, 2, 3, 4, 5])) 1 = Some (sample_ia 2)"
    "ia_index_in_transaction (sample_ia 1) \<noteq> ia_index_in_transaction (sample_ia 2)"
    "sc_rent (sysvar_cache sample_nonce_env) = Some Rent_default"
    "bc_deserialize sample_nonce_codec (data (account_values (sample_nonce_tc [1, 2, 3, 4, 5]) !
       unat (ia_index_in_transaction (sample_ia 1)))) = Some sample_nonce"
    "nonce_state sample_nonce = Initialized (NonceData_new 7 5 5000)"
    using sample_nonce_old [of "[1, 2, 3, 4, 5]"]
    by (simp_all add: sample_nonce_ic_def configure_def get_def sample_ia_def sample_nonce_env_def
        sample_nonce_def)
  note result = withdraw_nonce_keeps_minimum [OF * this sample_nonce_law]
  have "length (data (account_values (sample_nonce_tc [1, 2, 3, 4, 5]) ! 1)) = 80"
    by (simp add: sample_nonce_tc_def account_values_def TransactionContext_new_def
        length_sample_nonce_bytes sample_nonce_def)
  with result * show ?thesis
    by (intro exI [of _ tc']) (auto simp: Let_def sample_ia_def)
qed

end
