(* ===== verification/SystemProgress.thy ===== *)
theory SystemProgress
  imports SystemProperties
begin

text \<open>
  The other direction of the properties of the system program: a transfer that is signed, funded
  and within the rules does succeed.  No error path of the runtime or of the program stops it.
\<close>

lemma borrow_succeeds:
  assumes "get (instruction_accounts ic) (unat i) = Some ia" and "ia_is_writable ia" and "accounts_fit ic"
    and "unat (ia_index_in_transaction ia) < length (accounts tc)"
    and "\<not> borrow_flags tc ! unat (ia_index_in_transaction ia)"
  obtains ba tc1 where "try_borrow_instruction_account ic tc i = Inr (ba, tc1)" "ba_instruction_context ba = ic"
    "ba_index_in_transaction ba = ia_index_in_transaction ia" "is_writable ba"
proof -
  let ?cell = "accounts tc ! unat (ia_index_in_transaction ia)"
  let ?ba = "\<lparr>ba_instruction_context = ic, ba_index_in_transaction = ia_index_in_transaction ia,
    ba_index_in_instruction = saturating_add (get_number_of_program_accounts ic) i\<rparr>"
  have free: "\<not> cell_borrowed ?cell" using assms(4,5) by (simp add: borrow_flags_def)
  have n: "unat (get_number_of_program_accounts ic) = length (program_accounts ic)"
    using assms(3) by (simp add: get_number_of_program_accounts_def accounts_fit_def unat_of_nat)
  have small: "unat (get_number_of_program_accounts ic) + unat i < 2 ^ 16"
    using assms(1,3) n by (simp add: accounts_fit_def get_eq_Some_iff)
  have sub: "unat (saturating_sub (saturating_add (get_number_of_program_accounts ic) i)
      (get_number_of_program_accounts ic)) = unat i"
    using small by (simp add: unat_saturating_sub unat_saturating_add)
  have "\<not> saturating_add (get_number_of_program_accounts ic) i < get_number_of_program_accounts ic"
    using le_saturating_add [of "get_number_of_program_accounts ic" i] by simp
  then have "is_writable ?ba"
    using assms(1,2) by (simp add: is_writable_def Let_def is_instruction_account_writable_def sub unwrap_or_false_def)
  moreover have "try_borrow_instruction_account ic tc i =
      Inr (?ba, set_cell ?ba (?cell\<lparr>cell_borrowed := True\<rparr>) tc)"
    using assms(1,4) free
    by (simp add: try_borrow_instruction_account_def try_borrow_account_def ic_access_defs get_def Let_def)
  ultimately show ?thesis by (intro that) simp_all
qed

text \<open>A block that sets the lamports of an instruction account goes through.\<close>

definition writable_account :: "InstructionContext \<Rightarrow> TransactionContext \<Rightarrow> InstructionAccount \<Rightarrow> bool" where
  "writable_account ic tc ia \<longleftrightarrow>
     (let j = unat (ia_index_in_transaction ia) in
      ia_is_writable ia \<and> j < length (accounts tc) \<and> \<not> borrow_flags tc ! j \<and> \<not> executable (account_values tc ! j))"

lemma lamports_block_succeeds:
  assumes ia: "get (instruction_accounts ic) (unat i) = Some ia" and w: "writable_account ic tc ia"
    and fit: "accounts_fit ic" and flags: "length (account_touched_flags tc) = length (accounts tc)"
    and body: "\<And>ba tc1. ba_account ba tc1 = account_values tc ! unat (ia_index_in_transaction ia) \<Longrightarrow>
      body ba tc1 = set_lamports ba l tc1"
    and rule: "lamports (account_values tc ! unat (ia_index_in_transaction ia)) \<le> l \<or>
      get_last_program_key ic tc = Inr (owner (account_values tc ! unat (ia_index_in_transaction ia)))"
  shows "\<exists>tc'. with_instruction_account ic tc i body = Inr tc'"
proof -
  from w have j: "unat (ia_index_in_transaction ia) < length (accounts tc)"
    and rest: "ia_is_writable ia" "\<not> borrow_flags tc ! unat (ia_index_in_transaction ia)"
      "\<not> executable (account_values tc ! unat (ia_index_in_transaction ia))"
    by (simp_all add: writable_account_def Let_def)
  obtain ba tc1 where b: "try_borrow_instruction_account ic tc i = Inr (ba, tc1)" "ba_instruction_context ba = ic"
    "ba_index_in_transaction ba = ia_index_in_transaction ia" "is_writable ba"
    by (rule borrow_succeeds [OF ia rest(1) fit j rest(2)])
  note bi = try_borrow_instruction_account_Inr [OF b(1)]
  have acct: "ba_account ba tc1 = account_values tc ! unat (ia_index_in_transaction ia)"
    using ba_account_values [OF bi(2)] bi(6) b(3) by simp
  have frame: "same_frame tc tc1" unfolding bi(4) by (rule set_cell_same_frame)
  have "get_last_program_key ic tc1 = get_last_program_key ic tc"
    using frame by (intro get_last_program_key_cong) (simp add: same_frame_def)
  then have "is_owned_by_current_program ba tc1 \<or> \<not> l < get_lamports ba tc1"
    using rule by (auto simp: is_owned_by_current_program_def b(2) get_owner_def get_lamports_def acct unwrap_or_false_def)
  moreover have "unat (ba_index_in_transaction ba) < length (account_touched_flags tc1)"
    using frame flags j by (simp add: same_frame_def b(3))
  ultimately have "\<exists>tc2. set_lamports ba l tc1 = Inr tc2"
    using b(4) rest(3) by (auto simp: set_lamports_def touch_def is_executable_def acct)
  then show ?thesis using b(1) body [OF acct] by (auto simp: with_instruction_account_def)
qed

lemma debit_credit_0: "credit i 0 (debit j 0 vs) = vs"
  by (simp add: credit_def debit_def)

lemma transfer_verified_succeeds:
  assumes f: "get (instruction_accounts ic) (unat i) = Some f" and t: "get (instruction_accounts ic) (unat j) = Some t"
    and fit: "accounts_fit ic" and flags: "length (account_touched_flags tc) = length (accounts tc)"
    and w: "writable_account ic tc f" "writable_account ic tc t"
    and own: "get_last_program_key ic tc = Inr (owner (account_values tc ! unat (ia_index_in_transaction f)))"
    and funds: "data (account_values tc ! unat (ia_index_in_transaction f)) = []"
      "l \<le> lamports (account_values tc ! unat (ia_index_in_transaction f))"
      "unat (lamports (debit (unat (ia_index_in_transaction f)) l (account_values tc) !
         unat (ia_index_in_transaction t))) + unat l < 2 ^ 64"
  shows "\<exists>tc'. transfer_verified i j l ic tc = Inr tc'"
proof -
  let ?fi = "unat (ia_index_in_transaction f)" and ?ti = "unat (ia_index_in_transaction t)" and ?vs = "account_values tc"
  let ?body = "\<lambda>from tc. if get_data from tc \<noteq> [] then Inl InvalidArgument
      else if get_lamports from tc < l then Inl (system_error SE_ResultWithNegativeLamports)
      else checked_sub_lamports from l tc"
  have "\<exists>tc1. with_instruction_account ic tc i ?body = Inr tc1"
    using funds(1,2) own
    by (intro lamports_block_succeeds [OF f w(1) fit flags, where l = "lamports (?vs ! ?fi) - l"])
      (simp_all add: get_data_def get_lamports_def checked_sub_lamports_def checked_sub_def leD)
  then obtain tc1 where debit: "with_instruction_account ic tc i ?body = Inr tc1" by blast
  have run: "program_run ic tc tc1"
    by (rule with_account_run [OF debit]) (auto intro: sub_lamports_write.run split: if_splits)
  have vals: "account_values tc1 = debit ?fi l ?vs"
    using debit
  proof (rule with_account_Inr)
    fix ba t1 t2 ia
    assume *: "get (instruction_accounts ic) (unat i) = Some ia"
      "ba_index_in_transaction ba = ia_index_in_transaction ia" "in_range ba t1"
      "account_values t1 = account_values tc" "?body ba t1 = Inr t2" "account_values tc1 = account_values t2"
    then have "checked_sub_lamports ba l t1 = Inr t2" by (auto split: if_splits)
    then show ?thesis using checked_sub_lamports_values [OF _ *(3)] * f by simp
  qed
  have frame: "same_frame tc tc1" using program_run_frame [OF run] .
  have "writable_account ic tc1 t"
    using w(2) run frame by (auto simp: writable_account_def Let_def program_run_def same_frame_def vals nth_debit_credit)
  then have "\<exists>tc'. with_instruction_account ic tc1 j (\<lambda>to tc. checked_add_lamports to l tc) = Inr tc'"
    using funds(3) flags frame le_saturating_add
    by (intro lamports_block_succeeds [OF t _ fit, where l = "lamports (debit ?fi l ?vs ! ?ti) + l"])
      (auto simp: same_frame_def vals checked_add_lamports_def checked_add_def get_lamports_def word_le_nat_alt
        unat_plus_no_overflow)
  then show ?thesis using debit by (auto simp: transfer_verified_def)
qed

text \<open>
  C28: A transfer within the rules succeeds.  When the funding account signed, carries no data, is
  owned by the running program and holds the amount, both accounts are writable, not executable
  and not borrowed, and the recipient's balance does not overflow, then \<open>Transfer\<close> returns without
  an error, with the amount taken from the one account and added to the other.
\<close>

theorem transfer_succeeds:
  assumes "get (instruction_accounts ic) 0 = Some f" and "get (instruction_accounts ic) 1 = Some t"
    and "accounts_fit ic" and "length (account_touched_flags tc) = length (accounts tc)"
    and "writable_account ic tc f" and "writable_account ic tc t" and "ia_is_signer f"
    and "get_last_program_key ic tc = Inr (owner (account_values tc ! unat (ia_index_in_transaction f)))"
    and "data (account_values tc ! unat (ia_index_in_transaction f)) = []"
    and "l \<le> lamports (account_values tc ! unat (ia_index_in_transaction f))"
    and "unat (lamports (debit (unat (ia_index_in_transaction f)) l (account_values tc) !
           unat (ia_index_in_transaction t))) + unat l < 2 ^ 64"
  shows "\<exists>tc'. process_system_instruction sha256 bc env (Transfer l) signers ic tc = Inr tc' \<and>
    account_values tc' = credit (unat (ia_index_in_transaction t)) l
      (debit (unat (ia_index_in_transaction f)) l (account_values tc))"
proof -
  have f: "get (instruction_accounts ic) (unat (0 :: IndexOfAccount)) = Some f"
    and t: "get (instruction_accounts ic) (unat (1 :: IndexOfAccount)) = Some t" using assms(1,2) by simp_all
  have n: "\<not> get_number_of_instruction_accounts ic < 2"
    using assms(2,3) by (auto simp: get_number_of_instruction_accounts_def accounts_fit_def word_less_nat_alt
        unat_of_nat take_bit_nat_eq_self get_eq_Some_iff)
  obtain tc' where run: "transfer_verified 0 1 l ic tc = Inr tc'"
    using transfer_verified_succeeds [OF f t assms(3-6,8-11)] by blast
  show ?thesis
  proof (cases "\<not> is_active (feature_set env) system_transfer_zero_check \<and> l = 0")
    case True
    then show ?thesis using n
      by (simp add: process_system_instruction_def check_number_of_instruction_accounts_def transfer_def debit_credit_0)
  next
    case False
    then show ?thesis using n f assms(7) run transfer_verified_effect [OF run f t]
      by (auto simp: process_system_instruction_def check_number_of_instruction_accounts_def transfer_def
          is_instruction_account_signer_def)
  qed
qed

theorem transfer_succeeds_witness:
  "\<exists>tc'. process_system_instruction sample_sha256 sample_codec sample_env (Transfer 30) {8, 9} sample_system_ic
       sample_system_tc = Inr tc' \<and>
     map lamports (account_values tc') = [1, 70, 30]"
proof -
  let ?f = "sample_system_accounts ! 0" and ?t = "sample_system_accounts ! 1"
  have "\<exists>tc'. process_system_instruction sample_sha256 sample_codec sample_env (Transfer 30) {8, 9} sample_system_ic
      sample_system_tc = Inr tc' \<and>
    account_values tc' = credit (unat (ia_index_in_transaction ?t)) 30
      (debit (unat (ia_index_in_transaction ?f)) 30 (account_values sample_system_tc))"
  proof (rule transfer_succeeds)
    show "writable_account sample_system_ic sample_system_tc ?f" "writable_account sample_system_ic sample_system_tc ?t"
      by (simp_all add: writable_account_def borrow_flags_def exec)
    show "unat (lamports (debit (unat (ia_index_in_transaction ?f)) 30 (account_values sample_system_tc) !
        unat (ia_index_in_transaction ?t))) + unat (30 :: u64) < 2 ^ 64" by (simp add: debit_def exec)
  qed (simp_all add: accounts_fit_def get_def exec)
  then show ?thesis by (auto simp: credit_def debit_def exec)
qed

end
