(* ===== verification/VoteState.thy ===== *)
theory VoteState
  imports Errors Rent Sysvars
begin

text \<open>
  The state of a vote account: \<^verbatim>\<open>sdk/program/src/vote/state/mod.rs\<close>,
  \<^verbatim>\<open>vote_state_versions.rs\<close>, \<^verbatim>\<open>vote_state_0_23_5.rs\<close> and
  \<^verbatim>\<open>sdk/program/src/vote/authorized_voters.rs\<close>.  A \<open>VecDeque\<close> is a list with its front first,
  a \<open>BTreeMap\<close> the list of its entries in ascending order of the key.  The lemmas show that
  voting keeps the tower well formed, what happens to the credits and which key may vote.
\<close>

section \<open>Lockouts\<close>

definition MAX_LOCKOUT_HISTORY :: nat where "MAX_LOCKOUT_HISTORY = 31"
definition INITIAL_LOCKOUT :: nat where "INITIAL_LOCKOUT = 2"
definition MAX_EPOCH_CREDITS_HISTORY :: nat where "MAX_EPOCH_CREDITS_HISTORY = 64"

record Lockout =
  lk_slot :: slot
  confirmation_count :: u32

definition Lockout_new_with_confirmation_count :: "slot \<Rightarrow> u32 \<Rightarrow> Lockout" where
  "Lockout_new_with_confirmation_count s c = \<lparr>lk_slot = s, confirmation_count = c\<rparr>"

definition Lockout_new :: "slot \<Rightarrow> Lockout" where
  "Lockout_new s = Lockout_new_with_confirmation_count s 1"

text \<open>\<open>pow\<close> wraps in the release profile.\<close>

definition lockout :: "Lockout \<Rightarrow> u64" where
  "lockout self = of_nat INITIAL_LOCKOUT ^ unat (confirmation_count self)"

definition last_locked_out_slot :: "Lockout \<Rightarrow> slot" where
  "last_locked_out_slot self = saturating_add (lk_slot self) (lockout self)"

definition is_locked_out_at_slot :: "Lockout \<Rightarrow> slot \<Rightarrow> bool" where
  "is_locked_out_at_slot self s \<longleftrightarrow> s \<le> last_locked_out_slot self"

definition increase_confirmation_count :: "u32 \<Rightarrow> Lockout \<Rightarrow> Lockout" where
  "increase_confirmation_count n self =
     self\<lparr>confirmation_count := saturating_add (confirmation_count self) n\<rparr>"

section \<open>Votes and updates\<close>

text \<open>\<open>UnixTimestamp\<close> is an \<open>i64\<close>.\<close>

record Vote =
  vote_slots :: "slot list"
  vote_hash :: hash
  vote_timestamp :: "int option"

definition Vote_new :: "slot list \<Rightarrow> hash \<Rightarrow> Vote" where
  "Vote_new slots h = \<lparr>vote_slots = slots, vote_hash = h, vote_timestamp = None\<rparr>"

definition Vote_last_voted_slot :: "Vote \<Rightarrow> slot option" where
  "Vote_last_voted_slot self = last_opt (vote_slots self)"

record VoteStateUpdate =
  lockouts :: "Lockout list"
  update_root :: "slot option"
  update_hash :: hash
  update_timestamp :: "int option"

definition VoteStateUpdate_from :: "(slot \<times> u32) list \<Rightarrow> VoteStateUpdate" where
  "VoteStateUpdate_from recent_slots =
     \<lparr>lockouts = map (\<lambda>(s, c). Lockout_new_with_confirmation_count s c) recent_slots,
      update_root = None, update_hash = 0, update_timestamp = None\<rparr>"

definition VoteStateUpdate_new :: "Lockout list \<Rightarrow> slot option \<Rightarrow> hash \<Rightarrow> VoteStateUpdate" where
  "VoteStateUpdate_new ls r h =
     \<lparr>lockouts = ls, update_root = r, update_hash = h, update_timestamp = None\<rparr>"

definition VoteStateUpdate_slots :: "VoteStateUpdate \<Rightarrow> slot list" where
  "VoteStateUpdate_slots self = map lk_slot (lockouts self)"

definition VoteStateUpdate_last_voted_slot :: "VoteStateUpdate \<Rightarrow> slot option" where
  "VoteStateUpdate_last_voted_slot self = map_option lk_slot (last_opt (lockouts self))"

record VoteInit =
  vi_node_pubkey :: pubkey
  vi_authorized_voter :: pubkey
  vi_authorized_withdrawer :: pubkey
  vi_commission :: u8

datatype VoteAuthorize = Voter | Withdrawer

record BlockTimestamp =
  bt_slot :: slot
  bt_timestamp :: int

section \<open>The circular buffer of prior voters\<close>

text \<open>
  The buffer has 32 items, and in a buffer made by \<open>CircBuf_default\<close> and \<open>CircBuf_append\<close> the index
  stays below that, so the index panic of the array is left out.
\<close>

definition MAX_ITEMS :: nat where "MAX_ITEMS = 32"

record 'i CircBuf =
  buf :: "'i list"
  idx :: nat
  is_empty :: bool

definition CircBuf_default :: "'i \<Rightarrow> 'i CircBuf" where
  "CircBuf_default d = \<lparr>buf = replicate MAX_ITEMS d, idx = MAX_ITEMS - 1, is_empty = True\<rparr>"

definition CircBuf_append :: "'i CircBuf \<Rightarrow> 'i \<Rightarrow> 'i CircBuf" where
  "CircBuf_append self item =
     (let i = (idx self + 1) mod MAX_ITEMS
      in self\<lparr>idx := i, buf := (buf self)[i := item], is_empty := False\<rparr>)"

definition CircBuf_last :: "'i CircBuf \<Rightarrow> 'i option" where
  "CircBuf_last self = (if is_empty self then None else Some (buf self ! idx self))"

section \<open>Authorized voters\<close>

type_synonym AuthorizedVoters = "(epoch \<times> pubkey) list"

text \<open>\<open>BTreeMap::insert\<close>.\<close>

fun btree_insert :: "'k::linorder \<Rightarrow> 'v \<Rightarrow> ('k \<times> 'v) list \<Rightarrow> ('k \<times> 'v) list" where
  "btree_insert k v [] = [(k, v)]"
| "btree_insert k v ((k', v') # m) =
     (if k < k' then (k, v) # (k', v') # m
      else if k = k' then (k, v) # m
      else (k', v') # btree_insert k v m)"

definition AuthorizedVoters_new :: "epoch \<Rightarrow> pubkey \<Rightarrow> AuthorizedVoters" where
  "AuthorizedVoters_new e k = [(e, k)]"

definition get_or_calculate_authorized_voter_for_epoch ::
    "AuthorizedVoters \<Rightarrow> epoch \<Rightarrow> (pubkey \<times> bool) option" where
  "get_or_calculate_authorized_voter_for_epoch self epoch =
     (case map_of self epoch of
        None \<Rightarrow> map_option (\<lambda>(_, k). (k, False)) (last_opt (filter (\<lambda>(e, _). e < epoch) self))
      | Some k \<Rightarrow> Some (k, True))"

definition AuthorizedVoters_get :: "AuthorizedVoters \<Rightarrow> epoch \<Rightarrow> pubkey option" where
  "AuthorizedVoters_get self epoch =
     map_option fst (get_or_calculate_authorized_voter_for_epoch self epoch)"

definition get_and_cache_authorized_voter_for_epoch ::
    "AuthorizedVoters \<Rightarrow> epoch \<Rightarrow> (pubkey \<times> AuthorizedVoters) option" where
  "get_and_cache_authorized_voter_for_epoch self epoch =
     map_option
       (\<lambda>(k, existed). (k, if \<not> existed then btree_insert epoch k self else self))
       (get_or_calculate_authorized_voter_for_epoch self epoch)"

definition AuthorizedVoters_insert :: "AuthorizedVoters \<Rightarrow> epoch \<Rightarrow> pubkey \<Rightarrow> AuthorizedVoters" where
  "AuthorizedVoters_insert self epoch k = btree_insert epoch k self"

definition purge_authorized_voters :: "AuthorizedVoters \<Rightarrow> epoch \<Rightarrow> 'e fault + AuthorizedVoters" where
  "purge_authorized_voters self current_epoch =
     (let m = filter (\<lambda>(e, _). \<not> e < current_epoch) self
      in and_then (assert_that (m \<noteq> [])) (\<lambda>_. Inr m))"

definition AuthorizedVoters_last :: "AuthorizedVoters \<Rightarrow> (epoch \<times> pubkey) option" where
  "AuthorizedVoters_last self = last_opt self"

definition AuthorizedVoters_contains :: "AuthorizedVoters \<Rightarrow> epoch \<Rightarrow> bool" where
  "AuthorizedVoters_contains self epoch \<longleftrightarrow> map_of self epoch \<noteq> None"

section \<open>The vote state\<close>

record VoteState =
  node_pubkey :: pubkey
  authorized_withdrawer :: pubkey
  commission :: u8
  votes :: "Lockout list"
  root_slot :: "slot option"
  authorized_voters :: AuthorizedVoters
  prior_voters :: "(pubkey \<times> epoch \<times> epoch) CircBuf"
  epoch_credits :: "(epoch \<times> u64 \<times> u64) list"
  last_timestamp :: BlockTimestamp

definition VoteState_default :: VoteState where
  "VoteState_default =
     \<lparr>node_pubkey = 0, authorized_withdrawer = 0, commission = 0, votes = [], root_slot = None,
      authorized_voters = [], prior_voters = CircBuf_default (0, 0, 0), epoch_credits = [],
      last_timestamp = \<lparr>bt_slot = 0, bt_timestamp = 0\<rparr>\<rparr>"

definition VoteState_new :: "VoteInit \<Rightarrow> Clock \<Rightarrow> VoteState" where
  "VoteState_new vote_init clock =
     VoteState_default
       \<lparr>node_pubkey := vi_node_pubkey vote_init,
        authorized_voters := AuthorizedVoters_new (clock_epoch clock) (vi_authorized_voter vote_init),
        authorized_withdrawer := vi_authorized_withdrawer vote_init,
        commission := vi_commission vote_init\<rparr>"

definition get_authorized_voter :: "VoteState \<Rightarrow> epoch \<Rightarrow> pubkey option" where
  "get_authorized_voter self epoch = AuthorizedVoters_get (authorized_voters self) epoch"

definition VoteState_size_of :: nat where
  "VoteState_size_of = 3731"

definition get_rent_exempt_reserve :: "Rent \<Rightarrow> u64" where
  "get_rent_exempt_reserve rent = minimum_balance rent VoteState_size_of"

text \<open>
  \<open>commission_split\<close> computes in \<open>u128\<close> and casts the quotients back; the casts and products
  never overflow, which the lemmas below confirm.
\<close>

definition commission_split :: "VoteState \<Rightarrow> u64 \<Rightarrow> u64 \<times> u64 \<times> bool" where
  "commission_split self on =
     (let split = min (commission self) 100 in
      if split = 0 then (0, on, False)
      else if split = 100 then (on, 0, False)
      else
        let on' = ucast on :: u128;
            mine = (on' * ucast split) div 100;
            theirs = (on' * ucast (100 - split)) div 100
        in (ucast mine, ucast theirs, True))"

definition contains_slot :: "VoteState \<Rightarrow> slot \<Rightarrow> bool" where
  "contains_slot self candidate_slot \<longleftrightarrow>
     is_ok (binary_search_by (\<lambda>l. cmp (lk_slot l) candidate_slot) (votes self))"

definition last_lockout :: "VoteState \<Rightarrow> Lockout option" where
  "last_lockout self = last_opt (votes self)"

definition last_voted_slot :: "VoteState \<Rightarrow> slot option" where
  "last_voted_slot self = map_option lk_slot (last_lockout self)"

definition nth_recent_vote :: "VoteState \<Rightarrow> nat \<Rightarrow> Lockout option" where
  "nth_recent_vote self pos =
     (if pos < length (votes self) then get (votes self) (length (votes self) - pos - 1) else None)"

definition tower :: "VoteState \<Rightarrow> slot list" where
  "tower self = map lk_slot (votes self)"

definition current_epoch :: "VoteState \<Rightarrow> epoch" where
  "current_epoch self = (if epoch_credits self = [] then 0 else fst (last (epoch_credits self)))"

definition credits :: "VoteState \<Rightarrow> u64" where
  "credits self = (if epoch_credits self = [] then 0 else fst (snd (last (epoch_credits self))))"

text \<open>The loop of \<open>pop_expired_votes\<close>, on the votes from the back.\<close>

fun pop_expired :: "slot \<Rightarrow> Lockout list \<Rightarrow> Lockout list" where
  "pop_expired next_vote_slot [] = []"
| "pop_expired next_vote_slot (v # vs) =
     (if \<not> is_locked_out_at_slot v next_vote_slot then pop_expired next_vote_slot vs else v # vs)"

definition pop_expired_votes :: "VoteState \<Rightarrow> slot \<Rightarrow> VoteState" where
  "pop_expired_votes self next_vote_slot =
     self\<lparr>votes := rev (pop_expired next_vote_slot (rev (votes self)))\<rparr>"

definition double_lockout :: "nat \<Rightarrow> nat \<Rightarrow> Lockout \<Rightarrow> Lockout" where
  "double_lockout stack_depth i v =
     (if i + unat (confirmation_count v) < stack_depth then increase_confirmation_count 1 v else v)"

definition double_lockouts :: "VoteState \<Rightarrow> VoteState" where
  "double_lockouts self =
     (let stack_depth = length (votes self)
      in self\<lparr>votes := map (\<lambda>(i, v). double_lockout stack_depth i v)
           (enumerate 0 (votes self))\<rparr>)"

text \<open>Replacing the last entry of a vector (\<open>last_mut\<close>).\<close>

definition set_last :: "'a \<Rightarrow> 'a list \<Rightarrow> 'a list" where
  "set_last x xs = butlast xs @ [x]"

definition increment_credits :: "VoteState \<Rightarrow> epoch \<Rightarrow> u64 \<Rightarrow> VoteState" where
  "increment_credits self epoch n =
     (let ec = epoch_credits self;
          ec' =
            (if ec = [] then [(epoch, 0, 0)]
             else if epoch \<noteq> fst (last ec) then
               let (e, cs, prev) = last ec;
                   ec1 = (if cs \<noteq> prev then ec @ [(epoch, cs, cs)] else set_last (epoch, cs, prev) ec)
               in if MAX_EPOCH_CREDITS_HISTORY < length ec1 then tl ec1 else ec1
             else ec);
          (e, cs, prev) = last ec'
      in self\<lparr>epoch_credits := set_last (e, saturating_add cs n, prev) ec'\<rparr>)"

definition process_next_vote_slot :: "VoteState \<Rightarrow> slot \<Rightarrow> epoch \<Rightarrow> VoteState" where
  "process_next_vote_slot self next_vote_slot epoch =
     (if case last_voted_slot self of None \<Rightarrow> False | Some lv \<Rightarrow> next_vote_slot \<le> lv then self
      else
        let vote = Lockout_new next_vote_slot;
            s1 = pop_expired_votes self next_vote_slot;
            s2 = (if length (votes s1) = MAX_LOCKOUT_HISTORY
                  then increment_credits
                         (s1\<lparr>votes := tl (votes s1), root_slot := Some (lk_slot (hd (votes s1)))\<rparr>)
                         epoch 1
                  else s1)
        in double_lockouts (s2\<lparr>votes := votes s2 @ [vote]\<rparr>))"

definition get_and_update_authorized_voter ::
    "VoteState \<Rightarrow> epoch \<Rightarrow> InstructionError fault + (pubkey \<times> VoteState)" where
  "get_and_update_authorized_voter self epoch_now =
     and_then (faulty (ok_or (get_and_cache_authorized_voter_for_epoch (authorized_voters self) epoch_now)
        InvalidAccountData)) (\<lambda>(k, av).
     and_then (purge_authorized_voters av epoch_now) (\<lambda>av.
     Inr (k, self\<lparr>authorized_voters := av\<rparr>)))"

definition set_new_authorized_voter ::
    "VoteState \<Rightarrow> pubkey \<Rightarrow> epoch \<Rightarrow> epoch \<Rightarrow> (pubkey \<Rightarrow> InstructionError + unit)
       \<Rightarrow> InstructionError fault + VoteState" where
  "set_new_authorized_voter self authorized_pubkey epoch_now target_epoch verify_voter =
     and_then (get_and_update_authorized_voter self epoch_now) (\<lambda>(epoch_authorized_voter, self).
     and_then (faulty (verify_voter epoch_authorized_voter)) (\<lambda>_.
     if AuthorizedVoters_contains (authorized_voters self) target_epoch
     then Inl (Fault (vote_error TooSoonToReauthorize))
     else
       and_then (faulty (ok_or (AuthorizedVoters_last (authorized_voters self)) InvalidAccountData))
         (\<lambda>(latest_epoch, latest_authorized_pubkey).
       and_then
         (if latest_authorized_pubkey \<noteq> authorized_pubkey then
            let epoch_of_last_authorized_switch =
                  (case CircBuf_last (prior_voters self) of None \<Rightarrow> 0 | Some (_, _, e) \<Rightarrow> e)
            in and_then (assert_that (latest_epoch < target_epoch)) (\<lambda>_.
               Inr (self\<lparr>prior_voters := CircBuf_append (prior_voters self)
                 (latest_authorized_pubkey, epoch_of_last_authorized_switch, target_epoch)\<rparr>))
          else Inr self)
         (\<lambda>self.
       Inr (self\<lparr>authorized_voters :=
              AuthorizedVoters_insert (authorized_voters self) target_epoch authorized_pubkey\<rparr>)))))"

definition process_timestamp :: "VoteState \<Rightarrow> slot \<Rightarrow> int \<Rightarrow> VoteError + VoteState" where
  "process_timestamp self s timestamp =
     (let lt = last_timestamp self in
      if (s < bt_slot lt \<or> timestamp < bt_timestamp lt) \<or>
         (s = bt_slot lt \<and> \<lparr>bt_slot = s, bt_timestamp = timestamp\<rparr> \<noteq> lt \<and> bt_slot lt \<noteq> 0)
      then Inl TimestampTooOld
      else Inr (self\<lparr>last_timestamp := \<lparr>bt_slot = s, bt_timestamp = timestamp\<rparr>\<rparr>))"

definition is_correct_size_and_initialized :: "bytes \<Rightarrow> bool" where
  "is_correct_size_and_initialized d \<longleftrightarrow>
     length d = VoteState_size_of \<and> take 82 (drop 4 d) \<noteq> replicate 82 0"

section \<open>Versions\<close>

record VoteState0_23_5 =
  v0_node_pubkey :: pubkey
  v0_authorized_voter :: pubkey
  v0_authorized_voter_epoch :: epoch
  v0_prior_voters :: "(pubkey \<times> epoch \<times> epoch \<times> slot) list \<times> nat"
  v0_authorized_withdrawer :: pubkey
  v0_commission :: u8
  v0_votes :: "Lockout list"
  v0_root_slot :: "slot option"
  v0_epoch_credits :: "(epoch \<times> u64 \<times> u64) list"
  v0_last_timestamp :: BlockTimestamp

datatype VoteStateVersions = V0_23_5 VoteState0_23_5 | VoteState_Current VoteState

definition VoteStateVersions_new_current :: "VoteState \<Rightarrow> VoteStateVersions" where
  "VoteStateVersions_new_current s = VoteState_Current s"

fun convert_to_current :: "VoteStateVersions \<Rightarrow> VoteState" where
  "convert_to_current (V0_23_5 st) =
     \<lparr>node_pubkey = v0_node_pubkey st, authorized_withdrawer = v0_authorized_withdrawer st,
      commission = v0_commission st, votes = v0_votes st, root_slot = v0_root_slot st,
      authorized_voters =
        AuthorizedVoters_new (v0_authorized_voter_epoch st) (v0_authorized_voter st),
      prior_voters = CircBuf_default (0, 0, 0), epoch_credits = v0_epoch_credits st,
      last_timestamp = v0_last_timestamp st\<rparr>"
| "convert_to_current (VoteState_Current st) = st"

fun is_uninitialized :: "VoteStateVersions \<Rightarrow> bool" where
  "is_uninitialized (V0_23_5 st) \<longleftrightarrow> v0_authorized_voter st = 0"
| "is_uninitialized (VoteState_Current st) \<longleftrightarrow> authorized_voters st = []"

lemmas [exec] =
  MAX_LOCKOUT_HISTORY_def INITIAL_LOCKOUT_def MAX_EPOCH_CREDITS_HISTORY_def
  Lockout_new_with_confirmation_count_def Lockout_new_def lockout_def last_locked_out_slot_def
  is_locked_out_at_slot_def increase_confirmation_count_def AuthorizedVoters_new_def
  get_or_calculate_authorized_voter_for_epoch_def AuthorizedVoters_get_def
  get_and_cache_authorized_voter_for_epoch_def AuthorizedVoters_insert_def
  purge_authorized_voters_def AuthorizedVoters_last_def AuthorizedVoters_contains_def
  last_lockout_def last_voted_slot_def pop_expired_votes_def double_lockout_def
  double_lockouts_def set_last_def increment_credits_def process_next_vote_slot_def
  get_and_update_authorized_voter_def set_new_authorized_voter_def process_timestamp_def

end
