(* ===== verification/VoteTower.thy ===== *)
theory VoteTower
  imports VoteState
begin

text \<open>
  The tower of a vote account.  \<open>votes_ok\<close> is the shape of a tower the comments of
  \<^verbatim>\<open>programs/vote/src/vote_state/mod.rs\<close> promise, \<open>tower_wf\<close> adds the bound on its size and
  its place above the root.  Voting for a slot keeps it.
\<close>

section \<open>The shape of a tower\<close>

definition follows :: "Lockout \<Rightarrow> Lockout \<Rightarrow> bool" where
  "follows v w \<longleftrightarrow> lk_slot v < lk_slot w \<and> lk_slot w \<le> last_locked_out_slot v"

definition counted :: "Lockout \<Rightarrow> bool" where
  "counted v \<longleftrightarrow> 1 \<le> unat (confirmation_count v) \<and> unat (confirmation_count v) \<le> MAX_LOCKOUT_HISTORY"

definition votes_ok :: "Lockout list \<Rightarrow> bool" where
  "votes_ok vs \<longleftrightarrow>
     successively follows vs \<and>
     successively (\<lambda>v w. confirmation_count w < confirmation_count v) vs \<and>
     (\<forall>v \<in> set vs. counted v)"

text \<open>A root of 0 is not compared with the votes, as in \<open>process_new_vote_state\<close>.\<close>

definition above_root :: "slot option \<Rightarrow> Lockout list \<Rightarrow> bool" where
  "above_root r vs \<longleftrightarrow> (\<forall>s. r = Some s \<longrightarrow> s \<noteq> 0 \<longrightarrow> (\<forall>v \<in> set vs. s < lk_slot v))"

lemma above_root_slots:
  "above_root r vs \<longleftrightarrow> (\<forall>s. r = Some s \<longrightarrow> s \<noteq> 0 \<longrightarrow> (\<forall>x \<in> lk_slot ` set vs. s < x))"
  by (simp add: above_root_def)

definition tower_wf :: "VoteState \<Rightarrow> bool" where
  "tower_wf s \<longleftrightarrow>
     votes_ok (votes s) \<and> length (votes s) \<le> MAX_LOCKOUT_HISTORY \<and>
     above_root (root_slot s) (votes s) \<and> (votes s = [] \<longrightarrow> root_slot s = None)"

lemma successively_less_sorted:
  "successively (\<lambda>x y. f x < (f y :: 'b::order)) xs \<Longrightarrow> sorted_wrt (\<lambda>x y. f x < f y) xs"
  by (subst (asm) successively_iff_sorted_wrt_strong) auto

lemma votes_ok_sorted: "votes_ok vs \<Longrightarrow> sorted_wrt (\<lambda>v w. lk_slot v < lk_slot w) vs"
  by (intro successively_less_sorted) (auto simp: votes_ok_def follows_def elim: successively_mono)

lemma votes_ok_counts: "votes_ok vs \<Longrightarrow> sorted_wrt (\<lambda>v w. confirmation_count w < confirmation_count v) vs"
  by (subst (asm) votes_ok_def) (auto simp: successively_iff_sorted_wrt_strong)

lemma votes_ok_take: "votes_ok vs \<Longrightarrow> votes_ok (take n vs)"
  by (auto simp: votes_ok_def successively_conv_nth dest: in_set_takeD)

lemma votes_ok_tl: "votes_ok vs \<Longrightarrow> votes_ok (tl vs)"
  by (cases vs) (auto simp: votes_ok_def successively_Cons)

text \<open>A vote has at least as many confirmations as there are votes from it to the top.\<close>

lemma votes_ok_depth:
  "votes_ok vs \<Longrightarrow> i < length vs \<Longrightarrow> length vs - i \<le> unat (confirmation_count (vs ! i))"
proof (induction vs arbitrary: i)
  case (Cons v vs)
  from Cons.prems(1) have tl: "votes_ok vs" using votes_ok_tl by fastforce
  show ?case
  proof (cases i)
    case 0
    show ?thesis
    proof (cases vs)
      case Nil
      with 0 Cons.prems show ?thesis by (simp add: votes_ok_def counted_def)
    next
      case (Cons w ws)
      have "length vs \<le> unat (confirmation_count w)" using Cons.IH [OF tl, of 0] Cons by simp
      moreover have "unat (confirmation_count w) < unat (confirmation_count v)"
        using Cons.prems(1) Cons by (simp add: votes_ok_def word_less_nat_alt)
      ultimately show ?thesis using 0 by simp
    qed
  next
    case (Suc j)
    then show ?thesis using Cons.IH [OF tl, of j] Cons.prems(2) by simp
  qed
qed simp

section \<open>Lockouts grow\<close>

lemma unat_lockout:
  assumes "unat (confirmation_count v) < 64"
  shows "unat (lockout v) = 2 ^ unat (confirmation_count v)"
proof -
  have "unat (2 :: u64) ^ unat (confirmation_count v) < 2 ^ LENGTH(64)"
    using assms power_strict_increasing [of "unat (confirmation_count v)" 64 "2 :: nat"] by simp
  from unat_power_no_overflow [OF this] show ?thesis
    by (simp add: lockout_def INITIAL_LOCKOUT_def)
qed

lemma last_locked_out_slot_mono:
  assumes "lk_slot v = lk_slot w" and "confirmation_count v \<le> confirmation_count w"
    and "unat (confirmation_count w) < 64"
  shows "last_locked_out_slot v \<le> last_locked_out_slot w"
proof -
  have "unat (confirmation_count v) \<le> unat (confirmation_count w)"
    using assms(2) by (simp add: word_le_nat_alt)
  then have "unat (lockout v) \<le> unat (lockout w)"
    using assms(3) by (simp add: unat_lockout power_increasing)
  then have "unat (lk_slot v) + unat (lockout v) \<le> unat (lk_slot w) + unat (lockout w)"
    using assms(1) by simp
  then show ?thesis
    by (simp add: last_locked_out_slot_def word_le_nat_alt unat_saturating_add min_le_iff_disj)
qed

lemma slot_le_last_locked: "lk_slot v \<le> last_locked_out_slot v"
  by (simp add: last_locked_out_slot_def le_saturating_add)

lemma counted_unat_increase:
  assumes "unat (confirmation_count v) \<le> MAX_LOCKOUT_HISTORY"
  shows "unat (confirmation_count (increase_confirmation_count 1 v)) = unat (confirmation_count v) + 1"
  using assms by (simp add: increase_confirmation_count_def unat_saturating_add MAX_LOCKOUT_HISTORY_def)

section \<open>Popping and doubling\<close>

lemma pop_expired_drop: "\<exists>k. pop_expired n vs = drop k vs"
proof (induction vs)
  case (Cons v vs)
  then obtain k where "pop_expired n vs = drop k vs" by blast
  then have "pop_expired n (v # vs) = drop (if is_locked_out_at_slot v n then 0 else Suc k) (v # vs)"
    by simp
  then show ?case by blast
qed simp

lemma pop_expired_hd: "pop_expired n vs \<noteq> [] \<Longrightarrow> is_locked_out_at_slot (hd (pop_expired n vs)) n"
  by (induction vs) auto

lemma pop_expired_votes_take:
  obtains k where "votes (pop_expired_votes s n) = take k (votes s)"
    and "root_slot (pop_expired_votes s n) = root_slot s"
proof -
  obtain k where "pop_expired n (rev (votes s)) = drop k (rev (votes s))"
    using pop_expired_drop by blast
  then have "votes (pop_expired_votes s n) = take (length (votes s) - k) (votes s)"
    by (simp add: pop_expired_votes_def rev_drop)
  then show ?thesis by (rule that) (simp add: pop_expired_votes_def)
qed

lemma pop_expired_votes_last:
  assumes "votes (pop_expired_votes s n) \<noteq> []"
  shows "n \<le> last_locked_out_slot (last (votes (pop_expired_votes s n)))"
  using pop_expired_hd [of n "rev (votes s)"] assms
  by (simp add: pop_expired_votes_def last_rev is_locked_out_at_slot_def)

lemma votes_double_lockouts:
  "votes (double_lockouts s) = map (\<lambda>(i, v). double_lockout (length (votes s)) i v) (enumerate 0 (votes s))"
  "root_slot (double_lockouts s) = root_slot s"
  by (simp_all add: double_lockouts_def Let_def)

lemma nth_double_lockouts:
  "i < length (votes s) \<Longrightarrow>
     votes (double_lockouts s) ! i = double_lockout (length (votes s)) i (votes s ! i)"
  by (simp add: votes_double_lockouts nth_enumerate_eq)

lemma slot_double_lockout [simp]: "lk_slot (double_lockout d i v) = lk_slot v"
  by (simp add: double_lockout_def increase_confirmation_count_def)

lemma double_lockout_count:
  assumes "unat (confirmation_count v) \<le> MAX_LOCKOUT_HISTORY"
  shows "unat (confirmation_count (double_lockout d i v))
           = unat (confirmation_count v) + (if i + unat (confirmation_count v) < d then 1 else 0)"
  using assms by (simp add: double_lockout_def counted_unat_increase)

text \<open>
  A new vote on top of a well-formed tower: the doubling restores the strict order of the
  confirmations and keeps them within the bound.
\<close>

lemma double_push_ok:
  assumes ok: "votes_ok qs" and len: "length qs < MAX_LOCKOUT_HISTORY"
    and slots: "\<And>v. v \<in> set qs \<Longrightarrow> lk_slot v < n"
    and lock: "qs \<noteq> [] \<Longrightarrow> n \<le> last_locked_out_slot (last qs)"
    and vs: "votes s = qs @ [Lockout_new n]"
  shows "votes_ok (votes (double_lockouts s))"
proof -
  let ?d = "Suc (length qs)" and ?xs = "qs @ [Lockout_new n]"
  define ys where "ys = votes (double_lockouts s)"
  have leny: "length ys = ?d" by (simp add: ys_def votes_double_lockouts vs)
  have y: "ys ! i = double_lockout ?d i (?xs ! i)" if "i < ?d" for i
    using that nth_double_lockouts [of i s] by (simp add: ys_def vs)
  have new: "confirmation_count (Lockout_new n) = 1" "lk_slot (Lockout_new n) = n"
    by (simp_all add: Lockout_new_def Lockout_new_with_confirmation_count_def)
  have cnt: "1 \<le> unat (confirmation_count (?xs ! i)) \<and> unat (confirmation_count (?xs ! i)) \<le> MAX_LOCKOUT_HISTORY"
    if "i < ?d" for i
    using that ok by (cases "i < length qs")
      (auto simp: nth_append new votes_ok_def counted_def MAX_LOCKOUT_HISTORY_def less_Suc_eq)
  have depth: "length qs - i \<le> unat (confirmation_count (qs ! i))" if "i < length qs" for i
    using votes_ok_depth [OF ok that] .
  have count: "unat (confirmation_count (ys ! i)) = unat (confirmation_count (?xs ! i))
      + (if i + unat (confirmation_count (?xs ! i)) < ?d then 1 else 0)" if "i < ?d" for i
    using double_lockout_count cnt [OF that] y [OF that] by simp
  have bound: "counted (ys ! i)" if "i < ?d" for i
    using cnt [OF that] count [OF that] len by (auto simp: counted_def)
  have step: "unat (confirmation_count (ys ! Suc i)) < unat (confirmation_count (ys ! i))"
    if "Suc i < ?d" for i
  proof (cases "Suc i = length qs")
    case True
    then show ?thesis
      using count [OF that] count [of i] that depth [of i] new by (auto simp: nth_append split: if_splits)
  next
    case False
    then have i: "Suc i < length qs" using that by simp
    then have "unat (confirmation_count (qs ! Suc i)) < unat (confirmation_count (qs ! i))"
      using ok by (simp add: votes_ok_def successively_conv_nth word_less_nat_alt)
    then show ?thesis
      using count [OF that] count [of i] i by (simp add: nth_append)
  qed
  have grow: "last_locked_out_slot (?xs ! i) \<le> last_locked_out_slot (ys ! i)" if "i < ?d" for i
    using bound [OF that] count [OF that] y [OF that]
    by (intro last_locked_out_slot_mono) (auto simp: counted_def MAX_LOCKOUT_HISTORY_def word_le_nat_alt)
  have "successively follows ?xs"
    using ok slots lock
    by (auto simp: votes_ok_def successively_append_iff follows_def new)
  then have "follows (ys ! i) (ys ! Suc i)" if "Suc i < ?d" for i
    using that grow [of i] y [of i] y [of "Suc i"]
    by (auto simp: successively_conv_nth follows_def intro: order_trans)
  then show ?thesis
    using bound step leny unfolding ys_def [symmetric] votes_ok_def
    by (auto simp: successively_conv_nth word_less_nat_alt in_set_conv_nth)
qed

section \<open>Voting for the next slot\<close>

lemma increment_credits_frame [simp]:
  "votes (increment_credits s e n) = votes s" "root_slot (increment_credits s e n) = root_slot s"
  "authorized_voters (increment_credits s e n) = authorized_voters s"
  "prior_voters (increment_credits s e n) = prior_voters s"
  "authorized_withdrawer (increment_credits s e n) = authorized_withdrawer s"
  "node_pubkey (increment_credits s e n) = node_pubkey s"
  "commission (increment_credits s e n) = commission s"
  "last_timestamp (increment_credits s e n) = last_timestamp s"
  by (simp_all add: increment_credits_def Let_def split: prod.splits)

lemma last_voted_slot_eq: "last_voted_slot s = (if votes s = [] then None else Some (lk_slot (last (votes s))))"
  by (simp add: last_voted_slot_def last_lockout_def last_opt_def)

lemma votes_ok_below_last:
  assumes "votes_ok vs" and "v \<in> set vs"
  shows "lk_slot v \<le> lk_slot (last vs)"
proof -
  from assms(2) obtain i where "i < length vs" "vs ! i = v" by (auto simp: in_set_conv_nth)
  moreover have "last vs = vs ! (length vs - 1)" using assms(2) by (intro last_conv_nth) auto
  ultimately show ?thesis
    using sorted_wrt_nth_less [OF votes_ok_sorted [OF assms(1)], of i "length vs - 1"]
    by (cases "i = length vs - 1") (auto intro: less_imp_le)
qed

text \<open>
  What is below the new vote: the old tower without the expired votes, and without its oldest
  vote when it was full, which becomes the root.
\<close>

lemma process_next_vote_slot_cases:
  assumes "tower_wf s"
  obtains (old) lv where "last_voted_slot s = Some lv" "n \<le> lv" "process_next_vote_slot s n e = s"
  | (new) qs s2 where "process_next_vote_slot s n e = double_lockouts s2"
      "votes s2 = qs @ [Lockout_new n]" "votes_ok qs" "length qs < MAX_LOCKOUT_HISTORY"
      "\<And>v. v \<in> set qs \<Longrightarrow> v \<in> set (votes s)" "\<And>v. v \<in> set (votes s) \<Longrightarrow> lk_slot v < n"
      "qs \<noteq> [] \<Longrightarrow> n \<le> last_locked_out_slot (last qs)"
      "root_slot s2 = root_slot s \<or>
       (\<exists>v \<in> set (votes s). root_slot s2 = Some (lk_slot v) \<and> (\<forall>w \<in> set qs. lk_slot v < lk_slot w))"
proof (cases "\<exists>lv. last_voted_slot s = Some lv \<and> n \<le> lv")
  case True
  then show ?thesis using old by (auto simp: process_next_vote_slot_def)
next
  case False
  have below: "lk_slot v < n" if "v \<in> set (votes s)" for v
    using False votes_ok_below_last [OF _ that] assms that
    by (fastforce simp: last_voted_slot_eq tower_wf_def split: if_splits)
  define s1 where "s1 = pop_expired_votes s n"
  obtain k where k: "votes s1 = take k (votes s)" and r1: "root_slot s1 = root_slot s"
    using pop_expired_votes_take [of s n] s1_def by metis
  have ok1: "votes_ok (votes s1)" and len1: "length (votes s1) \<le> MAX_LOCKOUT_HISTORY"
    using assms by (auto simp: k tower_wf_def votes_ok_take)
  have sub1: "v \<in> set (votes s)" if "v \<in> set (votes s1)" for v
    using that by (auto simp: k dest: in_set_takeD)
  have last1: "n \<le> last_locked_out_slot (last (votes s1))" if "votes s1 \<noteq> []"
    using pop_expired_votes_last that by (simp add: s1_def)
  show ?thesis
  proof (cases "length (votes s1) = MAX_LOCKOUT_HISTORY")
    case full: True
    then obtain v vs where vs: "votes s1 = v # vs" by (cases "votes s1") (auto simp: MAX_LOCKOUT_HISTORY_def)
    define s2 where "s2 = (increment_credits (s1\<lparr>votes := vs, root_slot := Some (lk_slot v)\<rparr>) e 1)
      \<lparr>votes := vs @ [Lockout_new n]\<rparr>"
    have "process_next_vote_slot s n e = double_lockouts s2"
      using False full vs by (auto simp: process_next_vote_slot_def s1_def s2_def Let_def split: option.splits)
    moreover have "votes_ok vs" using votes_ok_tl [OF ok1] vs by simp
    moreover have "lk_slot v < lk_slot w" if "w \<in> set vs" for w
      using votes_ok_sorted [OF ok1] that vs by simp
    ultimately show ?thesis
      using new [of s2 vs] full vs below sub1 last1
      by (auto simp: s2_def MAX_LOCKOUT_HISTORY_def split: if_splits)
  next
    case notfull: False
    define s2 where "s2 = s1\<lparr>votes := votes s1 @ [Lockout_new n]\<rparr>"
    have "process_next_vote_slot s n e = double_lockouts s2"
      using False notfull by (auto simp: process_next_vote_slot_def s1_def s2_def Let_def split: option.splits)
    then show ?thesis
      using new [of s2 "votes s1"] notfull len1 ok1 below sub1 last1 r1 by (auto simp: s2_def)
  qed
qed

lemma set_slots_double: "lk_slot ` set (votes (double_lockouts s)) = lk_slot ` set (votes s)"
proof -
  have "map lk_slot (votes (double_lockouts s)) = map lk_slot (votes s)"
    by (rule nth_equalityI) (simp_all add: votes_double_lockouts nth_enumerate_eq)
  then show ?thesis by (metis set_map)
qed

lemma process_next_vote_slot_wf:
  assumes "tower_wf s"
  shows "tower_wf (process_next_vote_slot s n e)"
  using assms
proof (cases rule: process_next_vote_slot_cases [where n = n and e = e])
  case (old lv)
  then show ?thesis using assms by simp
next
  case (new qs s2)
  have "votes_ok (votes (double_lockouts s2))"
    using new by (intro double_push_ok [of qs n]) blast+
  moreover have len: "length (votes (double_lockouts s2)) = Suc (length qs)"
    using new(2) by (simp add: votes_double_lockouts)
  moreover have "above_root (root_slot s2) (votes s2)"
    using new(8)
  proof
    assume "root_slot s2 = root_slot s"
    moreover have "r < n" if "root_slot s = Some r" "r \<noteq> 0" for r
    proof -
      from that assms obtain v where "v \<in> set (votes s)" "r < lk_slot v"
        by (fastforce simp: tower_wf_def above_root_def neq_Nil_conv)
      then show ?thesis using new(6) by fastforce
    qed
    ultimately show ?thesis
      using assms new(5,2)
      by (auto simp: above_root_def tower_wf_def Lockout_new_def Lockout_new_with_confirmation_count_def)
  next
    assume "\<exists>v \<in> set (votes s). root_slot s2 = Some (lk_slot v) \<and> (\<forall>w \<in> set qs. lk_slot v < lk_slot w)"
    then show ?thesis
      using new(2,6)
      by (auto simp: above_root_def Lockout_new_def Lockout_new_with_confirmation_count_def)
  qed
  then have "above_root (root_slot (double_lockouts s2)) (votes (double_lockouts s2))"
    by (simp add: above_root_slots set_slots_double votes_double_lockouts(2))
  ultimately show ?thesis
    using new(1,4) by (auto simp: tower_wf_def)
qed

lemma process_next_vote_slot_last:
  assumes "tower_wf s"
  shows "last_voted_slot (process_next_vote_slot s n e) =
           (case last_voted_slot s of None \<Rightarrow> Some n | Some lv \<Rightarrow> Some (max lv n))"
  using assms
proof (cases rule: process_next_vote_slot_cases [where n = n and e = e])
  case (old lv)
  then show ?thesis by (simp add: max_def)
next
  case (new qs s2)
  have len: "length (votes (double_lockouts s2)) = Suc (length qs)"
    using new(2) by (simp add: votes_double_lockouts)
  then have "votes (double_lockouts s2) \<noteq> []" by auto
  then have "lk_slot (last (votes (double_lockouts s2))) = n"
    using new(2) nth_double_lockouts [of "length qs" s2]
    by (simp add: last_conv_nth len nth_append Lockout_new_def Lockout_new_with_confirmation_count_def)
  moreover have "lv < n" if "last_voted_slot s = Some lv" for lv
    using that new(6) by (auto simp: last_voted_slot_eq split: if_splits)
  ultimately show ?thesis
    using new(1) \<open>votes (double_lockouts s2) \<noteq> []\<close>
    by (auto simp: last_voted_slot_eq max_def split: option.splits)
qed

lemma tower_wf_default: "tower_wf VoteState_default"
  by (simp add: tower_wf_def VoteState_default_def votes_ok_def above_root_def)

text \<open>Slots voted for one after the other, as \<open>process_vote\<close> does.\<close>

definition process_slots :: "VoteState \<Rightarrow> slot list \<Rightarrow> epoch \<Rightarrow> VoteState" where
  "process_slots self slots epoch = foldl (\<lambda>st s. process_next_vote_slot st s epoch) self slots"

lemma process_slots_wf: "tower_wf s \<Longrightarrow> tower_wf (process_slots s slots e)"
  unfolding process_slots_def by (induction slots arbitrary: s) (simp_all add: process_next_vote_slot_wf)

lemma process_slots_last:
  assumes "tower_wf s"
  shows "last_voted_slot (process_slots s slots e) =
    (if slots = [] then last_voted_slot s
     else Some (Max (set slots \<union> set_option (last_voted_slot s))))"
  using assms unfolding process_slots_def
proof (induction slots arbitrary: s)
  case (Cons a slots)
  let ?s = "process_next_vote_slot s a e"
  have "last_voted_slot ?s = Some (Max (insert a (set_option (last_voted_slot s))))"
    using process_next_vote_slot_last [OF Cons.prems, of a e]
    by (cases "last_voted_slot s") (simp_all add: max.commute)
  then show ?case
    using Cons.IH [OF process_next_vote_slot_wf [OF Cons.prems, of a e]]
    by (cases "last_voted_slot s"; cases "slots = []") (simp_all add: ac_simps max.left_commute Max_insert)
qed simp

end
