(* ===== verification/VoteRecords.thy ===== *)
theory VoteRecords
  imports VoteState
begin

text \<open>
  The other records of a vote state: the credits earned per epoch, the split of a reward by
  commission and the keys authorized to vote.
\<close>

section \<open>Credits\<close>

definition credits_ok :: "(epoch \<times> u64 \<times> u64) list \<Rightarrow> bool" where
  "credits_ok ec \<longleftrightarrow>
     length ec \<le> MAX_EPOCH_CREDITS_HISTORY \<and> (\<forall>(e, cs, prev) \<in> set ec. prev \<le> cs) \<and>
     successively (\<lambda>(_, cs, _) (_, _, prev). prev = cs) ec"

definition credits_step :: "(epoch \<times> u64 \<times> u64) list \<Rightarrow> epoch \<Rightarrow> (epoch \<times> u64 \<times> u64) list" where
  "credits_step ec epoch =
     (if ec = [] then [(epoch, 0, 0)]
      else if epoch \<noteq> fst (last ec) then
        let (e, cs, prev) = last ec;
            ec1 = (if cs \<noteq> prev then ec @ [(epoch, cs, cs)] else set_last (epoch, cs, prev) ec)
        in if MAX_EPOCH_CREDITS_HISTORY < length ec1 then tl ec1 else ec1
      else ec)"

lemma increment_credits_step:
  "increment_credits s epoch n =
     (let ec = credits_step (epoch_credits s) epoch; (e, cs, prev) = last ec
      in s\<lparr>epoch_credits := set_last (e, saturating_add cs n, prev) ec\<rparr>)"
  by (simp add: increment_credits_def credits_step_def Let_def)

lemma credits_step_snoc:
  assumes "credits_ok ec"
  obtains ec' prev where "credits_step ec epoch = ec' @ [(epoch, if ec = [] then 0 else fst (snd (last ec)), prev)]"
    and "credits_ok (credits_step ec epoch)"
proof (cases ec rule: rev_cases)
  case Nil
  then show ?thesis
    using that [of "[]" 0] by (simp add: credits_step_def credits_ok_def MAX_EPOCH_CREDITS_HISTORY_def)
next
  case (snoc es x)
  obtain e cs prev where x: "x = (e, cs, prev)" by (cases x) auto
  consider "epoch = e" | "epoch \<noteq> e" "cs = prev" | "epoch \<noteq> e" "cs \<noteq> prev" by blast
  then show ?thesis
  proof cases
    case 1
    then show ?thesis
      using that [of es prev] assms snoc x by (simp add: credits_step_def)
  next
    case 2
    then have "credits_step ec epoch = es @ [(epoch, cs, prev)]"
      using assms by (simp add: credits_step_def snoc x set_last_def credits_ok_def)
    then show ?thesis
      using that [of es prev] assms snoc x
      by (auto simp: credits_ok_def successively_append_iff split: prod.splits)
  next
    case 3
    have ok: "credits_ok ec" by (fact assms)
    have step: "credits_step ec epoch =
        (if length ec = MAX_EPOCH_CREDITS_HISTORY then tl ec else ec) @ [(epoch, cs, cs)]"
      using 3 assms by (cases es) (auto simp: credits_step_def snoc x credits_ok_def)
    have "credits_ok (tl ec @ [(epoch, cs, cs)])" if "length ec = MAX_EPOCH_CREDITS_HISTORY"
      using ok that snoc x
      by (cases es) (auto simp: credits_ok_def successively_append_iff successively_Cons MAX_EPOCH_CREDITS_HISTORY_def)
    moreover have "credits_ok (ec @ [(epoch, cs, cs)])" if "length ec \<noteq> MAX_EPOCH_CREDITS_HISTORY"
      using ok that snoc x by (auto simp: credits_ok_def successively_append_iff)
    ultimately show ?thesis
      using that step snoc x by (auto split: if_splits)
  qed
qed

lemma increment_credits_ok:
  assumes "credits_ok (epoch_credits s)"
  shows "credits_ok (epoch_credits (increment_credits s epoch n)) \<and>
         credits (increment_credits s epoch n) = saturating_add (credits s) n \<and>
         current_epoch (increment_credits s epoch n) = epoch"
proof -
  let ?total = "if epoch_credits s = [] then 0 else fst (snd (last (epoch_credits s)))"
  obtain ec prev where step: "credits_step (epoch_credits s) epoch = ec @ [(epoch, ?total, prev)]"
    and ok: "credits_ok (credits_step (epoch_credits s) epoch)"
    using credits_step_snoc [OF assms, of epoch] by blast
  have inc: "epoch_credits (increment_credits s epoch n) = ec @ [(epoch, saturating_add ?total n, prev)]"
    by (simp add: increment_credits_step step set_last_def Let_def)
  have "prev \<le> ?total" using ok by (simp add: step credits_ok_def)
  then have "prev \<le> saturating_add ?total n" using le_saturating_add [of ?total n] by simp
  then have "credits_ok (epoch_credits (increment_credits s epoch n))"
    using ok unfolding inc by (auto simp: step credits_ok_def successively_append_iff split: prod.splits)
  then show ?thesis by (simp add: inc credits_def current_epoch_def)
qed

text \<open>
  C20: Credits only grow and their history stays consistent.  Incrementing the credits adds
  exactly the increment to the total (saturating), records it under the current epoch, and keeps
  the history at 64 entries or less, in which every epoch starts with the total the previous one
  ended with.
\<close>

theorem increment_credits_effect:
  assumes "credits_ok (epoch_credits s)"
  shows "credits_ok (epoch_credits (increment_credits s epoch n)) \<and>
         credits (increment_credits s epoch n) = saturating_add (credits s) n \<and>
         current_epoch (increment_credits s epoch n) = epoch"
  using assms by (rule increment_credits_ok)

theorem increment_credits_effect_witness:
  "credits (increment_credits (VoteState_default\<lparr>epoch_credits := [(3, 10, 4)]\<rparr>) 5 2) = 12"
  using increment_credits_effect [of "VoteState_default\<lparr>epoch_credits := [(3, 10, 4)]\<rparr>" 5 2]
  by (simp add: credits_ok_def MAX_EPOCH_CREDITS_HISTORY_def credits_def saturating_add_def)

section \<open>Commission\<close>

lemma unat_ucast_u8_u128: "unat (ucast (w :: u8) :: u128) = unat w"
  by (simp add: unsigned_ucast_eq take_bit_nat_eq_self unsigned_less [THEN less_le_trans])

lemma unat_part:
  assumes "unat (c :: u8) \<le> 100"
  shows "unat (ucast ((ucast (on :: u64) * ucast c :: u128) div 100) :: u64) = unat on * unat c div 100"
proof -
  have on: "unat on < 2 ^ 64" using unsigned_less [of on, where ?'a = nat] by simp
  have prod: "unat on * unat c \<le> unat on * 100" using assms by simp
  then have "unat on * unat c < 2 ^ 128" by (rule le_less_trans) (use on in simp)
  then have p: "unat (ucast on * ucast c :: u128) = unat on * unat c"
    by (subst unat_times_no_overflow) (simp_all add: unat_ucast_u64_u128 unat_ucast_u8_u128)
  then have q: "unat ((ucast on * ucast c :: u128) div 100) = unat on * unat c div 100"
    by (simp add: unat_div)
  have "unat on * unat c div 100 \<le> unat on" using div_le_mono [OF prod, of 100] by simp
  then show ?thesis
    using on q by (simp add: unsigned_ucast_eq take_bit_nat_eq_self)
qed

text \<open>
  C21: A reward is split without creating lamports.  With the commission capped at 100, voter and
  staker get the exact integer parts of their percentages, the parts add up to the reward or to
  one lamport less, and they add up exactly when there is nothing to split.
\<close>

theorem commission_split_parts:
  "case commission_split s on of (mine, theirs, was_split) \<Rightarrow>
     let c = min (unat (commission s)) 100 in
     unat mine = unat on * c div 100 \<and> unat theirs = unat on * (100 - c) div 100 \<and>
     unat mine + unat theirs \<le> unat on \<and> unat on \<le> unat mine + unat theirs + 1 \<and>
     (was_split \<longleftrightarrow> 0 < c \<and> c < 100)"
proof -
  let ?c = "min (commission s) 100" and ?n = "unat on"
  have c: "unat ?c = min (unat (commission s)) 100"
    by (auto simp: min_def word_le_nat_alt)
  then have c100: "unat ?c \<le> 100" by simp
  have d: "unat (100 - ?c) = 100 - unat ?c"
    using c100 by (subst unat_minus_no_borrow) (simp_all add: word_le_nat_alt)
  have sum: "?n * k div 100 + ?n * (100 - k) div 100 \<le> ?n \<and>
      ?n \<le> ?n * k div 100 + ?n * (100 - k) div 100 + 1" if "k \<le> 100" for k
  proof -
    have "?n * k + ?n * (100 - k) = ?n * 100" using that by (simp add: algebra_simps flip: distrib_left)
    then show ?thesis by linarith
  qed
  consider "?c = 0" | "?c = 100" | "?c \<noteq> 0" "?c \<noteq> 100" by blast
  then show ?thesis
  proof cases
    case 1
    then have "min (unat (commission s)) 100 = 0" using c by simp
    with 1 show ?thesis by (simp add: commission_split_def Let_def)
  next
    case 2
    then have "min (unat (commission s)) 100 = 100" using c by simp
    with 2 show ?thesis by (simp add: commission_split_def Let_def)
  next
    case 3
    have "unat ?c \<noteq> 0" "unat ?c \<noteq> 100"
      using 3 unsigned_word_eqI [where ?'a = nat, of ?c 0] unsigned_word_eqI [where ?'a = nat, of ?c 100]
      by auto
    then show ?thesis
      using 3 c c100 d sum [OF c100] unat_part [of ?c on] unat_part [of "100 - ?c" on]
      by (simp add: commission_split_def Let_def)
  qed
qed

section \<open>Authorized voters\<close>

definition ascending :: "('k::linorder \<times> 'v) list \<Rightarrow> bool" where
  "ascending m \<longleftrightarrow> sorted_wrt (\<lambda>a b. fst a < fst b) m"

lemma map_of_btree_insert: "map_of (btree_insert k v m) = (map_of m)(k \<mapsto> v)"
  by (induction k v m rule: btree_insert.induct) auto

lemma keys_btree_insert: "fst ` set (btree_insert k v m) = insert k (fst ` set m)"
  by (induction k v m rule: btree_insert.induct) auto

lemma ascending_btree_insert: "ascending m \<Longrightarrow> ascending (btree_insert k v m)"
proof (induction k v m rule: btree_insert.induct)
  case (2 k v k' v' m)
  have "k' < x" if "(x, y) \<in> set (btree_insert k v m)" "k' < k" for x y
  proof -
    have "x \<in> insert k (fst ` set m)" using that keys_btree_insert [of k v m] by force
    then show ?thesis using that 2 by (auto simp: ascending_def)
  qed
  with 2 show ?case
    by (cases k k' rule: linorder_cases) (auto simp: ascending_def dest: order_less_asym)
qed (simp add: ascending_def)

lemma map_of_filter_key: "map_of (filter (\<lambda>(e, _). P e) m) k = (if P k then map_of m k else None)"
  by (induction m) auto

text \<open>
  The specification of a query: the entry of the latest epoch that is not later than the one
  asked for.
\<close>

definition voter_at :: "AuthorizedVoters \<Rightarrow> epoch \<Rightarrow> pubkey \<Rightarrow> bool" where
  "voter_at av e k \<longleftrightarrow>
     (\<exists>e0 \<le> e. map_of av e0 = Some k \<and> (\<forall>e1 \<le> e. map_of av e1 \<noteq> None \<longrightarrow> e1 \<le> e0))"

lemma voter_at_unique: "voter_at av e k \<Longrightarrow> voter_at av e k' \<Longrightarrow> k = k'"
  unfolding voter_at_def by (metis option.inject option.distinct(1) order_antisym)

lemma last_ascending:
  assumes "ascending m" and "m \<noteq> []" and "map_of m k \<noteq> None"
  shows "k \<le> fst (last m)"
proof -
  from assms(3) obtain v where "(k, v) \<in> set m" by (auto dest: map_of_SomeD)
  then obtain i where i: "i < length m" "m ! i = (k, v)" by (auto simp: in_set_conv_nth)
  then show ?thesis
    using sorted_wrt_nth_less [OF assms(1) [unfolded ascending_def], of i "length m - 1"] assms(2)
    by (cases "i = length m - 1") (auto simp: last_conv_nth intro: less_imp_le)
qed

lemma ascending_distinct: "ascending m \<Longrightarrow> distinct (map fst m)"
  unfolding ascending_def by (induction m) auto

lemma ascending_map_of_last: "ascending m \<Longrightarrow> m \<noteq> [] \<Longrightarrow> map_of m (fst (last m)) = Some (snd (last m))"
  by (intro map_of_is_SomeI) (simp_all add: ascending_distinct)

lemma get_voter:
  assumes "ascending av"
  shows "AuthorizedVoters_get av e = Some k \<longleftrightarrow> voter_at av e k"
proof (cases "map_of av e")
  case (Some k')
  then have "AuthorizedVoters_get av e = Some k'"
    by (simp add: AuthorizedVoters_get_def get_or_calculate_authorized_voter_for_epoch_def)
  moreover have "voter_at av e k'" using Some by (auto simp: voter_at_def)
  ultimately show ?thesis using voter_at_unique by auto
next
  case None
  let ?f = "filter (\<lambda>(x, _). x < e) av"
  have asc: "ascending ?f" using assms by (simp add: ascending_def sorted_wrt_filter)
  have get: "AuthorizedVoters_get av e = map_option snd (last_opt ?f)"
    using None by (simp add: AuthorizedVoters_get_def get_or_calculate_authorized_voter_for_epoch_def
        option.map_comp comp_def split_def)
  have m: "map_of ?f x = (if x < e then map_of av x else None)" for x by (rule map_of_filter_key)
  have lt: "x < e" if "x \<le> e" "map_of av x \<noteq> None" for x using that None by (cases "x = e") auto
  show ?thesis
  proof (cases "?f = []")
    case True
    then have "map_of av x = None" if "x < e" for x using m [of x] that by simp
    then show ?thesis using True get lt by (fastforce simp: voter_at_def last_opt_def)
  next
    case False
    have "map_of ?f (fst (last ?f)) = Some (snd (last ?f))" using ascending_map_of_last [OF asc False] .
    moreover have "x \<le> fst (last ?f)" if "x \<le> e" "map_of av x \<noteq> None" for x
      using last_ascending [OF asc False, of x] m [of x] lt [OF that] that by simp
    ultimately have "voter_at av e (snd (last ?f))"
      using m [of "fst (last ?f)"] by (auto simp: voter_at_def intro!: exI [of _ "fst (last ?f)"] split: if_splits)
    then show ?thesis using get False voter_at_unique by (auto simp: last_opt_def)
  qed
qed

lemma voter_at_exists:
  assumes "map_of av e0 \<noteq> None" and "e0 \<le> e"
  shows "\<exists>k. voter_at av e k"
proof -
  let ?E = "{x. x \<le> e \<and> map_of av x \<noteq> None}"
  have fin: "finite ?E" using finite_subset [OF _ finite_dom_map_of, of ?E av] by auto
  moreover have "e0 \<in> ?E" using assms by simp
  ultimately have "Max ?E \<in> ?E" by (intro Max_in) auto
  then obtain k where "map_of av (Max ?E) = Some k" "Max ?E \<le> e" by auto
  then show ?thesis using Max_ge [OF fin] by (auto simp: voter_at_def intro!: exI [of _ "Max ?E"])
qed

lemma get_and_update_Inr:
  assumes "get_and_update_authorized_voter s cur = Inr (k, s')"
    and asc: "ascending (authorized_voters s)"
  obtains av where "s' = s\<lparr>authorized_voters := av\<rparr>" "ascending av"
    "voter_at (authorized_voters s) cur k" "map_of av cur = Some k"
    "\<And>e k'. cur \<le> e \<Longrightarrow> voter_at av e k' \<longleftrightarrow> voter_at (authorized_voters s) e k'"
    "\<And>e. map_of av e \<noteq> None \<Longrightarrow> cur \<le> e"
proof -
  let ?av = "authorized_voters s"
  from assms(1) obtain existed where r: "get_or_calculate_authorized_voter_for_epoch ?av cur = Some (k, existed)"
    and s': "s' = s\<lparr>authorized_voters := filter (\<lambda>(e, _). \<not> e < cur)
               (if \<not> existed then btree_insert cur k ?av else ?av)\<rparr>"
    by (auto simp: get_and_update_authorized_voter_def get_and_cache_authorized_voter_for_epoch_def
        purge_authorized_voters_def Let_def result_simps)
  define av where "av = filter (\<lambda>(e, _). \<not> e < cur) (if \<not> existed then btree_insert cur k ?av else ?av)"
  have v: "voter_at ?av cur k" using get_voter [OF asc, of cur k] r by (simp add: AuthorizedVoters_get_def)
  have "existed \<longrightarrow> map_of ?av cur = Some k"
    using r by (auto simp: get_or_calculate_authorized_voter_for_epoch_def split: option.splits)
  then have m: "map_of av e = (if e < cur then None else if e = cur then Some k else map_of ?av e)" for e
    by (auto simp: av_def map_of_filter_key map_of_btree_insert)
  have later: "map_of av e = map_of ?av e" if "cur < e" for e using m [of e] that by auto
  have asc': "ascending av"
    using asc ascending_btree_insert [OF asc] by (auto simp: av_def ascending_def intro: sorted_wrt_filter)
  have sub: "voter_at ?av e k'" if "cur \<le> e" "voter_at av e k'" for e k'
  proof -
    from that(2) obtain e0 where e0: "e0 \<le> e" "map_of av e0 = Some k'"
      "\<And>e1. e1 \<le> e \<Longrightarrow> map_of av e1 \<noteq> None \<Longrightarrow> e1 \<le> e0" by (auto simp: voter_at_def)
    have "cur \<le> e0" using e0(3) [OF that(1)] m by simp
    show ?thesis
    proof (cases "e0 = cur")
      case True
      from v obtain x where x: "x \<le> cur" "map_of ?av x = Some k" "\<And>e1. e1 \<le> cur \<Longrightarrow> map_of ?av e1 \<noteq> None \<Longrightarrow> e1 \<le> x"
        by (auto simp: voter_at_def)
      have "e1 \<le> x" if "e1 \<le> e" "map_of ?av e1 \<noteq> None" for e1
        using that x(3) [of e1] e0(3) [of e1] later [of e1] True by (cases "cur < e1") (auto simp: not_less)
      then show ?thesis
        using x(1,2) e0(2) m [of e0] True \<open>cur \<le> e\<close> unfolding voter_at_def by (intro exI [of _ x]) auto
    next
      case False
      then have "cur < e0" using \<open>cur \<le> e0\<close> by simp
      moreover from this have "map_of ?av e0 = Some k'" using e0(2) later [of e0] by simp
      moreover have "e1 \<le> e0" if "e1 \<le> e" "map_of ?av e1 \<noteq> None" for e1
        using e0(3) [OF that(1)] that later [of e1] \<open>cur \<le> e0\<close> by (cases "cur < e1") (auto simp: not_less)
      ultimately show ?thesis using e0(1) unfolding voter_at_def by blast
    qed
  qed
  have eq: "voter_at av e k' \<longleftrightarrow> voter_at ?av e k'" if "cur \<le> e" for e k'
    using sub [OF that] voter_at_exists [of av cur e] voter_at_unique [of ?av e] m [of cur] that by fastforce
  have "cur \<le> e" if "map_of av e \<noteq> None" for e using that m [of e] by (cases "e < cur") auto
  moreover have "map_of av cur = Some k" using m [of cur] by simp
  ultimately show ?thesis
    using that [OF s' [folded av_def] asc' v _ eq] by blast
qed

lemma get_and_update_no_panic: "get_and_update_authorized_voter s cur \<noteq> Inl Panic"
proof
  let ?av = "authorized_voters s"
  assume "get_and_update_authorized_voter s cur = Inl Panic"
  then obtain k existed where r: "get_or_calculate_authorized_voter_for_epoch ?av cur = Some (k, existed)"
    and empty: "filter (\<lambda>(e, _). \<not> e < cur) (if \<not> existed then btree_insert cur k ?av else ?av) = []"
    by (auto simp: get_and_update_authorized_voter_def get_and_cache_authorized_voter_for_epoch_def
        purge_authorized_voters_def Let_def assert_that_def and_then_eq_Panic_iff result_simps
        split: if_splits)
  have "map_of (if \<not> existed then btree_insert cur k ?av else ?av) cur = Some k"
    using r by (auto simp: get_or_calculate_authorized_voter_for_epoch_def map_of_btree_insert split: option.splits)
  then have "map_of (filter (\<lambda>(e, _). \<not> e < cur) (if \<not> existed then btree_insert cur k ?av else ?av)) cur = Some k"
    by (simp add: map_of_filter_key)
  then show False using empty by simp
qed

text \<open>The voter of the last epoch there is, and the voters after an entry is added.\<close>

lemma voter_at_last: "ascending av \<Longrightarrow> av \<noteq> [] \<Longrightarrow> voter_at av (- 1) (snd (last av))"
  unfolding voter_at_def
  by (intro exI [of _ "fst (last av)"]) (simp add: ascending_map_of_last last_ascending)

lemma voter_at_insert_before: "e < tgt \<Longrightarrow> voter_at (btree_insert tgt key av) e k \<longleftrightarrow> voter_at av e k"
  unfolding voter_at_def map_of_btree_insert by (metis fun_upd_other leD)

lemma voter_at_insert_later:
  assumes "tgt < x" and "x \<le> e" and "map_of av x \<noteq> None"
  shows "voter_at (btree_insert tgt key av) e k \<longleftrightarrow> voter_at av e k"
proof
  assume "voter_at (btree_insert tgt key av) e k"
  then obtain e0 where e0: "e0 \<le> e" "((map_of av)(tgt \<mapsto> key)) e0 = Some k"
    "\<forall>e1 \<le> e. ((map_of av)(tgt \<mapsto> key)) e1 \<noteq> None \<longrightarrow> e1 \<le> e0"
    unfolding voter_at_def map_of_btree_insert by blast
  have "x \<le> e0" using e0(3) assms by simp
  then have "e0 \<noteq> tgt" using assms(1) by auto
  then show "voter_at av e k" unfolding voter_at_def using e0 by (intro exI [of _ e0]) auto
next
  assume "voter_at av e k"
  then obtain e0 where e0: "e0 \<le> e" "map_of av e0 = Some k" "\<forall>e1 \<le> e. map_of av e1 \<noteq> None \<longrightarrow> e1 \<le> e0"
    unfolding voter_at_def by blast
  have "x \<le> e0" using e0(3) assms by simp
  then have "tgt < e0" using assms(1) by simp
  then show "voter_at (btree_insert tgt key av) e k"
    unfolding voter_at_def map_of_btree_insert using e0 by (intro exI [of _ e0]) auto
qed

lemma voter_at_insert_from:
  assumes "tgt \<le> e" and "\<And>x. tgt < x \<Longrightarrow> x \<le> e \<Longrightarrow> map_of av x = None"
  shows "voter_at (btree_insert tgt key av) e key"
proof -
  have "x \<le> tgt" if "x \<le> e" "((map_of av)(tgt \<mapsto> key)) x \<noteq> None" for x
    using that assms(2) [of x] by (cases "tgt < x") (auto split: if_splits)
  then show ?thesis unfolding voter_at_def map_of_btree_insert using assms(1) by (intro exI [of _ tgt]) simp
qed

lemma set_new_authorized_voter_Inr:
  assumes "set_new_authorized_voter s key cur tgt verify_voter = Inr s'"
    and asc: "ascending (authorized_voters s)"
  obtains v av where "voter_at (authorized_voters s) cur v" and "verify_voter v = Inr ()" and "ascending av"
    and "\<And>e k. cur \<le> e \<Longrightarrow> voter_at av e k \<longleftrightarrow> voter_at (authorized_voters s) e k"
    and "\<And>e. map_of av e \<noteq> None \<Longrightarrow> cur \<le> e"
    and "authorized_voters s' = btree_insert tgt key av"
    and "av \<noteq> []" and "snd (last av) \<noteq> key \<Longrightarrow> fst (last av) < tgt"
proof -
  from assms(1) obtain v s1 where g: "get_and_update_authorized_voter s cur = Inr (v, s1)"
    and ver: "verify_voter v = Inr ()"
    and av': "authorized_voters s' = btree_insert tgt key (authorized_voters s1)"
    and latest: "snd (last (authorized_voters s1)) \<noteq> key \<longrightarrow> fst (last (authorized_voters s1)) < tgt"
    by (auto simp: set_new_authorized_voter_def AuthorizedVoters_insert_def AuthorizedVoters_last_def
        last_opt_def assert_that_def Let_def result_simps split: if_splits)
  from g asc obtain av where s1: "s1 = s\<lparr>authorized_voters := av\<rparr>" and av: "ascending av"
    "voter_at (authorized_voters s) cur v" "map_of av cur = Some v"
    "\<And>e k. cur \<le> e \<Longrightarrow> voter_at av e k \<longleftrightarrow> voter_at (authorized_voters s) e k"
    "\<And>e. map_of av e \<noteq> None \<Longrightarrow> cur \<le> e"
    by (erule get_and_update_Inr)
  have "av \<noteq> []" using av(3) by auto
  then show ?thesis using that av av' latest ver unfolding s1 by simp
qed

text \<open>The key an update of the voters compares with is the one of the last entry before it.\<close>

lemma last_voter_same:
  assumes "\<And>k. voter_at av (- 1) k \<longleftrightarrow> voter_at av' (- 1) k"
    and "ascending av" and "av \<noteq> []" and "ascending av'" and "av' \<noteq> []"
  shows "snd (last av) = snd (last av')"
  using voter_at_unique voter_at_last assms by metis

text \<open>
  C19: Changing the voter.  Let \<open>set_new_authorized_voter\<close> succeed with a target epoch that is not
  before the current one.  The key passed to the verification is the one authorized for the
  current epoch, and it was accepted.  The voter of every epoch from the current one up to the
  target stays the same.  From the target epoch on it is the new key until a later entry, from
  which on it is as before.  When the latest voter on record is not the new key, there is no later
  entry, by the assertion on the latest epoch, so the new key votes in every epoch from the target
  on.  Entries of past epochs are gone.
\<close>

theorem set_new_authorized_voter_effect:
  assumes "set_new_authorized_voter s key cur tgt verify_voter = Inr s'"
    and asc: "ascending (authorized_voters s)" and cur: "cur \<le> tgt"
  shows "(\<exists>v. get_authorized_voter s cur = Some v \<and> verify_voter v = Inr ()) \<and>
     ascending (authorized_voters s') \<and>
     (\<forall>e. cur \<le> e \<and> e < tgt \<longrightarrow> get_authorized_voter s' e = get_authorized_voter s e) \<and>
     get_authorized_voter s' tgt = Some key \<and>
     (\<forall>e. tgt \<le> e \<longrightarrow> get_authorized_voter s' e =
        (if \<exists>x. tgt < x \<and> x \<le> e \<and> AuthorizedVoters_contains (authorized_voters s') x
         then get_authorized_voter s e else Some key)) \<and>
     (\<forall>x k. AuthorizedVoters_last (authorized_voters s) = Some (x, k) \<and> k \<noteq> key \<longrightarrow>
        (\<forall>e. tgt \<le> e \<longrightarrow> get_authorized_voter s' e = Some key)) \<and>
     (\<forall>e. AuthorizedVoters_contains (authorized_voters s') e \<longrightarrow> cur \<le> e)"
  using assms(1,2)
proof (rule set_new_authorized_voter_Inr)
  fix v av
  assume v: "voter_at (authorized_voters s) cur v" "verify_voter v = Inr ()" and av: "ascending av" "av \<noteq> []"
    and same: "\<And>e k. cur \<le> e \<Longrightarrow> voter_at av e k \<longleftrightarrow> voter_at (authorized_voters s) e k"
    and past: "\<And>e. map_of av e \<noteq> None \<Longrightarrow> cur \<le> e"
    and s': "authorized_voters s' = btree_insert tgt key av"
    and latest: "snd (last av) \<noteq> key \<Longrightarrow> fst (last av) < tgt"
  have asc': "ascending (authorized_voters s')" using ascending_btree_insert [OF av(1)] by (simp add: s')
  have g': "get_authorized_voter s' e = Some k \<longleftrightarrow> voter_at (btree_insert tgt key av) e k" for e k
    using get_voter [OF asc'] by (simp add: get_authorized_voter_def s')
  have g: "get_authorized_voter s e = Some k \<longleftrightarrow> voter_at av e k" if "cur \<le> e" for e k
    using get_voter [OF asc] same [OF that] by (simp add: get_authorized_voter_def)
  have keep: "get_authorized_voter s' e = get_authorized_voter s e"
    if "cur \<le> e" "\<And>k. voter_at (btree_insert tgt key av) e k \<longleftrightarrow> voter_at av e k" for e
    using g g' that by (metis option.exhaust)
  have contains: "AuthorizedVoters_contains (authorized_voters s') x \<longleftrightarrow> x = tgt \<or> map_of av x \<noteq> None" for x
    by (simp add: AuthorizedVoters_contains_def s' map_of_btree_insert)
  have from_tgt: "get_authorized_voter s' e = Some key"
    if "tgt \<le> e" "\<And>x. tgt < x \<Longrightarrow> x \<le> e \<Longrightarrow> map_of av x = None" for e
    using g' voter_at_insert_from [OF that] by blast
  have later: "get_authorized_voter s' e = get_authorized_voter s e"
    if "tgt < x" "x \<le> e" "map_of av x \<noteq> None" for e x
    using that cur by (intro keep voter_at_insert_later) auto
  have "get_authorized_voter s' e = Some key"
    if "AuthorizedVoters_last (authorized_voters s) = Some (x, k)" "k \<noteq> key" "tgt \<le> e" for x k e
  proof (rule from_tgt [OF that(3)])
    fix y assume "tgt < y"
    have "snd (last av) = snd (last (authorized_voters s))"
      using that(1) by (intro last_voter_same same av asc) (auto simp: AuthorizedVoters_last_def last_opt_def split: if_splits)
    then have "fst (last av) < tgt"
      using that(1,2) latest by (auto simp: AuthorizedVoters_last_def last_opt_def split: if_splits)
    then show "map_of av y = None" using last_ascending [OF av, of y] \<open>tgt < y\<close> by (meson leD less_trans)
  qed
  moreover have "get_authorized_voter s' e = get_authorized_voter s e" if "cur \<le> e" "e < tgt" for e
    using that by (intro keep voter_at_insert_before)
  moreover have "get_authorized_voter s' e =
      (if \<exists>x. tgt < x \<and> x \<le> e \<and> AuthorizedVoters_contains (authorized_voters s') x
       then get_authorized_voter s e else Some key)" if "tgt \<le> e" for e
    using that from_tgt [of e] later contains by auto
  moreover have "get_authorized_voter s cur = Some v"
    using get_voter [OF asc] v by (simp add: get_authorized_voter_def)
  ultimately show ?thesis using asc' v(2) past cur contains from_tgt [of tgt] by auto
qed

theorem set_new_authorized_voter_effect_witness:
  "\<exists>s'. set_new_authorized_voter (VoteState_default\<lparr>authorized_voters := [(2, 7)]\<rparr>) 9 4 5 (\<lambda>_. Inr ()) = Inr s' \<and>
     get_authorized_voter s' 4 = Some 7 \<and> get_authorized_voter s' 5 = Some 9 \<and> get_authorized_voter s' 80 = Some 9"
proof -
  let ?s = "VoteState_default\<lparr>authorized_voters := [(2, 7)]\<rparr>"
  have "\<exists>s'. set_new_authorized_voter ?s 9 4 5 (\<lambda>_. Inr ()) = Inr s'"
    by (simp add: exec VoteState_default_def CircBuf_last_def CircBuf_default_def)
  then obtain s' where s': "set_new_authorized_voter ?s 9 4 5 (\<lambda>_. Inr ()) = Inr s'" by blast
  have asc: "ascending (authorized_voters ?s)" by (simp add: ascending_def)
  have l: "AuthorizedVoters_last (authorized_voters ?s) = Some (2, 7) \<and> (7 :: pubkey) \<noteq> 9"
    by (simp add: AuthorizedVoters_last_def last_opt_def)
  have g: "get_authorized_voter ?s 4 = Some 7" by (simp add: get_authorized_voter_def exec)
  have "(4 :: epoch) \<le> 4 \<and> (4 :: epoch) < 5" "(4 :: epoch) \<le> 5" "(5 :: epoch) \<le> 5" "(5 :: epoch) \<le> 80"
    by simp_all
  then show ?thesis
    using set_new_authorized_voter_effect [OF s' asc] s' g l by (metis (no_types, lifting))
qed

end
