(* ===== verification/VoteProcessing.thy ===== *)
theory VoteProcessing
  imports VoteTower VoteRecords
begin

text \<open>
  \<^verbatim>\<open>programs/vote/src/vote_state/mod.rs\<close>, the processing of votes and of vote state updates on
  a vote state.  Failed assertions are \<open>Panic\<close>.  Loops with two indices keep them; the slot
  hashes are walked from the oldest (the last) to the newest.
\<close>

section \<open>Vote transactions\<close>

datatype VoteTransaction =
    VT_Vote Vote
  | VT_VoteStateUpdate VoteStateUpdate
  | VT_CompactVoteStateUpdate VoteStateUpdate

fun VoteTransaction_slots :: "VoteTransaction \<Rightarrow> slot list" where
  "VoteTransaction_slots (VT_Vote v) = vote_slots v"
| "VoteTransaction_slots (VT_VoteStateUpdate u) = VoteStateUpdate_slots u"
| "VoteTransaction_slots (VT_CompactVoteStateUpdate u) = VoteStateUpdate_slots u"

text \<open>Indexing panics out of range.\<close>

fun VoteTransaction_slot :: "VoteTransaction \<Rightarrow> nat \<Rightarrow> slot option" where
  "VoteTransaction_slot (VT_Vote v) i = get (vote_slots v) i"
| "VoteTransaction_slot (VT_VoteStateUpdate u) i = map_option lk_slot (get (lockouts u) i)"
| "VoteTransaction_slot (VT_CompactVoteStateUpdate u) i = map_option lk_slot (get (lockouts u) i)"

fun VoteTransaction_len :: "VoteTransaction \<Rightarrow> nat" where
  "VoteTransaction_len (VT_Vote v) = length (vote_slots v)"
| "VoteTransaction_len (VT_VoteStateUpdate u) = length (lockouts u)"
| "VoteTransaction_len (VT_CompactVoteStateUpdate u) = length (lockouts u)"

fun VoteTransaction_is_empty :: "VoteTransaction \<Rightarrow> bool" where
  "VoteTransaction_is_empty (VT_Vote v) \<longleftrightarrow> vote_slots v = []"
| "VoteTransaction_is_empty (VT_VoteStateUpdate u) \<longleftrightarrow> lockouts u = []"
| "VoteTransaction_is_empty (VT_CompactVoteStateUpdate u) \<longleftrightarrow> lockouts u = []"

fun VoteTransaction_hash :: "VoteTransaction \<Rightarrow> hash" where
  "VoteTransaction_hash (VT_Vote v) = vote_hash v"
| "VoteTransaction_hash (VT_VoteStateUpdate u) = update_hash u"
| "VoteTransaction_hash (VT_CompactVoteStateUpdate u) = update_hash u"

fun VoteTransaction_timestamp :: "VoteTransaction \<Rightarrow> int option" where
  "VoteTransaction_timestamp (VT_Vote v) = vote_timestamp v"
| "VoteTransaction_timestamp (VT_VoteStateUpdate u) = update_timestamp u"
| "VoteTransaction_timestamp (VT_CompactVoteStateUpdate u) = update_timestamp u"

fun VoteTransaction_set_timestamp :: "VoteTransaction \<Rightarrow> int option \<Rightarrow> VoteTransaction" where
  "VoteTransaction_set_timestamp (VT_Vote v) ts = VT_Vote (v\<lparr>vote_timestamp := ts\<rparr>)"
| "VoteTransaction_set_timestamp (VT_VoteStateUpdate u) ts = VT_VoteStateUpdate (u\<lparr>update_timestamp := ts\<rparr>)"
| "VoteTransaction_set_timestamp (VT_CompactVoteStateUpdate u) ts =
     VT_CompactVoteStateUpdate (u\<lparr>update_timestamp := ts\<rparr>)"

fun VoteTransaction_last_voted_slot :: "VoteTransaction \<Rightarrow> slot option" where
  "VoteTransaction_last_voted_slot (VT_Vote v) = Vote_last_voted_slot v"
| "VoteTransaction_last_voted_slot (VT_VoteStateUpdate u) = VoteStateUpdate_last_voted_slot u"
| "VoteTransaction_last_voted_slot (VT_CompactVoteStateUpdate u) = VoteStateUpdate_last_voted_slot u"

definition VoteTransaction_last_voted_slot_hash :: "VoteTransaction \<Rightarrow> (slot \<times> hash) option" where
  "VoteTransaction_last_voted_slot_hash self =
     map_option (\<lambda>s. (s, VoteTransaction_hash self)) (VoteTransaction_last_voted_slot self)"

section \<open>Checking an update against the slot hashes\<close>

text \<open>The loop over the votes from the newest that finds the root the vote state still knows.\<close>

fun root_fix_loop ::
    "slot option \<Rightarrow> slot \<Rightarrow> slot \<Rightarrow> slot option \<Rightarrow> Lockout list \<Rightarrow> VoteError fault + slot option" where
  "root_fix_loop current_root new_proposed_root prev_slot root [] = Inr root"
| "root_fix_loop current_root new_proposed_root prev_slot root (l # ls) =
     (let is_slot_bigger_than_root = (case current_root of None \<Rightarrow> True | Some r \<Rightarrow> r < lk_slot l) in
      if \<not> (lk_slot l < prev_slot \<and> is_slot_bigger_than_root) then Inl Panic
      else if lk_slot l \<le> new_proposed_root then Inr (Some (lk_slot l))
      else root_fix_loop current_root new_proposed_root (lk_slot l) root ls)"

definition feature_active :: "FeatureSet option \<Rightarrow> feature \<Rightarrow> bool" where
  "feature_active fs f \<longleftrightarrow> (case fs of None \<Rightarrow> False | Some fs \<Rightarrow> is_active fs f)"

text \<open>The root to continue with: a root older than the slot hashes cannot be verified.\<close>

definition fixed_root ::
    "VoteState \<Rightarrow> slot \<Rightarrow> bool \<Rightarrow> slot option \<Rightarrow> VoteError fault + slot option" where
  "fixed_root vote_state earliest is_root_fix_enabled original_proposed_root =
     (case original_proposed_root of
        Some new_proposed_root \<Rightarrow>
          if new_proposed_root < earliest then
            let root = root_slot vote_state in
            if is_root_fix_enabled
            then root_fix_loop root new_proposed_root (- 1) root (rev (votes vote_state))
            else Inr root
          else Inr original_proposed_root
      | None \<Rightarrow> Inr None)"

text \<open>
  The main loop: \<open>i\<close> is \<open>vote_state_update_index\<close>, \<open>j\<close> is \<open>slot_hashes_index\<close>.
\<close>

function check_update_loop ::
    "VoteState \<Rightarrow> bool \<Rightarrow> Lockout list \<Rightarrow> SlotHash list \<Rightarrow> slot \<Rightarrow> slot option \<Rightarrow> nat \<Rightarrow> nat \<Rightarrow> nat list
       \<Rightarrow> VoteError fault + (nat \<times> nat \<times> nat list)" where
  "check_update_loop vote_state is_root_fix_enabled ls slot_hashes earliest root_to_check i j to_filter =
     (if i < length ls \<and> 0 < j then
        let proposed_vote_slot = (case root_to_check of Some root \<Rightarrow> root | None \<Rightarrow> lk_slot (ls ! i)) in
        if root_to_check = None \<and> 0 < i \<and> proposed_vote_slot \<le> lk_slot (ls ! (i - 1))
        then Inl (Fault SlotsNotOrdered)
        else
          let ancestor_slot = fst (slot_hashes ! (j - 1)) in
          (case cmp proposed_vote_slot ancestor_slot of
             Less \<Rightarrow>
               if j = length slot_hashes then
                 if \<not> proposed_vote_slot < earliest then Inl Panic
                 else
                   let to_filter =
                         (if \<not> contains_slot vote_state proposed_vote_slot \<and> root_to_check = None
                          then to_filter @ [i] else to_filter)
                   in (case root_to_check of
                         Some new_proposed_root \<Rightarrow>
                           if (if is_root_fix_enabled
                               then new_proposed_root = proposed_vote_slot \<and> new_proposed_root < earliest
                               else case root_slot vote_state of None \<Rightarrow> False | Some r \<Rightarrow> r < earliest)
                           then check_update_loop vote_state is_root_fix_enabled ls slot_hashes earliest
                                  None i j to_filter
                           else Inl Panic
                       | None \<Rightarrow>
                           check_update_loop vote_state is_root_fix_enabled ls slot_hashes earliest
                             None (i + 1) j to_filter)
               else Inl (Fault (if root_to_check \<noteq> None then RootOnDifferentFork else SlotsMismatch))
           | Greater \<Rightarrow>
               check_update_loop vote_state is_root_fix_enabled ls slot_hashes earliest
                 root_to_check i (j - 1) to_filter
           | Equal \<Rightarrow>
               (case root_to_check of
                  Some _ \<Rightarrow>
                    check_update_loop vote_state is_root_fix_enabled ls slot_hashes earliest
                      None i j to_filter
                | None \<Rightarrow>
                    check_update_loop vote_state is_root_fix_enabled ls slot_hashes earliest
                      None (i + 1) (j - 1) to_filter))
      else Inr (i, j, to_filter))"
  by pat_completeness auto
termination
  by (relation "measure (\<lambda>(vs, fix, ls, sh, e, r, i, j, f). (length ls - i) + j + (if r = None then 0 else 1))")
     auto

declare check_update_loop.simps [simp del]

text \<open>The filter of irrelevant votes, with the two indices of the closure given to \<open>retain\<close>.\<close>

fun retain_loop :: "nat list \<Rightarrow> nat \<Rightarrow> nat \<Rightarrow> Lockout list \<Rightarrow> Lockout list" where
  "retain_loop to_filter update_index filter_index [] = []"
| "retain_loop to_filter update_index filter_index (l # ls) =
     (if filter_index = length to_filter then
        l # retain_loop to_filter (update_index + 1) filter_index ls
      else if update_index = to_filter ! filter_index then
        retain_loop to_filter (update_index + 1) (filter_index + 1) ls
      else l # retain_loop to_filter (update_index + 1) filter_index ls)"

definition check_update_vote_state_slots_are_valid ::
    "VoteState \<Rightarrow> VoteStateUpdate \<Rightarrow> SlotHash list \<Rightarrow> FeatureSet option
       \<Rightarrow> VoteError fault + VoteStateUpdate" where
  "check_update_vote_state_slots_are_valid vote_state upd slot_hashes fs =
     (let ls = lockouts upd in
      if ls = [] then Inl (Fault EmptySlots)
      else if (case last_opt (votes vote_state) of None \<Rightarrow> False
               | Some l \<Rightarrow> lk_slot (last ls) \<le> lk_slot l) then Inl (Fault VoteTooOld)
      else
        let last_slot = lk_slot (last ls) in
        if slot_hashes = [] then Inl (Fault SlotsMismatch)
        else
          let earliest = fst (last slot_hashes) in
          if last_slot < earliest then Inl (Fault VoteTooOld)
          else
            let is_root_fix_enabled = feature_active fs vote_state_update_root_fix in
            and_then (fixed_root vote_state earliest is_root_fix_enabled (update_root upd)) (\<lambda>root.
            and_then (check_update_loop vote_state is_root_fix_enabled ls slot_hashes earliest root
                0 (length slot_hashes) []) (\<lambda>(i, j, to_filter).
            if i \<noteq> length ls then Inl (Fault SlotsMismatch)
            else if \<not> (j < length slot_hashes \<and> last_slot = fst (slot_hashes ! j)) then Inl Panic
            else if snd (slot_hashes ! j) \<noteq> update_hash upd then Inl (Fault SlotHashMismatch)
            else Inr (upd\<lparr>update_root := root, lockouts := retain_loop to_filter 0 0 ls\<rparr>))))"

section \<open>Checking a vote against the slot hashes\<close>

function check_slots_loop ::
    "slot option \<Rightarrow> slot list \<Rightarrow> SlotHash list \<Rightarrow> nat \<Rightarrow> nat \<Rightarrow> nat \<times> nat" where
  "check_slots_loop last_voted slots slot_hashes i j =
     (if i < length slots \<and> 0 < j then
        if (case last_voted of None \<Rightarrow> False | Some lv \<Rightarrow> slots ! i \<le> lv)
        then check_slots_loop last_voted slots slot_hashes (i + 1) j
        else if slots ! i \<noteq> fst (slot_hashes ! (j - 1))
        then check_slots_loop last_voted slots slot_hashes i (j - 1)
        else check_slots_loop last_voted slots slot_hashes (i + 1) (j - 1)
      else (i, j))"
  by pat_completeness auto
termination
  by (relation "measure (\<lambda>(lv, slots, sh, i, j). (length slots - i) + j)") auto

declare check_slots_loop.simps [simp del]

definition check_slots_are_valid ::
    "VoteState \<Rightarrow> slot list \<Rightarrow> hash \<Rightarrow> SlotHash list \<Rightarrow> VoteError + unit" where
  "check_slots_are_valid vote_state slots h slot_hashes =
     (let (i, j) = check_slots_loop (last_voted_slot vote_state) slots slot_hashes 0 (length slot_hashes) in
      if j = length slot_hashes then Inl VoteTooOld
      else if i \<noteq> length slots then Inl SlotsMismatch
      else if snd (slot_hashes ! j) \<noteq> h then Inl SlotHashMismatch
      else Inr ())"

section \<open>Replacing the tower\<close>

fun check_new_votes :: "slot option \<Rightarrow> Lockout option \<Rightarrow> Lockout list \<Rightarrow> VoteError + unit" where
  "check_new_votes new_root previous_vote [] = Inr ()"
| "check_new_votes new_root previous_vote (vote # ls) =
     (if confirmation_count vote = 0 then Inl ZeroConfirmations
      else if of_nat MAX_LOCKOUT_HISTORY < confirmation_count vote then Inl ConfirmationTooLarge
      else if (case new_root of None \<Rightarrow> False | Some r \<Rightarrow> lk_slot vote \<le> r \<and> r \<noteq> 0)
      then Inl SlotSmallerThanRoot
      else
        and_then
          (case previous_vote of
             None \<Rightarrow> Inr ()
           | Some p \<Rightarrow>
               if lk_slot vote \<le> lk_slot p then Inl SlotsNotOrdered
               else if confirmation_count p \<le> confirmation_count vote then Inl ConfirmationsNotOrdered
               else if last_locked_out_slot p < lk_slot vote then Inl NewVoteStateLockoutMismatch
               else Inr ())
          (\<lambda>_. check_new_votes new_root (Some vote) ls))"

text \<open>
  The current votes at or below the new root: how many there are (\<open>current_vote_state_index\<close>)
  and how many slots the update finalizes (\<open>finalized_slot_count\<close>, which starts at 1).
\<close>

fun count_rooted :: "slot \<Rightarrow> nat \<Rightarrow> u64 \<Rightarrow> Lockout list \<Rightarrow> nat \<times> u64" where
  "count_rooted new_root index finalized [] = (index, finalized)"
| "count_rooted new_root index finalized (v # vs) =
     (if lk_slot v \<le> new_root then
        count_rooted new_root (index + 1) (if lk_slot v \<noteq> new_root then finalized + 1 else finalized) vs
      else (index, finalized))"

text \<open>The comparison of the remaining current votes with the new ones, on the rest of both.\<close>

fun check_lockouts :: "Lockout list \<Rightarrow> Lockout list \<Rightarrow> VoteError + unit" where
  "check_lockouts (c # cs) (n # ns) =
     (case cmp (lk_slot c) (lk_slot n) of
        Less \<Rightarrow>
          if lk_slot n \<le> last_locked_out_slot c then Inl LockoutConflict else check_lockouts cs (n # ns)
      | Equal \<Rightarrow>
          if confirmation_count n < confirmation_count c then Inl ConfirmationRollBack
          else check_lockouts cs ns
      | Greater \<Rightarrow> check_lockouts (c # cs) ns)"
| "check_lockouts [] ns = Inr ()"
| "check_lockouts cs [] = Inr ()"

definition check_root :: "slot option \<Rightarrow> slot option \<Rightarrow> VoteError + unit" where
  "check_root new_root current_root =
     (case (new_root, current_root) of
        (Some n, Some c) \<Rightarrow> if n < c then Inl RootRollBack else Inr ()
      | (None, Some _) \<Rightarrow> Inl RootRollBack
      | _ \<Rightarrow> Inr ())"

definition process_new_vote_state ::
    "VoteState \<Rightarrow> Lockout list \<Rightarrow> slot option \<Rightarrow> int option \<Rightarrow> epoch \<Rightarrow> FeatureSet option
       \<Rightarrow> VoteError fault + VoteState" where
  "process_new_vote_state vote_state new_state new_root timestamp epoch fs =
     and_then (assert_that (new_state \<noteq> [])) (\<lambda>_. faulty (
     if MAX_LOCKOUT_HISTORY < length new_state then Inl TooManyVotes
     else
       and_then (check_root new_root (root_slot vote_state)) (\<lambda>_.
       and_then (check_new_votes new_root None new_state) (\<lambda>_.
       let (index, finalized) =
             (case new_root of None \<Rightarrow> (0, 1) | Some r \<Rightarrow> count_rooted r 0 1 (votes vote_state)) in
       and_then (check_lockouts (drop index (votes vote_state)) new_state) (\<lambda>_.
       let vote_state =
             (if root_slot vote_state \<noteq> new_root then
                increment_credits vote_state epoch
                  (if feature_active fs vote_state_update_credit_per_dequeue then finalized else 1)
              else vote_state) in
       and_then
         (case timestamp of
            None \<Rightarrow> Inr vote_state
          | Some ts \<Rightarrow> process_timestamp vote_state (lk_slot (last new_state)) ts)
         (\<lambda>vote_state. Inr (vote_state\<lparr>root_slot := new_root, votes := new_state\<rparr>)))))))"

section \<open>Votes and updates\<close>

definition process_vote ::
    "VoteState \<Rightarrow> Vote \<Rightarrow> SlotHash list \<Rightarrow> epoch \<Rightarrow> FeatureSet option \<Rightarrow> VoteError + VoteState" where
  "process_vote vote_state vote slot_hashes epoch fs =
     (if vote_slots vote = [] then Inl EmptySlots
      else
        let slots =
              (if feature_active fs filter_votes_outside_slot_hashes then
                 let earliest = (case last_opt slot_hashes of None \<Rightarrow> 0 | Some (s, _) \<Rightarrow> s)
                 in filter (\<lambda>s. earliest \<le> s) (vote_slots vote)
               else vote_slots vote)
        in if slots = [] then Inl VotesTooOldAllFiltered
           else
             and_then (check_slots_are_valid vote_state slots (vote_hash vote) slot_hashes) (\<lambda>_.
             Inr (process_slots vote_state slots epoch)))"

definition process_vote_unchecked :: "VoteState \<Rightarrow> Vote \<Rightarrow> VoteState" where
  "process_vote_unchecked vote_state vote =
     (let slot_hashes = map (\<lambda>s. (s, vote_hash vote)) (rev (vote_slots vote)) in
      case process_vote vote_state vote slot_hashes (current_epoch vote_state) None of
        Inl _ \<Rightarrow> vote_state | Inr vote_state \<Rightarrow> vote_state)"

definition process_slot_vote_unchecked :: "VoteState \<Rightarrow> slot \<Rightarrow> VoteState" where
  "process_slot_vote_unchecked vote_state s = process_vote_unchecked vote_state (Vote_new [s] 0)"

definition do_process_vote_state_update ::
    "VoteState \<Rightarrow> SlotHash list \<Rightarrow> epoch \<Rightarrow> VoteStateUpdate \<Rightarrow> FeatureSet option
       \<Rightarrow> VoteError fault + VoteState" where
  "do_process_vote_state_update vote_state slot_hashes epoch upd fs =
     and_then (check_update_vote_state_slots_are_valid vote_state upd slot_hashes fs) (\<lambda>upd.
     process_new_vote_state vote_state (lockouts upd) (update_root upd) (update_timestamp upd) epoch fs)"

lemmas [exec] =
  feature_active_def fixed_root_def check_update_vote_state_slots_are_valid_def
  check_slots_are_valid_def check_root_def process_new_vote_state_def process_vote_def
  process_slots_def do_process_vote_state_update_def cmp_def

section \<open>What a replaced tower guarantees\<close>

lemma check_new_votes_Inr:
  assumes "check_new_votes r p vs = Inr ()"
  shows "(\<forall>v \<in> set vs. counted v) \<and> above_root r vs \<and>
     successively (\<lambda>v w. follows v w \<and> confirmation_count w < confirmation_count v)
       (case p of None \<Rightarrow> vs | Some v \<Rightarrow> v # vs)"
  using assms
proof (induction vs arbitrary: p)
  case (Cons v vs)
  from Cons.prems have v: "counted v" "above_root r [v]" and rest: "check_new_votes r (Some v) vs = Inr ()"
    and step: "\<And>u. p = Some u \<Longrightarrow> follows u v \<and> confirmation_count v < confirmation_count u"
    by (auto simp: counted_def above_root_def follows_def MAX_LOCKOUT_HISTORY_def word_le_nat_alt
        word_less_nat_alt unat_gt_0 Suc_le_eq not_le result_simps split: if_splits option.splits)
  show ?case
    using Cons.IH [OF rest] v step by (cases p) (auto simp: above_root_def)
qed (auto split: option.splits simp: above_root_def)

lemma check_new_votes_wf:
  assumes "check_new_votes r None vs = Inr ()"
  shows "votes_ok vs" and "above_root r vs"
  using check_new_votes_Inr [OF assms] unfolding votes_ok_def
  by (auto simp: successively_conv_nth)

text \<open>
  Lockouts are respected: a current vote above the new root is either in the new tower with at
  least as many confirmations, or its lockout has expired at the first larger slot of the new
  tower, or it is larger than every slot there.
\<close>

definition respected :: "Lockout list \<Rightarrow> Lockout \<Rightarrow> bool" where
  "respected ns c \<longleftrightarrow>
     (\<exists>n \<in> set ns. lk_slot n = lk_slot c \<and> confirmation_count c \<le> confirmation_count n) \<or>
     (\<forall>n \<in> set ns. lk_slot n \<noteq> lk_slot c) \<and>
     (\<forall>n \<in> set ns. lk_slot c < lk_slot n \<longrightarrow> last_locked_out_slot c < lk_slot n)"

abbreviation slots_ascending :: "Lockout list \<Rightarrow> bool" where
  "slots_ascending \<equiv> sorted_wrt (\<lambda>v w. lk_slot v < lk_slot w)"

lemma cmp_simps [simp]:
  "a < b \<Longrightarrow> cmp a b = Less" "cmp a a = Equal" "b < a \<Longrightarrow> cmp a b = Greater"
  for a b :: "'a::linorder"
  by (auto simp: cmp_def)

lemma check_lockouts_respected:
  assumes "check_lockouts cs ns = Inr ()" and "slots_ascending cs" and "slots_ascending ns"
    and "c \<in> set cs"
  shows "respected ns c"
  using assms
proof (induction cs ns rule: check_lockouts.induct)
  case (1 d cs n ns)
  consider (less) "lk_slot d < lk_slot n" | (equal) "lk_slot d = lk_slot n" | (greater) "lk_slot n < lk_slot d"
    by (rule linorder_cases)
  then show ?case
  proof cases
    case less
    then have exp: "last_locked_out_slot d < lk_slot n" and rest: "check_lockouts cs (n # ns) = Inr ()"
      using 1(4) by (auto split: if_splits)
    have "respected (n # ns) d"
      using exp less 1(6) unfolding respected_def by (auto intro: less_trans)
    moreover have "respected (n # ns) c" if "c \<in> set cs"
      using 1(1) rest 1(5,6) less exp that by (simp add: not_le)
    ultimately show ?thesis using 1(7) by auto
  next
    case equal
    then have cc: "confirmation_count d \<le> confirmation_count n" and rest: "check_lockouts cs ns = Inr ()"
      using 1(4) by (auto simp: not_less split: if_splits)
    have "respected (n # ns) d" using cc equal by (auto simp: respected_def)
    moreover have "respected (n # ns) c" if "c \<in> set cs"
      using 1(2) rest 1(5,6) equal cc that by (auto simp: respected_def not_less)
    ultimately show ?thesis using 1(7) by auto
  next
    case greater
    then have rest: "check_lockouts (d # cs) ns = Inr ()"
      using 1(4) by simp
    have "lk_slot n < lk_slot c" using greater 1(5,7) by (auto intro: less_trans)
    then show ?thesis
      using 1(3) rest 1(5-7) greater by (auto simp: respected_def)
  qed
qed (auto simp: respected_def)

lemma count_rooted_index:
  "fst (count_rooted r k f vs) = k + length (takeWhile (\<lambda>v. lk_slot v \<le> r) vs)"
  by (induction r k f vs rule: count_rooted.induct) auto

lemma drop_count_rooted: "drop (fst (count_rooted r 0 f vs)) vs = dropWhile (\<lambda>v. lk_slot v \<le> r) vs"
  by (simp add: count_rooted_index dropWhile_eq_drop)

lemma process_timestamp_frame:
  assumes "process_timestamp s slot ts = Inr s'"
  shows "s' = s\<lparr>last_timestamp := \<lparr>bt_slot = slot, bt_timestamp = ts\<rparr>\<rparr>"
  using assms by (auto simp: process_timestamp_def Let_def split: if_splits)

lemma process_new_vote_state_Inr:
  assumes "process_new_vote_state s ns r ts e fs = Inr s'"
  obtains "ns \<noteq> []" "length ns \<le> MAX_LOCKOUT_HISTORY" "check_root r (root_slot s) = Inr ()"
    "check_new_votes r None ns = Inr ()"
    "check_lockouts (case r of None \<Rightarrow> votes s | Some n \<Rightarrow> dropWhile (\<lambda>v. lk_slot v \<le> n) (votes s)) ns = Inr ()"
    "votes s' = ns" "root_slot s' = r" "authorized_voters s' = authorized_voters s"
    "authorized_withdrawer s' = authorized_withdrawer s" "node_pubkey s' = node_pubkey s"
    "commission s' = commission s" "prior_voters s' = prior_voters s"
proof -
  have idx: "drop (fst (case r of None \<Rightarrow> (0, 1) | Some n \<Rightarrow> count_rooted n 0 1 (votes s))) (votes s)
      = (case r of None \<Rightarrow> votes s | Some n \<Rightarrow> dropWhile (\<lambda>v. lk_slot v \<le> n) (votes s))"
    by (simp add: drop_count_rooted split: option.splits)
  from assms show ?thesis
    by (intro that)
       (auto simp: process_new_vote_state_def Let_def result_simps idx [symmetric] case_prod_beta not_less
          split: if_splits option.splits dest!: process_timestamp_frame)
qed

text \<open>
  A replaced tower never rolls back.  When \<open>process_new_vote_state\<close> accepts a new tower and
  root for a vote state whose votes are in order, the tower has 1 to 31 votes with ascending
  slots, strictly descending confirmations between 1 and 31, each vote within the lockout of the
  previous one and above a non-zero root; the root does not move back; and every current vote is
  at or below the new root, or in the new tower with at least as many confirmations, or its
  lockout has expired before the first larger slot of the new tower.
\<close>

lemma new_vote_state_respects_lockouts:
  assumes "process_new_vote_state s ns r ts e fs = Inr s'" and "slots_ascending (votes s)"
  shows "votes s' = ns \<and> root_slot s' = r \<and> ns \<noteq> [] \<and> length ns \<le> MAX_LOCKOUT_HISTORY \<and>
     votes_ok ns \<and> above_root r ns \<and>
     (\<forall>c. root_slot s = Some c \<longrightarrow> (\<exists>n. r = Some n \<and> c \<le> n)) \<and>
     (\<forall>c \<in> set (votes s). (\<exists>n. r = Some n \<and> lk_slot c \<le> n) \<or> respected ns c)"
  using assms(1)
proof (rule process_new_vote_state_Inr)
  let ?cs = "case r of None \<Rightarrow> votes s | Some n \<Rightarrow> dropWhile (\<lambda>v. lk_slot v \<le> n) (votes s)"
  assume *: "ns \<noteq> []" "length ns \<le> MAX_LOCKOUT_HISTORY" "check_root r (root_slot s) = Inr ()"
    "check_new_votes r None ns = Inr ()" "check_lockouts ?cs ns = Inr ()" "votes s' = ns" "root_slot s' = r"
  note wf = check_new_votes_wf [OF *(4)]
  have root: "\<exists>n. r = Some n \<and> c \<le> n" if "root_slot s = Some c" for c
    using *(3) that by (auto simp: check_root_def split: option.splits if_splits)
  have "slots_ascending ?cs"
    using assms(2) by (auto split: option.splits simp: dropWhile_eq_drop sorted_wrt_drop)
  note resp = check_lockouts_respected [OF *(5) this votes_ok_sorted [OF wf(1)]]
  have "(\<exists>n. r = Some n \<and> lk_slot c \<le> n) \<or> c \<in> set ?cs" if "c \<in> set (votes s)" for c
  proof (cases r)
    case (Some n)
    have "c \<in> set (takeWhile (\<lambda>v. lk_slot v \<le> n) (votes s)) \<or> c \<in> set (dropWhile (\<lambda>v. lk_slot v \<le> n) (votes s))"
      using that by (metis Un_iff set_append takeWhile_dropWhile_id)
    then show ?thesis using Some by (auto dest: set_takeWhileD)
  qed (use that in simp)
  then show ?thesis using * wf root resp by blast
qed

end
