(* ===== verification/VoteChecks.thy ===== *)
theory VoteChecks
  imports VoteProcessing
begin

text \<open>
  What the checks of votes and vote state updates against the slot hashes establish, and that the
  assertions of the update hold for well-formed vote states.
\<close>

section \<open>The loop over the slot hashes\<close>

text \<open>
  What is known of the first \<open>i\<close> slots of an update: they ascend, and each is marked for
  filtering, or is an old slot the vote state has, or is in the slot hashes.
\<close>

definition checked_prefix ::
    "VoteState \<Rightarrow> Lockout list \<Rightarrow> SlotHash list \<Rightarrow> slot \<Rightarrow> nat \<Rightarrow> nat list \<Rightarrow> bool" where
  "checked_prefix vs ls sh earliest i tf \<longleftrightarrow>
     i \<le> length ls \<and> (\<forall>k. 0 < k \<and> k < i \<longrightarrow> lk_slot (ls ! (k - 1)) < lk_slot (ls ! k)) \<and>
     (\<forall>k < i. k \<in> set tf \<or> (lk_slot (ls ! k) < earliest \<and> contains_slot vs (lk_slot (ls ! k))) \<or>
        lk_slot (ls ! k) \<in> fst ` set sh) \<and>
     sorted_wrt (<) tf \<and>
     (\<forall>k \<in> set tf. k < i \<and> lk_slot (ls ! k) < earliest \<and> \<not> contains_slot vs (lk_slot (ls ! k)))"

lemma checked_prefix_step:
  assumes "checked_prefix vs ls sh earliest i tf" and "i < length ls"
    and "i = 0 \<or> lk_slot (ls ! (i - 1)) < lk_slot (ls ! i)"
    and "tf' = tf \<and> (lk_slot (ls ! i) < earliest \<and> contains_slot vs (lk_slot (ls ! i)) \<or>
           lk_slot (ls ! i) \<in> fst ` set sh) \<or>
         tf' = tf @ [i] \<and> lk_slot (ls ! i) < earliest \<and> \<not> contains_slot vs (lk_slot (ls ! i))"
  shows "checked_prefix vs ls sh earliest (i + 1) tf'"
  using assms unfolding checked_prefix_def
  by (auto simp: less_Suc_eq sorted_wrt_append)

text \<open>One iteration, for a vote and for the root.\<close>

lemma check_update_done:
  "\<not> (i < length ls \<and> 0 < j) \<Longrightarrow> check_update_loop vs rf ls sh earliest rtc i j tf = Inr (i, j, tf)"
  by (subst check_update_loop.simps) (rule if_not_P)

lemma check_update_vote:
  assumes "i < length ls" and "0 < j"
  shows "check_update_loop vs rf ls sh earliest None i j tf =
     (if 0 < i \<and> lk_slot (ls ! i) \<le> lk_slot (ls ! (i - 1)) then Inl (Fault SlotsNotOrdered)
      else if lk_slot (ls ! i) < fst (sh ! (j - 1)) then
        if j = length sh then
          if \<not> lk_slot (ls ! i) < earliest then Inl Panic
          else check_update_loop vs rf ls sh earliest None (i + 1) j
                 (if contains_slot vs (lk_slot (ls ! i)) then tf else tf @ [i])
        else Inl (Fault SlotsMismatch)
      else if lk_slot (ls ! i) = fst (sh ! (j - 1))
      then check_update_loop vs rf ls sh earliest None (i + 1) (j - 1) tf
      else check_update_loop vs rf ls sh earliest None i (j - 1) tf)"
  using assms by (subst check_update_loop.simps) (simp add: Let_def cmp_def)

lemma check_update_root:
  assumes "i < length ls" and "0 < j"
  shows "check_update_loop vs rf ls sh earliest (Some r) i j tf =
     (if r < fst (sh ! (j - 1)) then
        if j = length sh then
          if \<not> r < earliest then Inl Panic
          else if (if rf then r < earliest
                   else case root_slot vs of None \<Rightarrow> False | Some c \<Rightarrow> c < earliest)
          then check_update_loop vs rf ls sh earliest None i j tf
          else Inl Panic
        else Inl (Fault RootOnDifferentFork)
      else if r = fst (sh ! (j - 1)) then check_update_loop vs rf ls sh earliest None i j tf
      else check_update_loop vs rf ls sh earliest (Some r) i (j - 1) tf)"
  using assms by (subst check_update_loop.simps) (simp add: Let_def cmp_def)

text \<open>The invariant rule of the loop: one premise for each way an iteration continues.\<close>

lemma check_update_loop_invariant:
  assumes "check_update_loop vs rf ls sh earliest rtc i j tf = Inr (i', j', tf')"
    and "P rtc i j tf"
    and root_old: "\<And>r i j tf. \<lbrakk>P (Some r) i j tf; i < length ls; 0 < j; j = length sh; r < earliest\<rbrakk> \<Longrightarrow> P None i j tf"
    and vote_old: "\<And>i j tf. \<lbrakk>P None i j tf; i < length ls; 0 < j; j = length sh;
          i = 0 \<or> lk_slot (ls ! (i - 1)) < lk_slot (ls ! i); lk_slot (ls ! i) < earliest\<rbrakk> \<Longrightarrow>
          P None (i + 1) j (if contains_slot vs (lk_slot (ls ! i)) then tf else tf @ [i])"
    and newer: "\<And>rtc i j tf. \<lbrakk>P rtc i j tf; i < length ls; 0 < j\<rbrakk> \<Longrightarrow> P rtc i (j - 1) tf"
    and root_found: "\<And>r i j tf. \<lbrakk>P (Some r) i j tf; i < length ls; 0 < j; r = fst (sh ! (j - 1))\<rbrakk> \<Longrightarrow> P None i j tf"
    and vote_found: "\<And>i j tf. \<lbrakk>P None i j tf; i < length ls; 0 < j;
          i = 0 \<or> lk_slot (ls ! (i - 1)) < lk_slot (ls ! i); lk_slot (ls ! i) = fst (sh ! (j - 1))\<rbrakk> \<Longrightarrow>
          P None (i + 1) (j - 1) tf"
  shows "\<exists>rtc'. P rtc' i' j' tf'"
  using assms(1,2)
proof (induction "(length ls - i) + j + (if rtc = None then 0 else 1)" arbitrary: rtc i j tf rule: less_induct)
  case less
  show ?case
  proof (cases "i < length ls \<and> 0 < j")
    case False
    with less.prems show ?thesis by (auto simp: check_update_done)
  next
    case True
    then have ij: "i < length ls" "0 < j" by simp_all
    show ?thesis
    proof (cases rtc)
      case None
      note run = less.prems(1) [unfolded None check_update_vote [OF ij]]
      note inv = less.prems(2) [unfolded None]
      have ord: "i = 0 \<or> lk_slot (ls ! (i - 1)) < lk_slot (ls ! i)"
        using run by (auto simp: not_le split: if_splits)
      let ?tf = "if contains_slot vs (lk_slot (ls ! i)) then tf else tf @ [i]"
      consider (old) "j = length sh" "lk_slot (ls ! i) < earliest"
            "check_update_loop vs rf ls sh earliest None (i + 1) j ?tf = Inr (i', j', tf')"
        | (found) "lk_slot (ls ! i) = fst (sh ! (j - 1))"
            "check_update_loop vs rf ls sh earliest None (i + 1) (j - 1) tf = Inr (i', j', tf')"
        | (newer) "check_update_loop vs rf ls sh earliest None i (j - 1) tf = Inr (i', j', tf')"
        using run by (auto simp del: One_nat_def split: if_splits)
      then show ?thesis
      proof cases
        case old
        from less.hyps [OF _ old(3) vote_old [OF inv ij old(1) ord old(2)]] ij None show ?thesis by simp
      next
        case found
        from less.hyps [OF _ found(2) vote_found [OF inv ij ord found(1)]] ij None show ?thesis by simp
      next
        case n: newer
        from less.hyps [OF _ n newer [OF inv ij]] ij None show ?thesis by simp
      qed
    next
      case (Some r)
      note run = less.prems(1) [unfolded Some check_update_root [OF ij]]
      note inv = less.prems(2) [unfolded Some]
      consider (old) "j = length sh" "r < earliest"
            "check_update_loop vs rf ls sh earliest None i j tf = Inr (i', j', tf')"
        | (found) "r = fst (sh ! (j - 1))"
            "check_update_loop vs rf ls sh earliest None i j tf = Inr (i', j', tf')"
        | (newer) "check_update_loop vs rf ls sh earliest (Some r) i (j - 1) tf = Inr (i', j', tf')"
        using run by (auto simp del: One_nat_def split: if_splits)
      then show ?thesis
      proof cases
        case old
        from less.hyps [OF _ old(3) root_old [OF inv ij old(1,2)]] Some show ?thesis by simp
      next
        case found
        from less.hyps [OF _ found(2) root_found [OF inv ij found(1)]] Some show ?thesis by simp
      next
        case n: newer
        from less.hyps [OF _ n newer [OF inv ij]] ij Some show ?thesis by simp
      qed
    qed
  qed
qed

lemma check_update_loop_checked:
  assumes "check_update_loop vs rf ls sh earliest rtc 0 (length sh) [] = Inr (i', j', tf')"
  shows "checked_prefix vs ls sh earliest i' tf'"
proof -
  let ?P = "\<lambda>(_ :: slot option) i j tf. checked_prefix vs ls sh earliest i tf \<and> j \<le> length sh"
  have "\<exists>rtc'. ?P rtc' i' j' tf'"
    using assms
  proof (rule check_update_loop_invariant [where P = ?P])
    show "?P rtc 0 (length sh) []" by (simp add: checked_prefix_def)
    show "?P None (i + 1) j (if contains_slot vs (lk_slot (ls ! i)) then tf else tf @ [i])"
      if "?P None i j tf" "i < length ls" "0 < j" "j = length sh"
        "i = 0 \<or> lk_slot (ls ! (i - 1)) < lk_slot (ls ! i)" "lk_slot (ls ! i) < earliest" for i j tf
      using that checked_prefix_step [of vs ls sh earliest i tf] by auto
    show "?P None (i + 1) (j - 1) tf"
      if "?P None i j tf" "i < length ls" "0 < j" "i = 0 \<or> lk_slot (ls ! (i - 1)) < lk_slot (ls ! i)"
        "lk_slot (ls ! i) = fst (sh ! (j - 1))" for i j tf
    proof -
      have "lk_slot (ls ! i) \<in> fst ` set sh" using that by (auto intro!: imageI nth_mem)
      then show ?thesis using that checked_prefix_step [of vs ls sh earliest i tf tf] by auto
    qed
  qed auto
  then show ?thesis by blast
qed

lemma check_update_loop_last:
  assumes "check_update_loop vs rf ls sh earliest rtc 0 (length sh) [] = Inr (length ls, j', tf')"
    and "ls \<noteq> []" and "\<not> lk_slot (last ls) < earliest"
  shows "j' < length sh \<and> fst (sh ! j') = lk_slot (last ls)"
proof -
  let ?P = "\<lambda>(_ :: slot option) i j (_ :: nat list). j \<le> length sh \<and>
    (\<forall>k. i = Suc k \<and> Suc k = length ls \<longrightarrow>
       lk_slot (ls ! k) < earliest \<or> j < length sh \<and> fst (sh ! j) = lk_slot (ls ! k))"
  have "\<exists>rtc'. ?P rtc' (length ls) j' tf'"
    using assms(1) by (rule check_update_loop_invariant [where P = ?P]) (use assms(2) in auto)
  then have *: "\<forall>k. length ls = Suc k \<and> Suc k = length ls \<longrightarrow>
      lk_slot (ls ! k) < earliest \<or> j' < length sh \<and> fst (sh ! j') = lk_slot (ls ! k)" by blast
  show ?thesis
    using * [THEN spec, of "length ls - 1"] assms(2,3) by (simp add: last_conv_nth)
qed

lemma check_update_loop_no_panic:
  assumes "earliest = fst (sh ! (length sh - 1))"
    and "\<And>r. rtc = Some r \<Longrightarrow> r < earliest \<Longrightarrow> \<not> rf \<Longrightarrow> root_slot vs = Some r"
  shows "check_update_loop vs rf ls sh earliest rtc i j tf \<noteq> Inl Panic"
  using assms(2)
proof (induction "(length ls - i) + j + (if rtc = None then 0 else 1)" arbitrary: rtc i j tf rule: less_induct)
  case less
  show ?case
  proof (cases "i < length ls \<and> 0 < j")
    case True
    then have ij: "i < length ls" "0 < j" by simp_all
    show ?thesis
    proof (cases rtc)
      case None
      have "check_update_loop vs rf ls sh earliest None (i + 1) j tf' \<noteq> Inl Panic"
        "check_update_loop vs rf ls sh earliest None (i + 1) (j - 1) tf' \<noteq> Inl Panic"
        "check_update_loop vs rf ls sh earliest None i (j - 1) tf' \<noteq> Inl Panic" for tf'
        by (rule less.hyps; use ij None in simp)+
      then show ?thesis
        using assms(1) unfolding None check_update_vote [OF ij] by (auto split: if_splits)
    next
      case (Some r)
      have "check_update_loop vs rf ls sh earliest None i j tf' \<noteq> Inl Panic" for tf'
        by (rule less.hyps) (use Some in simp_all)
      moreover have "check_update_loop vs rf ls sh earliest (Some r) i (j - 1) tf' \<noteq> Inl Panic" for tf'
        by (rule less.hyps) (use ij Some less.prems in simp_all)
      ultimately show ?thesis
        using assms(1) less.prems [OF Some] unfolding Some check_update_root [OF ij]
        by (auto simp del: One_nat_def split: option.splits)
    qed
  qed (simp add: check_update_done)
qed

section \<open>Filtering\<close>

lemma retain_loop_filter:
  assumes "sorted_wrt (<) tf" and "f \<le> length tf" and "\<And>k. k \<in> set (drop f tf) \<Longrightarrow> u \<le> k"
  shows "retain_loop tf u f ls = map snd (filter (\<lambda>(k, _). k \<notin> set (drop f tf)) (enumerate u ls))"
  using assms(2,3)
proof (induction ls arbitrary: u f)
  case (Cons l ls)
  show ?case
  proof (cases "f = length tf")
    case True
    then show ?thesis using Cons.IH [of f "Suc u"] by simp
  next
    case False
    then have f: "f < length tf" using Cons.prems(1) by simp
    have drop: "drop f tf = tf ! f # drop (Suc f) tf" using f by (simp add: Cons_nth_drop_Suc)
    have later: "tf ! f < k" if "k \<in> set (drop (Suc f) tf)" for k
      using sorted_wrt_drop [OF assms(1), of f] that by (simp add: drop)
    show ?thesis
    proof (cases "u = tf ! f")
      case True
      have "retain_loop tf (Suc u) (Suc f) ls
          = map snd (filter (\<lambda>(k, _). k \<notin> set (drop (Suc f) tf)) (enumerate (Suc u) ls))"
        using Cons.IH [of "Suc f" "Suc u"] f later True by (auto simp: Suc_le_eq)
      also have "\<dots> = map snd (filter (\<lambda>(k, _). k \<notin> set (drop f tf)) (enumerate (Suc u) ls))"
        using True by (intro arg_cong [of _ _ "map snd"] filter_cong) (auto simp: drop in_set_enumerate_eq)
      finally show ?thesis using True f by (simp add: drop)
    next
      case ne: False
      have u: "u < tf ! f" using Cons.prems(2) [of "tf ! f"] ne by (simp add: drop)
      then have "u \<notin> set (drop f tf)" "\<And>k. k \<in> set (drop f tf) \<Longrightarrow> Suc u \<le> k"
        using later by (fastforce simp: drop Suc_le_eq)+
      then show ?thesis using Cons.IH [of f "Suc u"] f ne by simp
    qed
  qed
qed simp

lemma retain_set:
  assumes "sorted_wrt (<) tf"
  shows "set (retain_loop tf 0 0 ls) = {ls ! k | k. k < length ls \<and> k \<notin> set tf}"
  using retain_loop_filter [OF assms, of 0 0 ls] by (auto simp: in_set_enumerate_eq image_iff Bex_def)

lemma retain_last:
  assumes "sorted_wrt (<) tf" and "ls \<noteq> []" and "length ls - 1 \<notin> set tf"
  shows "retain_loop tf 0 0 ls \<noteq> []" and "last (retain_loop tf 0 0 ls) = last ls"
proof -
  obtain ys y where ls: "ls = ys @ [y]" using assms(2) by (cases ls rule: rev_cases) auto
  then have "retain_loop tf 0 0 ls = map snd (filter (\<lambda>(k, _). k \<notin> set tf) (enumerate 0 ys)) @ [y]"
    using retain_loop_filter [OF assms(1), of 0 0 ls] assms(3) by (simp add: enumerate_append_eq)
  then show "retain_loop tf 0 0 ls \<noteq> []" "last (retain_loop tf 0 0 ls) = last ls" by (simp_all add: ls)
qed

section \<open>Slots of the tower\<close>

lemma binary_search_finds:
  assumes "right \<le> length xs"
    and less: "\<And>i j. i \<le> j \<Longrightarrow> j < length xs \<Longrightarrow> f (xs ! j) = Less \<Longrightarrow> f (xs ! i) = Less"
    and greater: "\<And>i j. i \<le> j \<Longrightarrow> j < length xs \<Longrightarrow> f (xs ! i) = Greater \<Longrightarrow> f (xs ! j) = Greater"
  shows "is_ok (binary_search_loop f xs left right) \<longleftrightarrow> (\<exists>i. left \<le> i \<and> i < right \<and> f (xs ! i) = Equal)"
  using assms(1)
proof (induction "right - left" arbitrary: left right rule: less_induct)
  case hyp: less
  define m where "m = left + (right - left) div 2"
  note unfold = binary_search_loop.simps [of f xs left right, folded m_def]
  show ?case
  proof (cases "left < right")
    case True
    then have mid: "left \<le> m" "m < right" "m < length xs" using hyp.prems by (auto simp: m_def)
    show ?thesis
    proof (cases "f (xs ! m)")
      case Less
      then have "f (xs ! i) \<noteq> Equal" if "i \<le> m" for i using less [OF that mid(3)] by simp
      then have "(\<exists>i. m + 1 \<le> i \<and> i < right \<and> f (xs ! i) = Equal) \<longleftrightarrow>
          (\<exists>i. left \<le> i \<and> i < right \<and> f (xs ! i) = Equal)"
        using mid(1) by (metis Suc_eq_plus1 not_less_eq_eq le_trans le_add1)
      then show ?thesis
        using hyp.hyps [of right "m + 1"] hyp.prems Less True mid by (simp add: unfold Let_def m_def [symmetric])
    next
      case Equal
      then show ?thesis using mid True by (auto simp: unfold Let_def m_def [symmetric])
    next
      case Greater
      then have "f (xs ! i) \<noteq> Equal" if "m \<le> i" "i < length xs" for i using greater [OF that] by simp
      then have "(\<exists>i. left \<le> i \<and> i < m \<and> f (xs ! i) = Equal) \<longleftrightarrow>
          (\<exists>i. left \<le> i \<and> i < right \<and> f (xs ! i) = Equal)"
        using mid hyp.prems by (metis less_trans not_less less_le_trans)
      then show ?thesis
        using hyp.hyps [of m left] hyp.prems Greater True mid by (simp add: unfold Let_def m_def [symmetric])
    qed
  qed (simp add: binary_search_loop.simps)
qed

lemma contains_slot_iff:
  assumes "slots_ascending (votes s)"
  shows "contains_slot s x \<longleftrightarrow> x \<in> lk_slot ` set (votes s)"
proof -
  let ?f = "\<lambda>l. cmp (lk_slot l) x" and ?vs = "votes s"
  have asc: "lk_slot (?vs ! i) \<le> lk_slot (?vs ! j)" if "i \<le> j" "j < length ?vs" for i j
    using sorted_wrt_nth_less [OF assms, of i j] that by (cases "i = j") auto
  have "is_ok (binary_search_loop ?f ?vs 0 (length ?vs)) \<longleftrightarrow> (\<exists>i. 0 \<le> i \<and> i < length ?vs \<and> ?f (?vs ! i) = Equal)"
  proof (rule binary_search_finds)
    show "?f (?vs ! i) = Less" if "i \<le> j" "j < length ?vs" "?f (?vs ! j) = Less" for i j
      using asc [OF that(1,2)] that(3) by (auto simp: cmp_def split: if_splits)
    show "?f (?vs ! j) = Greater" if "i \<le> j" "j < length ?vs" "?f (?vs ! i) = Greater" for i j
      using asc [OF that(1,2)] that(3) by (auto simp: cmp_def split: if_splits)
  qed simp
  moreover have "cmp y x = Equal \<longleftrightarrow> y = x" for y by (simp add: cmp_def)
  moreover have "x \<in> lk_slot ` set ?vs \<longleftrightarrow> (\<exists>i < length ?vs. lk_slot (?vs ! i) = x)"
    by (auto simp: set_conv_nth image_iff)
  ultimately show ?thesis
    by (simp add: contains_slot_def binary_search_by_def)
qed

section \<open>What the checks establish\<close>

lemma check_update_Inr:
  assumes "check_update_vote_state_slots_are_valid s u sh fs = Inr u'"
  obtains root j tf where "lockouts u \<noteq> []"
    "\<And>v. last_opt (votes s) = Some v \<Longrightarrow> lk_slot v < lk_slot (last (lockouts u))"
    "\<not> lk_slot (last (lockouts u)) < fst (last sh)" "sh \<noteq> []"
    "check_update_loop s (feature_active fs vote_state_update_root_fix) (lockouts u) sh (fst (last sh)) root
       0 (length sh) [] = Inr (length (lockouts u), j, tf)"
    "snd (sh ! j) = update_hash u"
    "u' = u\<lparr>update_root := root, lockouts := retain_loop tf 0 0 (lockouts u)\<rparr>"
  using assms
  by (auto simp: check_update_vote_state_slots_are_valid_def Let_def result_simps not_le
      split: if_splits option.splits)

lemma retained_last:
  assumes "checked_prefix s ls sh earliest (length ls) tf" and "ls \<noteq> []" and "\<not> lk_slot (last ls) < earliest"
  shows "retain_loop tf 0 0 ls \<noteq> []" and "last (retain_loop tf 0 0 ls) = last ls"
proof -
  have "length ls - 1 \<notin> set tf"
    using assms by (auto simp: checked_prefix_def last_conv_nth)
  then show "retain_loop tf 0 0 ls \<noteq> []" "last (retain_loop tf 0 0 ls) = last ls"
    using assms(1,2) retain_last by (auto simp: checked_prefix_def)
qed

text \<open>
  An update only names slots of the fork.  When \<open>check_update_vote_state_slots_are_valid\<close>
  accepts an update for a vote state with ordered votes, the update keeps at least its last slot,
  which is newer than every vote of the state and whose hash in the slot hashes is the hash of
  the update; and every slot it keeps is in the slot hashes, or is older than all of them and
  already in the vote state.
\<close>

lemma update_slots_on_fork:
  assumes "check_update_vote_state_slots_are_valid s u sh fs = Inr u'" and "slots_ascending (votes s)"
  shows "lockouts u' \<noteq> [] \<and> lk_slot (last (lockouts u')) = lk_slot (last (lockouts u)) \<and>
     (\<forall>v \<in> set (votes s). lk_slot v < lk_slot (last (lockouts u'))) \<and>
     (lk_slot (last (lockouts u')), update_hash u') \<in> set sh \<and>
     (\<forall>l \<in> set (lockouts u'). lk_slot l \<in> fst ` set sh \<or>
        lk_slot l < fst (last sh) \<and> lk_slot l \<in> lk_slot ` set (votes s))"
  using assms(1)
proof (rule check_update_Inr)
  fix root j tf
  let ?ls = "lockouts u" and ?earliest = "fst (last sh)"
  assume *: "?ls \<noteq> []" "\<And>v. last_opt (votes s) = Some v \<Longrightarrow> lk_slot v < lk_slot (last ?ls)"
    "\<not> lk_slot (last ?ls) < ?earliest" "sh \<noteq> []"
    and loop: "check_update_loop s (feature_active fs vote_state_update_root_fix) ?ls sh ?earliest root
       0 (length sh) [] = Inr (length ?ls, j, tf)"
    and h: "snd (sh ! j) = update_hash u"
    and u': "u' = u\<lparr>update_root := root, lockouts := retain_loop tf 0 0 ?ls\<rparr>"
  note chk = check_update_loop_checked [OF loop]
  note last = check_update_loop_last [OF loop *(1,3)]
  note ret = retained_last [OF chk *(1,3)]
  have newer: "lk_slot v < lk_slot (last ?ls)" if "v \<in> set (votes s)" for v
  proof -
    from that obtain i where i: "i < length (votes s)" "votes s ! i = v" by (auto simp: in_set_conv_nth)
    have ne: "votes s \<noteq> []" using that by auto
    then have "lk_slot (last (votes s)) < lk_slot (last ?ls)" using *(2) by (simp add: last_opt_def)
    moreover have "lk_slot v \<le> lk_slot (last (votes s))"
      using sorted_wrt_nth_less [OF assms(2), of i "length (votes s) - 1"] i ne
      by (cases "i = length (votes s) - 1") (auto simp: last_conv_nth intro: less_imp_le)
    ultimately show ?thesis by simp
  qed
  have "lk_slot l \<in> fst ` set sh \<or> lk_slot l < ?earliest \<and> lk_slot l \<in> lk_slot ` set (votes s)"
    if "l \<in> set (lockouts u')" for l
    using that chk retain_set [of tf ?ls] contains_slot_iff [OF assms(2)]
    by (auto simp: u' checked_prefix_def)
  moreover have "(lk_slot (last ?ls), update_hash u) \<in> set sh"
    using last h nth_mem [of j sh] by (metis prod.collapse)
  ultimately show ?thesis using ret newer by (simp add: u')
qed

end
