(* ===== verification/VoteProperties.thy ===== *)
theory VoteProperties
  imports VoteChecks
begin

text \<open>
  Properties of vote processing as a whole: every way to vote keeps the tower well formed and
  respects its lockouts, and no assertion of the update fails on a vote state whose votes are
  above its root.  The one case where an assertion can fail is shown at the end.
\<close>

section \<open>Updates\<close>

lemma do_process_Inr:
  assumes "do_process_vote_state_update s sh e u fs = Inr s'"
  obtains u' where "check_update_vote_state_slots_are_valid s u sh fs = Inr u'"
    "process_new_vote_state s (lockouts u') (update_root u') (update_timestamp u') e fs = Inr s'"
  using assms by (auto simp: do_process_vote_state_update_def result_simps)

text \<open>
  C9: A vote state update is safe.  When an update is accepted on a well-formed vote state, the
  new state is well formed, its last vote is newer than every vote before, the root does not
  move back, and each earlier vote is rooted, or still in the tower with at least as many
  confirmations, or its slot is no longer in the tower and its lockout ended before every later
  slot of the new tower, in particular before the first one: the voter cannot be made to vote on
  another fork while locked out.
\<close>

theorem vote_state_update_safe:
  assumes "do_process_vote_state_update s sh e u fs = Inr s'" and "tower_wf s"
  shows "tower_wf s' \<and> votes s' \<noteq> [] \<and>
     (\<forall>c. root_slot s = Some c \<longrightarrow> (\<exists>n. root_slot s' = Some n \<and> c \<le> n)) \<and>
     (\<forall>c \<in> set (votes s).
        lk_slot c < lk_slot (last (votes s')) \<and>
        ((\<exists>n. root_slot s' = Some n \<and> lk_slot c \<le> n) \<or>
         (\<exists>v \<in> set (votes s'). lk_slot v = lk_slot c \<and> confirmation_count c \<le> confirmation_count v) \<or>
         (\<forall>v \<in> set (votes s'). lk_slot v \<noteq> lk_slot c \<and>
            (lk_slot c < lk_slot v \<longrightarrow> last_locked_out_slot c < lk_slot v))))"
  using assms(1)
proof (rule do_process_Inr)
  fix u'
  assume chk: "check_update_vote_state_slots_are_valid s u sh fs = Inr u'"
    and new: "process_new_vote_state s (lockouts u') (update_root u') (update_timestamp u') e fs = Inr s'"
  have asc: "slots_ascending (votes s)" using assms(2) votes_ok_sorted by (simp add: tower_wf_def)
  note fork = update_slots_on_fork [OF chk asc]
  note resp = new_vote_state_respects_lockouts [OF new asc]
  have "tower_wf s'" using resp by (auto simp: tower_wf_def)
  moreover have "lk_slot c < lk_slot (last (votes s')) \<and>
      ((\<exists>n. root_slot s' = Some n \<and> lk_slot c \<le> n) \<or> respected (votes s') c)" if "c \<in> set (votes s)" for c
    using fork resp that by auto
  ultimately show ?thesis using resp by (fastforce simp: respected_def)
qed

text \<open>
  C15: An accepted update votes on this fork only.  Every vote of the new tower is for a slot in
  the slot hashes, or for one older than all of them that the vote state already had; the last
  vote is in the slot hashes with the hash the update carries.
\<close>

theorem vote_state_update_on_fork:
  assumes "do_process_vote_state_update s sh e u fs = Inr s'" and "tower_wf s"
  shows "(lk_slot (last (votes s')), update_hash u) \<in> set sh \<and>
     (\<forall>l \<in> set (votes s'). lk_slot l \<in> fst ` set sh \<or>
        lk_slot l < fst (last sh) \<and> lk_slot l \<in> lk_slot ` set (votes s))"
  using assms(1)
proof (rule do_process_Inr)
  fix u'
  assume chk: "check_update_vote_state_slots_are_valid s u sh fs = Inr u'"
    and new: "process_new_vote_state s (lockouts u') (update_root u') (update_timestamp u') e fs = Inr s'"
  have asc: "slots_ascending (votes s)" using assms(2) votes_ok_sorted by (simp add: tower_wf_def)
  have "update_hash u' = update_hash u" using chk by (rule check_update_Inr) simp
  moreover have "votes s' = lockouts u'" using new_vote_state_respects_lockouts [OF new asc] by blast
  ultimately show ?thesis using update_slots_on_fork [OF chk asc] by metis
qed

section \<open>Votes\<close>

definition is_old :: "slot option \<Rightarrow> slot \<Rightarrow> bool" where
  "is_old lv x \<longleftrightarrow> (case lv of None \<Rightarrow> False | Some l \<Rightarrow> x \<le> l)"

lemma check_slots_loop_found:
  assumes "check_slots_loop lv slots sh i j = (i', j')" and "j \<le> length sh"
    and "i \<le> length slots"
    and "\<And>k. k < i \<Longrightarrow> is_old lv (slots ! k) \<or> slots ! k \<in> fst ` set sh"
    and "j = length sh \<or> (\<exists>k < i. \<not> is_old lv (slots ! k) \<and> j < length sh \<and> fst (sh ! j) = slots ! k) \<or>
       i < length slots \<and> \<not> is_old lv (slots ! i)"
  shows "i' \<le> length slots \<and>
    (\<forall>k < i'. is_old lv (slots ! k) \<or> slots ! k \<in> fst ` set sh) \<and>
    (i' = length slots \<longrightarrow> j' = length sh \<or>
       (\<exists>k < i'. \<not> is_old lv (slots ! k) \<and> j' < length sh \<and> fst (sh ! j') = slots ! k))"
  using assms
proof (induction lv slots sh i j rule: check_slots_loop.induct)
  case (1 lv slots sh i j)
  show ?case
  proof (cases "i < length slots \<and> 0 < j")
    case False
    then have "i' = i" "j' = j" using 1(4) by (subst (asm) check_slots_loop.simps, simp)+
    then show ?thesis using 1(6-8) False by auto
  next
    case True
    let ?old = "case lv of None \<Rightarrow> False | Some l \<Rightarrow> slots ! i \<le> l"
    have old_eq: "?old \<longleftrightarrow> is_old lv (slots ! i)" by (simp add: is_old_def)
    consider (old) ?old | (found) "\<not> ?old" "slots ! i = fst (sh ! (j - 1))"
      | (newer) "\<not> ?old" "slots ! i \<noteq> fst (sh ! (j - 1))" by blast
    then show ?thesis
    proof cases
      case old
      then obtain l where l: "lv = Some l" "slots ! i \<le> l" by (auto split: option.splits)
      have run: "check_slots_loop lv slots sh (i + 1) j = (i', j')"
        using 1(4) True l by (subst (asm) check_slots_loop.simps) simp
      show ?thesis
        by (rule 1(1) [OF True old run 1(5)]) (use True old old_eq 1(7,8) in \<open>auto simp: less_Suc_eq\<close>)
    next
      case found
      have run: "check_slots_loop lv slots sh (i + 1) (j - 1) = (i', j')"
        using 1(4) True found by (subst (asm) check_slots_loop.simps) simp
      have mem: "slots ! i \<in> fst ` set sh" using True found(2) 1(5) by auto
      show ?thesis
        by (rule 1(3) [OF True found(1) _ run]) (use True found old_eq 1(5,7) mem in \<open>auto simp: less_Suc_eq\<close>)
    next
      case newer
      have run: "check_slots_loop lv slots sh i (j - 1) = (i', j')"
        using 1(4) True newer by (subst (asm) check_slots_loop.simps) simp
      show ?thesis
        by (rule 1(2) [OF True newer(1) newer(2) run]) (use True newer old_eq 1(5,7) in auto)
    qed
  qed
qed

text \<open>
  C16: A vote keeps the tower.  When a vote is accepted on a well-formed vote state, some of its
  slots are processed one after the other; the result is well formed; every processed slot is
  not newer than the last vote, or is in the slot hashes; the hash of the vote is that of one of
  the newer slots; and the last vote of the new tower is the largest processed slot.
\<close>

theorem process_vote_safe:
  assumes "process_vote s v sh e fs = Inr s'" and "tower_wf s"
  shows "tower_wf s' \<and>
     (\<exists>slots. slots \<noteq> [] \<and> set slots \<subseteq> set (vote_slots v) \<and> s' = process_slots s slots e \<and>
        (\<forall>x \<in> set slots. is_old (last_voted_slot s) x \<or> x \<in> fst ` set sh) \<and>
        (\<exists>x \<in> set slots. \<not> is_old (last_voted_slot s) x \<and> (x, vote_hash v) \<in> set sh) \<and>
        last_voted_slot s' = Some (Max (set slots)))"
proof -
  let ?lv = "last_voted_slot s"
  from assms(1) obtain slots where ne: "slots \<noteq> []" and sub: "set slots \<subseteq> set (vote_slots v)"
    and chk: "check_slots_are_valid s slots (vote_hash v) sh = Inr ()" and s': "s' = process_slots s slots e"
    by (auto simp: process_vote_def Let_def result_simps split: if_splits)
  obtain i j where loop: "check_slots_loop ?lv slots sh 0 (length sh) = (i, j)" by fastforce
  with chk have j: "j \<noteq> length sh" and i: "i = length slots" and h: "snd (sh ! j) = vote_hash v"
    by (auto simp: check_slots_are_valid_def split: if_splits)
  note found = check_slots_loop_found [OF loop, simplified]
  have old: "is_old ?lv x \<or> x \<in> fst ` set sh" if "x \<in> set slots" for x
    using found that i by (auto simp: in_set_conv_nth)
  from found i j obtain k where k: "k < length slots" "\<not> is_old ?lv (slots ! k)" "j < length sh"
    "fst (sh ! j) = slots ! k" by auto
  then have new: "slots ! k \<in> set slots" "(slots ! k, vote_hash v) \<in> set sh"
    using h nth_mem [of j sh] by (auto, metis prod.collapse)
  have "Max (set slots \<union> set_option ?lv) = Max (set slots)"
  proof (cases ?lv)
    case (Some l)
    then have "l \<le> slots ! k" using k(2) by (simp add: is_old_def)
    also have "\<dots> \<le> Max (set slots)" using new(1) by simp
    finally show ?thesis using Some ne by (simp add: max_absorb2)
  qed simp
  then have "last_voted_slot s' = Some (Max (set slots))"
    using process_slots_last [OF assms(2), of slots e] ne by (simp add: s')
  then show ?thesis
    using process_slots_wf [OF assms(2), of slots e] ne sub s' old new k(2) by blast
qed

section \<open>No assertion fails\<close>

lemma root_fix_loop_no_panic:
  assumes "sorted_wrt (\<lambda>v w. lk_slot w < lk_slot v) ls" and "\<And>l. l \<in> set ls \<Longrightarrow> lk_slot l < prev"
    and "\<And>l r. l \<in> set ls \<Longrightarrow> cur = Some r \<Longrightarrow> r < lk_slot l"
  shows "root_fix_loop cur new prev root ls \<noteq> Inl Panic"
  using assms by (induction ls arbitrary: prev) (auto simp: Let_def split: option.splits)

lemma fixed_root_cases:
  assumes "fixed_root s earliest rf r = Inr root" and "\<not> rf" and "root = Some n" and "n < earliest"
  shows "root_slot s = Some n"
  using assms by (auto simp: fixed_root_def Let_def split: option.splits if_splits)

definition votes_above_root :: "VoteState \<Rightarrow> bool" where
  "votes_above_root s \<longleftrightarrow> (\<forall>v \<in> set (votes s). lk_slot v < - 1 \<and> (\<forall>r. root_slot s = Some r \<longrightarrow> r < lk_slot v))"

lemma fixed_root_no_panic:
  assumes "tower_wf s" and "votes_above_root s"
  shows "fixed_root s earliest rf r \<noteq> Inl Panic"
proof -
  have "sorted_wrt (\<lambda>v w. lk_slot w < lk_slot v) (rev (votes s))"
    using assms(1) votes_ok_sorted by (simp add: tower_wf_def sorted_wrt_rev)
  then have "root_fix_loop (root_slot s) n (- 1) (root_slot s) (rev (votes s)) \<noteq> Inl Panic" for n
    by (rule root_fix_loop_no_panic) (use assms(2) in \<open>auto simp: votes_above_root_def\<close>)
  then show ?thesis by (simp add: fixed_root_def Let_def split: option.splits)
qed

lemma check_update_no_panic:
  assumes "tower_wf s" and "votes_above_root s"
  shows "check_update_vote_state_slots_are_valid s u sh fs \<noteq> Inl Panic"
proof
  let ?ls = "lockouts u" and ?rf = "feature_active fs vote_state_update_root_fix" and ?e = "fst (last sh)"
  assume "check_update_vote_state_slots_are_valid s u sh fs = Inl Panic"
  then have ne: "?ls \<noteq> []" "sh \<noteq> []" and last: "\<not> lk_slot (last ?ls) < ?e"
    and run: "and_then (fixed_root s ?e ?rf (update_root u)) (\<lambda>root.
        and_then (check_update_loop s ?rf ?ls sh ?e root 0 (length sh) []) (\<lambda>(i, j, tf).
          if i \<noteq> length ?ls then Inl (Fault SlotsMismatch)
          else if \<not> (j < length sh \<and> lk_slot (last ?ls) = fst (sh ! j)) then Inl Panic
          else if snd (sh ! j) \<noteq> update_hash u then Inl (Fault SlotHashMismatch)
          else Inr (u\<lparr>update_root := root, lockouts := retain_loop tf 0 0 ?ls\<rparr>))) = Inl Panic"
    by (auto simp: check_update_vote_state_slots_are_valid_def Let_def split: if_splits)
  from run obtain root where root: "fixed_root s ?e ?rf (update_root u) = Inr root"
    and run2: "check_update_loop s ?rf ?ls sh ?e root 0 (length sh) [] = Inl Panic \<or>
      (\<exists>i j tf. check_update_loop s ?rf ?ls sh ?e root 0 (length sh) [] = Inr (i, j, tf) \<and>
        i = length ?ls \<and> \<not> (j < length sh \<and> lk_slot (last ?ls) = fst (sh ! j)))"
    using fixed_root_no_panic [OF assms]
    by (auto simp: and_then_eq_Panic_iff split: if_splits)
  have "check_update_loop s ?rf ?ls sh ?e root 0 (length sh) [] \<noteq> Inl Panic"
    using fixed_root_cases [OF root] ne(2) by (intro check_update_loop_no_panic) (auto simp: last_conv_nth)
  then show False using run2 check_update_loop_last [of s ?rf ?ls sh ?e root] ne(1) last by metis
qed

text \<open>
  C17: A vote state update never panics on a well-formed vote state whose votes are above its
  root: whatever slot hashes and update are given, every assertion, index and unwrap in the two
  checks holds, so the update is accepted or refused with an error.
\<close>

theorem vote_state_update_never_panics:
  assumes "tower_wf s" and "votes_above_root s"
  shows "do_process_vote_state_update s sh e u fs \<noteq> Inl Panic"
proof
  assume "do_process_vote_state_update s sh e u fs = Inl Panic"
  then obtain u' where chk: "check_update_vote_state_slots_are_valid s u sh fs = Inr u'" and "lockouts u' = []"
    using check_update_no_panic [OF assms]
    by (auto simp: do_process_vote_state_update_def and_then_eq_Panic_iff process_new_vote_state_def assert_that_def
        split: if_splits)
  then show False
    using update_slots_on_fork [OF chk] assms(1) votes_ok_sorted by (auto simp: tower_wf_def)
qed

section \<open>Concrete votes\<close>

definition all_features :: FeatureSet where
  "all_features = (\<lambda>_. Some 0)"

definition sample_slot_hashes :: "SlotHash list" where
  "sample_slot_hashes = [(1, 11), (0, 10)]"

definition sample_update :: VoteStateUpdate where
  "sample_update =
     VoteStateUpdate_new [\<lparr>lk_slot = 0, confirmation_count = 2\<rparr>, \<lparr>lk_slot = 1, confirmation_count = 1\<rparr>]
       (Some 0) 11"

definition sample_voted :: VoteState where
  "sample_voted = (increment_credits VoteState_default 0 1)
     \<lparr>root_slot := Some 0, votes := lockouts sample_update\<rparr>"

lemmas vote_exec = check_update_vote check_update_root check_update_done
  sample_slot_hashes_def sample_update_def sample_voted_def VoteStateUpdate_new_def all_features_def
  VoteState_default_def is_active_def

lemma sample_update_runs:
  "do_process_vote_state_update VoteState_default sample_slot_hashes 0 sample_update (Some all_features)
     = Inr sample_voted"
  by (simp add: vote_exec exec word_le_nat_alt)

text \<open>A voter who voted for slot 1 moves to a fork with slot 9 after the lockout has ended.\<close>

definition sample_before_switch :: VoteState where
  "sample_before_switch = VoteState_default\<lparr>votes := [\<lparr>lk_slot = 1, confirmation_count = 1\<rparr>]\<rparr>"

definition sample_switch :: VoteStateUpdate where
  "sample_switch = VoteStateUpdate_new [\<lparr>lk_slot = 9, confirmation_count = 1\<rparr>] None 99"

lemma sample_switch_runs:
  "do_process_vote_state_update sample_before_switch [(9, 99), (1, 11)] 0 sample_switch (Some all_features)
     = Inr (VoteState_default\<lparr>votes := lockouts sample_switch\<rparr>)"
  by (simp add: vote_exec sample_before_switch_def sample_switch_def exec word_le_nat_alt)

theorem vote_state_update_safe_witness:
  "do_process_vote_state_update sample_before_switch [(9, 99), (1, 11)] 0 sample_switch (Some all_features)
     = Inr (VoteState_default\<lparr>votes := lockouts sample_switch\<rparr>) \<and>
   last_locked_out_slot \<lparr>lk_slot = 1, confirmation_count = 1\<rparr> < 9"
proof -
  have "tower_wf sample_before_switch"
    by (simp add: tower_wf_def votes_ok_def counted_def above_root_def sample_before_switch_def
        VoteState_default_def exec)
  from vote_state_update_safe [OF sample_switch_runs this] sample_switch_runs show ?thesis
    by (simp add: sample_before_switch_def sample_switch_def VoteStateUpdate_new_def VoteState_default_def)
qed

theorem vote_state_update_on_fork_witness:
  "do_process_vote_state_update VoteState_default sample_slot_hashes 0 sample_update (Some all_features)
     = Inr sample_voted \<and> (1, 11) \<in> set sample_slot_hashes"
  using vote_state_update_on_fork [OF sample_update_runs tower_wf_default] sample_update_runs
  by (simp add: sample_voted_def sample_update_def VoteStateUpdate_new_def)

text \<open>
  C18: An assertion can fail when the root is slot 0.  \<open>process_new_vote_state\<close> does not compare
  the votes with a root of 0, so an update with root 0 and a vote for slot 0 is accepted on a new
  vote account while slot 0 is in the slot hashes; a later update with root 0, once slot 0 has
  left the slot hashes, then fails the assertion that the votes are above the root.
\<close>

theorem root_zero_update_panics:
  "do_process_vote_state_update VoteState_default sample_slot_hashes 0 sample_update (Some all_features)
     = Inr sample_voted \<and>
   do_process_vote_state_update sample_voted [(600, 60), (89, 8)] 1
     (VoteStateUpdate_new [\<lparr>lk_slot = 600, confirmation_count = 1\<rparr>] (Some 0) 60) (Some all_features)
     = Inl Panic"
proof -
  have "(1 :: slot) < - 1" by (simp add: word_less_nat_alt unat_max_word)
  then have "fixed_root sample_voted 89 True (Some 0) = Inl Panic"
    by (simp add: fixed_root_def vote_exec)
  moreover have "last_opt (votes sample_voted) = Some \<lparr>lk_slot = 1, confirmation_count = 1\<rparr>"
    by (simp add: sample_voted_def sample_update_def VoteStateUpdate_new_def last_opt_def)
  ultimately have "check_update_vote_state_slots_are_valid sample_voted
      (VoteStateUpdate_new [\<lparr>lk_slot = 600, confirmation_count = 1\<rparr>] (Some 0) 60) [(600, 60), (89, 8)]
      (Some all_features) = Inl Panic"
    by (simp add: check_update_vote_state_slots_are_valid_def VoteStateUpdate_new_def all_features_def
        feature_active_def is_active_def word_le_nat_alt word_less_nat_alt)
  then show ?thesis
    using sample_update_runs by (simp add: do_process_vote_state_update_def)
qed

definition sample_vote :: Vote where
  "sample_vote = Vote_new [0, 1] 11"

lemma sample_vote_runs:
  "\<exists>s'. process_vote VoteState_default sample_vote sample_slot_hashes 0 (Some all_features) = Inr s' \<and>
     votes s' = [\<lparr>lk_slot = 0, confirmation_count = 2\<rparr>, \<lparr>lk_slot = 1, confirmation_count = 1\<rparr>]"
  by (simp add: vote_exec sample_vote_def Vote_new_def check_slots_loop.simps exec)

theorem process_vote_safe_witness:
  "\<exists>s'. process_vote VoteState_default sample_vote sample_slot_hashes 0 (Some all_features) = Inr s' \<and>
     tower_wf s' \<and> tower s' = [0, 1]"
proof -
  obtain s' where s': "process_vote VoteState_default sample_vote sample_slot_hashes 0 (Some all_features) = Inr s'"
    "votes s' = [\<lparr>lk_slot = 0, confirmation_count = 2\<rparr>, \<lparr>lk_slot = 1, confirmation_count = 1\<rparr>]"
    using sample_vote_runs by blast
  from process_vote_safe [OF s'(1) tower_wf_default] s' show ?thesis by (simp add: tower_def)
qed

theorem vote_state_update_never_panics_witness:
  "tower_wf VoteState_default \<and> votes_above_root VoteState_default \<and>
   do_process_vote_state_update VoteState_default [(600, 60), (89, 8)] 1
     (VoteStateUpdate_new [\<lparr>lk_slot = 600, confirmation_count = 1\<rparr>] (Some 0) 60) (Some all_features)
     \<noteq> Inl Panic"
proof -
  have "votes_above_root VoteState_default" by (simp add: votes_above_root_def VoteState_default_def)
  from vote_state_update_never_panics [OF tower_wf_default this] this tower_wf_default show ?thesis by blast
qed

end
