(* ===== verification/VoteProgram.thy ===== *)
theory VoteProgram
  imports VoteProperties BuiltinProgram Keys
begin

text \<open>
  The vote program: the handlers on a borrowed vote account of
  \<^verbatim>\<open>programs/vote/src/vote_state/mod.rs\<close> and the entry point of
  \<^verbatim>\<open>programs/vote/src/vote_processor.rs\<close>.  The codec \<open>bc\<close> of vote accounts, the decoder of the
  instruction data and \<open>sha256\<close> are parameters.  Metrics and log messages are left out.
\<close>

section \<open>Instructions\<close>

record VoteAuthorizeWithSeedArgs =
  wsa_authorization_type :: VoteAuthorize
  wsa_current_authority_derived_key_owner :: pubkey
  wsa_current_authority_derived_key_seed :: bytes
  wsa_new_authority :: pubkey

record VoteAuthorizeCheckedWithSeedArgs =
  cwsa_authorization_type :: VoteAuthorize
  cwsa_current_authority_derived_key_owner :: pubkey
  cwsa_current_authority_derived_key_seed :: bytes

datatype VoteInstruction =
    InitializeAccount VoteInit
  | Authorize pubkey VoteAuthorize
  | VoteInstr Vote
  | Withdraw u64
  | UpdateValidatorIdentity
  | UpdateCommission u8
  | VoteSwitch Vote hash
  | AuthorizeChecked VoteAuthorize
  | UpdateVoteState VoteStateUpdate
  | UpdateVoteStateSwitch VoteStateUpdate hash
  | AuthorizeWithSeed VoteAuthorizeWithSeedArgs
  | AuthorizeCheckedWithSeed VoteAuthorizeCheckedWithSeedArgs
  | CompactUpdateVoteState VoteStateUpdate
  | CompactUpdateVoteStateSwitch VoteStateUpdate hash

definition vote_program_id :: pubkey where
  "vote_program_id = 0x761481d357474bb7c4d7624ebd3bdb3d8355e73d11043fc0da3538000000000"

section \<open>Handlers\<close>

type_synonym vote_result = "InstructionError fault + TransactionContext"

text \<open>A vote error becomes an instruction error at the \<open>?\<close> operator.\<close>

definition lift_vote_error :: "VoteError fault + 'a \<Rightarrow> InstructionError fault + 'a" where
  "lift_vote_error m =
     map_err (\<lambda>f. case f of Fault e \<Rightarrow> Fault (vote_error e) | Panic \<Rightarrow> Panic) m"

definition verify_authorized_signer :: "pubkey \<Rightarrow> pubkey set \<Rightarrow> InstructionError + unit" where
  "verify_authorized_signer authorized signers =
     (if authorized \<in> signers then Inr () else Inl MissingRequiredSignature)"

definition save_vote_state ::
    "VoteStateVersions bincode \<Rightarrow> BorrowedAccount \<Rightarrow> VoteState \<Rightarrow> TransactionContext \<Rightarrow> vote_result" where
  "save_vote_state bc vote_account vote_state tc =
     faulty (set_state bc vote_account (VoteStateVersions_new_current vote_state) tc)"

definition authorized_state ::
    "VoteState \<Rightarrow> pubkey \<Rightarrow> VoteAuthorize \<Rightarrow> pubkey set \<Rightarrow> Clock \<Rightarrow> FeatureSet
       \<Rightarrow> InstructionError fault + VoteState" where
  "authorized_state vote_state authorized va signers clock fs =
     (case va of
        Voter \<Rightarrow>
          let authorized_withdrawer_signer =
                (if is_active fs vote_withdraw_authority_may_change_authorized_voter
                 then is_ok (verify_authorized_signer (authorized_withdrawer vote_state) signers)
                 else False)
          in (case checked_add (leader_schedule_epoch clock) 1 of
                None \<Rightarrow> Inl Panic
              | Some target_epoch \<Rightarrow>
                  set_new_authorized_voter vote_state authorized (clock_epoch clock) target_epoch
                    (\<lambda>epoch_authorized_voter.
                       if authorized_withdrawer_signer then Inr ()
                       else verify_authorized_signer epoch_authorized_voter signers))
      | Withdrawer \<Rightarrow>
          and_then (faulty (verify_authorized_signer (authorized_withdrawer vote_state) signers)) (\<lambda>_.
          Inr (vote_state\<lparr>authorized_withdrawer := authorized\<rparr>)))"

definition authorize ::
    "VoteStateVersions bincode \<Rightarrow> BorrowedAccount \<Rightarrow> pubkey \<Rightarrow> VoteAuthorize \<Rightarrow> pubkey set \<Rightarrow> Clock
       \<Rightarrow> FeatureSet \<Rightarrow> TransactionContext \<Rightarrow> vote_result" where
  "authorize bc vote_account authorized va signers clock fs tc =
     and_then (faulty (get_state bc vote_account tc)) (\<lambda>versions.
     and_then (authorized_state (convert_to_current versions) authorized va signers clock fs)
       (\<lambda>vote_state. save_vote_state bc vote_account vote_state tc))"

definition update_validator_identity ::
    "VoteStateVersions bincode \<Rightarrow> BorrowedAccount \<Rightarrow> pubkey \<Rightarrow> pubkey set \<Rightarrow> TransactionContext
       \<Rightarrow> vote_result" where
  "update_validator_identity bc vote_account node signers tc =
     and_then (faulty (get_state bc vote_account tc)) (\<lambda>versions.
     let vote_state = convert_to_current versions in
     and_then (faulty (verify_authorized_signer (authorized_withdrawer vote_state) signers)) (\<lambda>_.
     and_then (faulty (verify_authorized_signer node signers)) (\<lambda>_.
     save_vote_state bc vote_account (vote_state\<lparr>node_pubkey := node\<rparr>) tc)))"

definition update_commission ::
    "VoteStateVersions bincode \<Rightarrow> BorrowedAccount \<Rightarrow> u8 \<Rightarrow> pubkey set \<Rightarrow> TransactionContext
       \<Rightarrow> vote_result" where
  "update_commission bc vote_account c signers tc =
     and_then (faulty (get_state bc vote_account tc)) (\<lambda>versions.
     let vote_state = convert_to_current versions in
     and_then (faulty (verify_authorized_signer (authorized_withdrawer vote_state) signers)) (\<lambda>_.
     save_vote_state bc vote_account (vote_state\<lparr>commission := c\<rparr>) tc))"

definition is_commission_update_allowed :: "slot \<Rightarrow> EpochSchedule \<Rightarrow> bool" where
  "is_commission_update_allowed s epoch_schedule =
     (case checked_rem (saturating_sub s (first_normal_slot epoch_schedule)) (slots_per_epoch epoch_schedule) of
        Some relative_slot \<Rightarrow> saturating_mul relative_slot 2 \<le> slots_per_epoch epoch_schedule
      | None \<Rightarrow> True)"

text \<open>Closing an account that earned credits in this or the previous epoch is refused.\<close>

definition reject_active_close :: "Clock option \<Rightarrow> VoteState \<Rightarrow> bool" where
  "reject_active_close clock vote_state \<longleftrightarrow>
     (case (clock, last_opt (epoch_credits vote_state)) of
        (Some c, Some (last_epoch_with_credits, _, _)) \<Rightarrow>
          saturating_sub (clock_epoch c) last_epoch_with_credits < 2
      | _ \<Rightarrow> False)"

definition withdraw_checks ::
    "VoteStateVersions bincode \<Rightarrow> u64 \<Rightarrow> pubkey set \<Rightarrow> Rent \<Rightarrow> Clock option \<Rightarrow> BorrowedAccount
       \<Rightarrow> TransactionContext \<Rightarrow> InstructionError + TransactionContext" where
  "withdraw_checks bc l signers rent_sysvar clock vote_account tc =
     and_then (get_state bc vote_account tc) (\<lambda>versions.
     let vote_state = convert_to_current versions in
     and_then (verify_authorized_signer (authorized_withdrawer vote_state) signers) (\<lambda>_.
     and_then (ok_or (checked_sub (get_lamports vote_account tc) l) InsufficientFunds)
       (\<lambda>remaining_balance.
     if remaining_balance = 0 then
       if reject_active_close clock vote_state then Inl (vote_error ActiveVoteAccountClose)
       else set_state bc vote_account (VoteStateVersions_new_current VoteState_default) tc
     else if remaining_balance < minimum_balance rent_sysvar (length (get_data vote_account tc))
     then Inl InsufficientFunds
     else Inr tc)))"

definition withdraw ::
    "VoteStateVersions bincode \<Rightarrow> TransactionContext \<Rightarrow> InstructionContext \<Rightarrow> IndexOfAccount \<Rightarrow> u64
       \<Rightarrow> IndexOfAccount \<Rightarrow> pubkey set \<Rightarrow> Rent \<Rightarrow> Clock option
       \<Rightarrow> InstructionError + TransactionContext" where
  "withdraw bc tc ic vote_account_index l to_account_index signers rent_sysvar clock =
     and_then
       (with_instruction_account ic tc vote_account_index (\<lambda>vote_account tc.
          and_then (withdraw_checks bc l signers rent_sysvar clock vote_account tc) (\<lambda>tc.
          checked_sub_lamports vote_account l tc)))
       (\<lambda>tc. with_instruction_account ic tc to_account_index (\<lambda>to tc. checked_add_lamports to l tc))"

definition initialize_account ::
    "VoteStateVersions bincode \<Rightarrow> BorrowedAccount \<Rightarrow> VoteInit \<Rightarrow> pubkey set \<Rightarrow> Clock
       \<Rightarrow> TransactionContext \<Rightarrow> vote_result" where
  "initialize_account bc vote_account vote_init signers clock tc =
     (if length (get_data vote_account tc) \<noteq> VoteState_size_of then Inl (Fault InvalidAccountData)
      else
        and_then (faulty (get_state bc vote_account tc)) (\<lambda>versioned.
        if \<not> is_uninitialized versioned then Inl (Fault AccountAlreadyInitialized)
        else
          and_then (faulty (verify_authorized_signer (vi_node_pubkey vote_init) signers)) (\<lambda>_.
          save_vote_state bc vote_account (VoteState_new vote_init clock) tc)))"

definition verify_and_get_vote_state ::
    "VoteStateVersions bincode \<Rightarrow> BorrowedAccount \<Rightarrow> Clock \<Rightarrow> pubkey set \<Rightarrow> TransactionContext
       \<Rightarrow> InstructionError fault + VoteState" where
  "verify_and_get_vote_state bc vote_account clock signers tc =
     and_then (faulty (get_state bc vote_account tc)) (\<lambda>versioned.
     if is_uninitialized versioned then Inl (Fault UninitializedAccount)
     else
       and_then (get_and_update_authorized_voter (convert_to_current versioned) (clock_epoch clock))
         (\<lambda>(authorized_voter, vote_state).
       and_then (faulty (verify_authorized_signer authorized_voter signers)) (\<lambda>_. Inr vote_state)))"

text \<open>\<open>iter().max()\<close> of the slots of a vote.\<close>

definition max_slot :: "slot list \<Rightarrow> slot option" where
  "max_slot xs = (case xs of [] \<Rightarrow> None | y # ys \<Rightarrow> Some (foldl max y ys))"

definition process_vote_with_account ::
    "VoteStateVersions bincode \<Rightarrow> BorrowedAccount \<Rightarrow> SlotHash list \<Rightarrow> Clock \<Rightarrow> Vote \<Rightarrow> pubkey set
       \<Rightarrow> FeatureSet \<Rightarrow> TransactionContext \<Rightarrow> vote_result" where
  "process_vote_with_account bc vote_account slot_hashes clock vote signers fs tc =
     and_then (verify_and_get_vote_state bc vote_account clock signers tc) (\<lambda>vote_state.
     and_then (lift_vote_error (faulty
        (process_vote vote_state vote slot_hashes (clock_epoch clock) (Some fs)))) (\<lambda>vote_state.
     and_then
       (case vote_timestamp vote of
          None \<Rightarrow> Inr vote_state
        | Some timestamp \<Rightarrow>
            lift_vote_error (faulty
              (and_then (ok_or (max_slot (vote_slots vote)) EmptySlots) (\<lambda>s.
               process_timestamp vote_state s timestamp))))
       (\<lambda>vote_state. save_vote_state bc vote_account vote_state tc)))"

definition process_vote_state_update ::
    "VoteStateVersions bincode \<Rightarrow> BorrowedAccount \<Rightarrow> SlotHash list \<Rightarrow> Clock \<Rightarrow> VoteStateUpdate \<Rightarrow> pubkey set
       \<Rightarrow> FeatureSet \<Rightarrow> TransactionContext \<Rightarrow> vote_result" where
  "process_vote_state_update bc vote_account slot_hashes clock upd signers fs tc =
     and_then (verify_and_get_vote_state bc vote_account clock signers tc) (\<lambda>vote_state.
     and_then (lift_vote_error
        (do_process_vote_state_update vote_state slot_hashes (clock_epoch clock) upd (Some fs)))
       (\<lambda>vote_state. save_vote_state bc vote_account vote_state tc))"

section \<open>The entry point\<close>

definition process_authorize_with_seed_instruction ::
    "VoteStateVersions bincode \<Rightarrow> (bytes \<Rightarrow> hash) \<Rightarrow> InvokeEnv \<Rightarrow> InstructionContext \<Rightarrow> BorrowedAccount
       \<Rightarrow> pubkey \<Rightarrow> VoteAuthorize \<Rightarrow> pubkey \<Rightarrow> bytes \<Rightarrow> TransactionContext \<Rightarrow> vote_result" where
  "process_authorize_with_seed_instruction bc sha256 env ic vote_account new_authority authorization_type
       current_authority_derived_key_owner current_authority_derived_key_seed tc =
     (if \<not> is_active (feature_set env) vote_authorize_with_seed then Inl (Fault InvalidInstructionData)
      else
        and_then (faulty (sysvar_clock env tc ic 1)) (\<lambda>clock.
        and_then (faulty (is_instruction_account_signer ic 2)) (\<lambda>signer.
        and_then
          (if signer then
             and_then (faulty (instruction_account_key ic tc 2)) (\<lambda>base_pubkey.
             and_then (faulty (map_err pubkey_error (create_with_seed sha256 base_pubkey
                current_authority_derived_key_seed current_authority_derived_key_owner)))
               (\<lambda>key. Inr {key}))
           else Inr {})
          (\<lambda>expected_authority_keys.
        authorize bc vote_account new_authority authorization_type expected_authority_keys clock
          (feature_set env) tc))))"

text \<open>
  The arms of the match that work on the borrowed vote account \<open>me\<close>.  The arm of \<open>Withdraw\<close>, which
  gives the borrow up, is \<open>process_withdraw_instruction\<close> below; the function is never called on it.
\<close>

definition process_vote_instruction ::
    "VoteStateVersions bincode \<Rightarrow> (bytes \<Rightarrow> hash) \<Rightarrow> InvokeEnv \<Rightarrow> VoteInstruction \<Rightarrow> pubkey set
       \<Rightarrow> InstructionContext \<Rightarrow> BorrowedAccount \<Rightarrow> TransactionContext \<Rightarrow> vote_result" where
  "process_vote_instruction bc sha256 env instruction signers ic me tc =
     (let vote = (\<lambda>v.
            and_then (faulty (sysvar_slot_hashes env tc ic 1)) (\<lambda>slot_hashes.
            and_then (faulty (sysvar_clock env tc ic 2)) (\<lambda>clock.
            process_vote_with_account bc me slot_hashes clock v signers (feature_set env) tc)));
          update = (\<lambda>u.
            and_then (faulty (get_slot_hashes (sysvar_cache env))) (\<lambda>slot_hashes.
            and_then (faulty (get_clock (sysvar_cache env))) (\<lambda>clock.
            process_vote_state_update bc me slot_hashes clock u signers (feature_set env) tc)));
          direct = is_active (feature_set env) allow_votes_to_directly_update_vote_state;
          compact = is_active (feature_set env) compact_vote_state_updates
      in case instruction of
        InitializeAccount vote_init \<Rightarrow>
          and_then (faulty (sysvar_rent env tc ic 1)) (\<lambda>rent.
          if \<not> is_exempt rent (get_lamports me tc) (length (get_data me tc)) then Inl (Fault InsufficientFunds)
          else
            and_then (faulty (sysvar_clock env tc ic 2)) (\<lambda>clock.
            initialize_account bc me vote_init signers clock tc))
      | Authorize voter_pubkey va \<Rightarrow>
          and_then (faulty (sysvar_clock env tc ic 1)) (\<lambda>clock.
          authorize bc me voter_pubkey va signers clock (feature_set env) tc)
      | AuthorizeWithSeed args \<Rightarrow>
          and_then (faulty (check_number_of_instruction_accounts ic 3)) (\<lambda>_.
          process_authorize_with_seed_instruction bc sha256 env ic me (wsa_new_authority args)
            (wsa_authorization_type args) (wsa_current_authority_derived_key_owner args)
            (wsa_current_authority_derived_key_seed args) tc)
      | AuthorizeCheckedWithSeed args \<Rightarrow>
          and_then (faulty (check_number_of_instruction_accounts ic 4)) (\<lambda>_.
          and_then (faulty (instruction_account_key ic tc 3)) (\<lambda>new_authority.
          and_then (faulty (is_instruction_account_signer ic 3)) (\<lambda>signer.
          if \<not> signer then Inl (Fault MissingRequiredSignature)
          else
            process_authorize_with_seed_instruction bc sha256 env ic me new_authority
              (cwsa_authorization_type args) (cwsa_current_authority_derived_key_owner args)
              (cwsa_current_authority_derived_key_seed args) tc)))
      | UpdateValidatorIdentity \<Rightarrow>
          and_then (faulty (check_number_of_instruction_accounts ic 2)) (\<lambda>_.
          and_then (faulty (instruction_account_key ic tc 1)) (\<lambda>node.
          update_validator_identity bc me node signers tc))
      | UpdateCommission c \<Rightarrow>
          and_then
            (if is_active (feature_set env) commission_updates_only_allowed_in_first_half_of_epoch then
               and_then (faulty (get_epoch_schedule (sysvar_cache env))) (\<lambda>epoch_schedule.
               and_then (faulty (get_clock (sysvar_cache env))) (\<lambda>clock.
               if \<not> is_commission_update_allowed (clock_slot clock) epoch_schedule
               then Inl (Fault (vote_error CommissionUpdateTooLate)) else Inr ()))
             else Inr ())
            (\<lambda>_. update_commission bc me c signers tc)
      | VoteInstr v \<Rightarrow> vote v
      | VoteSwitch v _ \<Rightarrow> vote v
      | UpdateVoteState u \<Rightarrow> if direct then update u else Inl (Fault InvalidInstructionData)
      | UpdateVoteStateSwitch u _ \<Rightarrow> if direct then update u else Inl (Fault InvalidInstructionData)
      | CompactUpdateVoteState u \<Rightarrow>
          if direct \<and> compact then update u else Inl (Fault InvalidInstructionData)
      | CompactUpdateVoteStateSwitch u _ \<Rightarrow>
          if direct \<and> compact then update u else Inl (Fault InvalidInstructionData)
      | AuthorizeChecked va \<Rightarrow>
          if is_active (feature_set env) vote_stake_checked_instructions then
            and_then (faulty (check_number_of_instruction_accounts ic 4)) (\<lambda>_.
            and_then (faulty (instruction_account_key ic tc 3)) (\<lambda>voter_pubkey.
            and_then (faulty (is_instruction_account_signer ic 3)) (\<lambda>signer.
            if \<not> signer then Inl (Fault MissingRequiredSignature)
            else
              and_then (faulty (sysvar_clock env tc ic 1)) (\<lambda>clock.
              authorize bc me voter_pubkey va signers clock (feature_set env) tc))))
          else Inl (Fault InvalidInstructionData)
      | Withdraw _ \<Rightarrow> Inr tc)"

text \<open>
  \<open>Withdraw\<close> ends the borrow of the vote account first and borrows it again; every other arm
  keeps it to the end.
\<close>

definition process_withdraw_instruction ::
    "VoteStateVersions bincode \<Rightarrow> InvokeEnv \<Rightarrow> u64 \<Rightarrow> pubkey set \<Rightarrow> InstructionContext
       \<Rightarrow> BorrowedAccount \<Rightarrow> TransactionContext \<Rightarrow> InstructionError + TransactionContext" where
  "process_withdraw_instruction bc env l signers ic me tc =
     and_then (check_number_of_instruction_accounts ic 2) (\<lambda>_.
     and_then (get_rent (sysvar_cache env)) (\<lambda>rent_sysvar.
     and_then
       (if is_active (feature_set env) reject_vote_account_close_unless_zero_credit_epoch
        then and_then (get_clock (sysvar_cache env)) (\<lambda>c. Inr (Some c)) else Inr None)
       (\<lambda>clock_if_feature_active.
     withdraw bc (drop_account me tc) ic 0 l 1 signers rent_sysvar clock_if_feature_active)))"

definition vote_process_instruction ::
    "(bytes \<Rightarrow> VoteInstruction option) \<Rightarrow> VoteStateVersions bincode \<Rightarrow> (bytes \<Rightarrow> hash) \<Rightarrow> InvokeEnv
       \<Rightarrow> TransactionContext \<Rightarrow> vote_result" where
  "vote_process_instruction decode bc sha256 env tc =
     and_then (faulty (get_current_instruction_context tc)) (\<lambda>ic.
     and_then (faulty (try_borrow_instruction_account ic tc 0)) (\<lambda>(me, tc).
     if get_owner me tc \<noteq> vote_program_id then Inl (Fault InvalidAccountOwner)
     else
       and_then (faulty (get_signers ic tc)) (\<lambda>signers.
       and_then (faulty (limited_deserialize decode (instruction_data ic))) (\<lambda>instruction.
       case instruction of
         Withdraw l \<Rightarrow> faulty (process_withdraw_instruction bc env l signers ic me tc)
       | _ \<Rightarrow>
           and_then (process_vote_instruction bc sha256 env instruction signers ic me tc)
             (\<lambda>tc. Inr (drop_account me tc))))))"

end
