(* ===== verification/VoteContract.thy ===== *)
theory VoteContract
  imports VoteProgram VoteProperties
begin

text \<open>
  The vote program keeps the contract of a builtin program, changes a vote account only with the
  authority of its state, and keeps the state well formed.
\<close>

section \<open>Every handler saves a vote state\<close>

definition saves :: "VoteStateVersions bincode \<Rightarrow> BorrowedAccount \<Rightarrow> TransactionContext \<Rightarrow> TransactionContext \<Rightarrow> VoteState \<Rightarrow> bool" where
  "saves bc ba tc tc' s \<longleftrightarrow> set_state bc ba (VoteState_Current s) tc = Inr tc'"

lemma save_vote_state_Inr: "save_vote_state bc ba s tc = Inr tc' \<longleftrightarrow> saves bc ba tc tc' s"
  by (simp add: save_vote_state_def saves_def VoteStateVersions_new_current_def faulty_eq_Inr_iff)

lemma saves_neutral:
  "saves bc ba tc tc' s \<Longrightarrow> instruction_ba ic ba \<Longrightarrow> in_range ba tc \<Longrightarrow> neutral_run ic tc tc'"
  by (simp add: saves_def) (rule state_write.neutral)

lemma lift_vote_error_Inr [result_simps]: "lift_vote_error m = Inr a \<longleftrightarrow> m = Inr a"
  by (simp add: lift_vote_error_def map_err_eq_Inr_iff)

lemma verify_authorized_signer_Inr [result_simps]: "verify_authorized_signer k S = Inr u \<longleftrightarrow> k \<in> S"
  by (simp add: verify_authorized_signer_def)

text \<open>
  The states that a handler may save: what the instruction does to the vote state, with the set of
  keys that count as signers.
\<close>

inductive vote_step ::
    "pubkey set \<Rightarrow> Clock option \<Rightarrow> SlotHashes option \<Rightarrow> FeatureSet \<Rightarrow> VoteStateVersions \<Rightarrow> VoteState \<Rightarrow> bool"
  for S clock sh fs where
  step_init: "\<lbrakk>is_uninitialized v; vi_node_pubkey vi \<in> S\<rbrakk>
     \<Longrightarrow> vote_step S clock sh fs v (VoteState_new vi c)"
| step_authorize: "\<lbrakk>clock = Some c; authorized_state (convert_to_current v) k va S c fs = Inr s'\<rbrakk>
     \<Longrightarrow> vote_step S clock sh fs v s'"
| step_identity: "\<lbrakk>authorized_withdrawer (convert_to_current v) \<in> S; node \<in> S\<rbrakk>
     \<Longrightarrow> vote_step S clock sh fs v ((convert_to_current v)\<lparr>node_pubkey := node\<rparr>)"
| step_commission: "authorized_withdrawer (convert_to_current v) \<in> S
     \<Longrightarrow> vote_step S clock sh fs v ((convert_to_current v)\<lparr>commission := n\<rparr>)"
| step_vote: "\<lbrakk>clock = Some c; sh = Some hs; \<not> is_uninitialized v;
      get_and_update_authorized_voter (convert_to_current v) (clock_epoch c) = Inr (k, s1); k \<in> S;
      process_vote s1 vote hs (clock_epoch c) (Some fs) = Inr s2;
      s' = s2 \<or> (\<exists>x ts. process_timestamp s2 x ts = Inr s')\<rbrakk>
     \<Longrightarrow> vote_step S clock sh fs v s'"
| step_update: "\<lbrakk>clock = Some c; sh = Some hs; \<not> is_uninitialized v;
      get_and_update_authorized_voter (convert_to_current v) (clock_epoch c) = Inr (k, s1); k \<in> S;
      do_process_vote_state_update s1 hs (clock_epoch c) u (Some fs) = Inr s'\<rbrakk>
     \<Longrightarrow> vote_step S clock sh fs v s'"

lemma sysvar_clock_Inr: "sysvar_clock env tc ic i = Inr c \<Longrightarrow> sc_clock (sysvar_cache env) = Some c"
  by (auto simp: sysvar_clock_def get_clock_def result_simps)

lemma sysvar_slot_hashes_Inr:
  "sysvar_slot_hashes env tc ic i = Inr h \<Longrightarrow> sc_slot_hashes (sysvar_cache env) = Some h"
  by (auto simp: sysvar_slot_hashes_def get_slot_hashes_def result_simps)

text \<open>The keys that count as signers: those of the instruction and the key derived with a seed.\<close>

definition vote_signers :: "(bytes \<Rightarrow> hash) \<Rightarrow> pubkey set \<Rightarrow> pubkey set" where
  "vote_signers sha256 signers =
     signers \<union> {k. \<exists>b \<in> signers. \<exists>seed ow. create_with_seed sha256 b seed ow = Inr k}"

definition saves_step where
  "saves_step bc S env ba tc tc' \<longleftrightarrow>
     (\<exists>v s'. bc_deserialize bc (get_data ba tc) = Some v \<and> saves bc ba tc tc' s' \<and>
        vote_step S (sc_clock (sysvar_cache env)) (sc_slot_hashes (sysvar_cache env)) (feature_set env) v s')"

lemma get_state_Inr: "get_state bc ba tc = Inr v \<longleftrightarrow> bc_deserialize bc (get_data ba tc) = Some v"
  by (simp add: get_state_def result_simps)

lemma authorize_steps:
  assumes "authorize bc ba k va S c (feature_set env) tc = Inr tc'"
    and "sc_clock (sysvar_cache env) = Some c"
  shows "saves_step bc S env ba tc tc'"
  using assms step_authorize unfolding saves_step_def authorize_def
  by (fastforce simp: result_simps get_state_Inr save_vote_state_Inr)

lemma vote_steps:
  assumes "process_vote_with_account bc ba hs c vote S (feature_set env) tc = Inr tc'"
    and "sc_clock (sysvar_cache env) = Some c" and "sc_slot_hashes (sysvar_cache env) = Some hs"
  shows "saves_step bc S env ba tc tc'"
proof -
  from assms(1) obtain v k s1 s2 s' where *: "bc_deserialize bc (get_data ba tc) = Some v"
    "\<not> is_uninitialized v" "get_and_update_authorized_voter (convert_to_current v) (clock_epoch c) = Inr (k, s1)"
    "k \<in> S" "process_vote s1 vote hs (clock_epoch c) (Some (feature_set env)) = Inr s2"
    "s' = s2 \<or> (\<exists>x ts. process_timestamp s2 x ts = Inr s')" "saves bc ba tc tc' s'"
    by (simp add: process_vote_with_account_def verify_and_get_vote_state_def result_simps get_state_Inr
        save_vote_state_Inr split: if_splits option.splits) blast+
  have "vote_step S (Some c) (Some hs) (feature_set env) v s'"
    by (rule step_vote [OF refl refl *(2-6)])
  then show ?thesis using * assms(2,3) by (auto simp: saves_step_def)
qed

lemma update_steps:
  assumes "process_vote_state_update bc ba hs c u S (feature_set env) tc = Inr tc'"
    and "sc_clock (sysvar_cache env) = Some c" and "sc_slot_hashes (sysvar_cache env) = Some hs"
  shows "saves_step bc S env ba tc tc'"
proof -
  from assms(1) obtain v k s1 s' where *: "bc_deserialize bc (get_data ba tc) = Some v"
    "\<not> is_uninitialized v" "get_and_update_authorized_voter (convert_to_current v) (clock_epoch c) = Inr (k, s1)"
    "k \<in> S" "do_process_vote_state_update s1 hs (clock_epoch c) u (Some (feature_set env)) = Inr s'"
    "saves bc ba tc tc' s'"
    by (simp add: process_vote_state_update_def verify_and_get_vote_state_def result_simps get_state_Inr
        save_vote_state_Inr split: if_splits option.splits) blast+
  have "vote_step S (Some c) (Some hs) (feature_set env) v s'"
    by (rule step_update [OF refl refl *(2-5)])
  then show ?thesis using * assms(2,3) by (auto simp: saves_step_def)
qed

text \<open>Every arm but \<open>Withdraw\<close> saves the result of such a step, with some of these keys.\<close>

lemma seed_steps:
  assumes "process_authorize_with_seed_instruction bc sha256 env ic ba k va ow seed tc = Inr tc'"
    and "get_signers ic tc = Inr signers"
  shows "\<exists>S \<subseteq> vote_signers sha256 signers. saves_step bc S env ba tc tc'"
proof -
  from assms(1) obtain c signer S where c: "sc_clock (sysvar_cache env) = Some c"
    and sg: "is_instruction_account_signer ic 2 = Inr signer"
    and S: "(if signer then
             and_then (faulty (instruction_account_key ic tc 2)) (\<lambda>base_pubkey.
             and_then (faulty (map_err pubkey_error (create_with_seed sha256 base_pubkey seed ow)))
               (\<lambda>key. Inr {key}))
           else Inr {}) = Inr S"
    and run: "authorize bc ba k va S c (feature_set env) tc = Inr tc'"
    by (auto simp: process_authorize_with_seed_instruction_def result_simps faulty_eq_Inr_iff
        dest!: sysvar_clock_Inr split: if_splits)
  have "S \<subseteq> vote_signers sha256 signers"
  proof (cases signer)
    case True
    with S obtain b j key where key: "create_with_seed sha256 b seed ow = Inr key" "S = {key}"
      and b: "get_index_of_instruction_account_in_transaction ic 2 = Inr j"
        "get_key_of_account_at_index tc j = Inr b"
      by (auto simp: instruction_account_key_def result_simps faulty_eq_Inr_iff)
    obtain ia where ia: "get (instruction_accounts ic) (unat (2 :: IndexOfAccount)) = Some ia" "ia_is_signer ia"
      "j = ia_index_in_transaction ia"
      using sg b(1) True by (auto simp: ic_access_defs result_simps)
    from get_signers_mem [OF assms(2) ia(1,2)] b(2) ia(3) have "b \<in> signers"
      by (auto simp: key_at_def get_key_of_account_at_index_def result_simps)
    then show ?thesis using key by (auto simp: vote_signers_def)
  qed (use S in auto)
  then show ?thesis using authorize_steps [OF run c] by blast
qed

lemma process_vote_instruction_steps:
  assumes "process_vote_instruction bc sha256 env instr signers ic ba tc = Inr tc'"
    and "get_signers ic tc = Inr signers" and "\<And>l. instr \<noteq> Withdraw l"
  shows "\<exists>S \<subseteq> vote_signers sha256 signers. saves_step bc S env ba tc tc'"
proof -
  have sub: "signers \<subseteq> vote_signers sha256 signers" by (auto simp: vote_signers_def)
  have "saves_step bc signers env ba tc tc' \<or>
      (\<exists>k va ow seed. process_authorize_with_seed_instruction bc sha256 env ic ba k va ow seed tc = Inr tc')"
  proof (cases instr)
    case (InitializeAccount vi)
    then show ?thesis using assms(1)
      by (auto simp: process_vote_instruction_def initialize_account_def result_simps faulty_eq_Inr_iff
          get_state_Inr save_vote_state_Inr saves_step_def intro: step_init split: if_splits)
  next
    case UpdateValidatorIdentity
    then show ?thesis using assms(1)
      by (auto simp: process_vote_instruction_def update_validator_identity_def result_simps
          faulty_eq_Inr_iff Let_def
          get_state_Inr save_vote_state_Inr saves_step_def intro: step_identity split: if_splits)
  next
    case (UpdateCommission c)
    then show ?thesis using assms(1)
      by (auto simp: process_vote_instruction_def update_commission_def result_simps
          faulty_eq_Inr_iff Let_def
          get_state_Inr save_vote_state_Inr saves_step_def intro: step_commission split: if_splits)
  next
    case (Authorize k va)
    then show ?thesis using assms(1)
      by (auto simp: process_vote_instruction_def result_simps faulty_eq_Inr_iff split: if_splits
          intro!: disjI1 elim!: authorize_steps dest!: sysvar_clock_Inr)
  next
    case (AuthorizeChecked va)
    then show ?thesis using assms(1)
      by (auto simp: process_vote_instruction_def result_simps faulty_eq_Inr_iff split: if_splits
          intro!: disjI1 elim!: authorize_steps dest!: sysvar_clock_Inr)
  next
    case (VoteInstr v)
    then show ?thesis using assms(1)
      by (auto simp: process_vote_instruction_def result_simps faulty_eq_Inr_iff split: if_splits
          intro!: disjI1 elim!: vote_steps dest!: sysvar_clock_Inr sysvar_slot_hashes_Inr)
  next
    case (VoteSwitch v h)
    then show ?thesis using assms(1)
      by (auto simp: process_vote_instruction_def result_simps faulty_eq_Inr_iff split: if_splits
          intro!: disjI1 elim!: vote_steps dest!: sysvar_clock_Inr sysvar_slot_hashes_Inr)
  next
    case (UpdateVoteState u)
    then show ?thesis using assms(1)
      by (auto simp: process_vote_instruction_def result_simps faulty_eq_Inr_iff split: if_splits
          simp: get_clock_def get_slot_hashes_def intro!: disjI1 elim!: update_steps)
  next
    case (UpdateVoteStateSwitch u h)
    then show ?thesis using assms(1)
      by (auto simp: process_vote_instruction_def result_simps faulty_eq_Inr_iff split: if_splits
          simp: get_clock_def get_slot_hashes_def intro!: disjI1 elim!: update_steps)
  next
    case (CompactUpdateVoteState u)
    then show ?thesis using assms(1)
      by (auto simp: process_vote_instruction_def result_simps faulty_eq_Inr_iff split: if_splits
          simp: get_clock_def get_slot_hashes_def intro!: disjI1 elim!: update_steps)
  next
    case (CompactUpdateVoteStateSwitch u h)
    then show ?thesis using assms(1)
      by (auto simp: process_vote_instruction_def result_simps faulty_eq_Inr_iff split: if_splits
          simp: get_clock_def get_slot_hashes_def intro!: disjI1 elim!: update_steps)
  next
    case (AuthorizeWithSeed args)
    then show ?thesis using assms(1)
      by (auto simp: process_vote_instruction_def result_simps faulty_eq_Inr_iff split: if_splits
          intro!: disjI2 exI)
  next
    case (AuthorizeCheckedWithSeed args)
    then show ?thesis using assms(1)
      by (auto simp: process_vote_instruction_def result_simps faulty_eq_Inr_iff split: if_splits
          intro!: disjI2 exI)
  qed (use assms(3) in simp)
  then show ?thesis
    by (elim disjE exE) (use sub in auto, erule seed_steps [OF _ assms(2)])
qed

section \<open>The contract of a builtin program\<close>

lemma withdraw_checks_neutral:
  "\<lbrakk>withdraw_checks bc l S rent clock ba tc = Inr tc'; instruction_ba ic ba; in_range ba tc\<rbrakk>
    \<Longrightarrow> neutral_run ic tc tc'"
  by (auto simp: withdraw_checks_def Let_def result_simps split: if_splits intro: state_write.neutral)

lemma withdraw_neutral:
  assumes "withdraw bc tc ic i l j S rent clock = Inr tc'"
  shows "neutral_run ic tc tc'"
proof -
  from assms obtain tc1 where debit: "with_instruction_account ic tc i (\<lambda>ba tc.
        and_then (withdraw_checks bc l S rent clock ba tc) (\<lambda>tc. checked_sub_lamports ba l tc)) = Inr tc1"
    and credit: "with_instruction_account ic tc1 j (\<lambda>to tc. checked_add_lamports to l tc) = Inr tc'"
    by (auto simp: withdraw_def result_simps)
  from debit credit show ?thesis
    by (rule debit_credit_neutral) (auto simp: result_simps dest: withdraw_checks_neutral)
qed

lemma drop_borrowed:
  assumes "try_borrow_instruction_account ic tc i = Inr (ba, tc1)"
  shows "drop_account ba tc1 = tc"
proof -
  note b = try_borrow_instruction_account_Inr [OF assms]
  have "(ba_cell ba tc)\<lparr>cell_borrowed := False\<rparr> = ba_cell ba tc" using b(3) by simp
  then show ?thesis
    using b(2,4) by (simp add: drop_account_def set_cell_def ba_cell_def in_range_def)
qed

text \<open>The two ways a vote instruction succeeds.\<close>

lemma vote_process_Inr:
  assumes "vote_process_instruction decode bc sha256 env tc = Inr tc'"
  obtains (save) ic me tc1 signers tc2 S where
      "get_current_instruction_context tc = Inr ic"
      "try_borrow_instruction_account ic tc 0 = Inr (me, tc1)"
      "get_owner me tc1 = vote_program_id"
      "get_signers ic tc1 = Inr signers"
      "S \<subseteq> vote_signers sha256 signers" "saves_step bc S env me tc1 tc2" "tc' = drop_account me tc2"
  | (move) ic me tc1 signers l rent clock where
      "get_current_instruction_context tc = Inr ic"
      "try_borrow_instruction_account ic tc 0 = Inr (me, tc1)"
      "get_owner me tc1 = vote_program_id"
      "get_signers ic tc1 = Inr signers"
      "sc_rent (sysvar_cache env) = Some rent"
      "withdraw bc tc ic 0 l 1 signers rent clock = Inr tc'"
proof -
  from assms obtain ic me tc1 signers instr where ic: "get_current_instruction_context tc = Inr ic"
    and b: "try_borrow_instruction_account ic tc 0 = Inr (me, tc1)"
    and own: "get_owner me tc1 = vote_program_id"
    and sg: "get_signers ic tc1 = Inr signers"
    and run: "(case instr of Withdraw l \<Rightarrow> faulty (process_withdraw_instruction bc env l signers ic me tc1)
       | _ \<Rightarrow> and_then (process_vote_instruction bc sha256 env instr signers ic me tc1)
               (\<lambda>tc. Inr (drop_account me tc))) = Inr tc'"
    by (auto simp: vote_process_instruction_def result_simps faulty_eq_Inr_iff split: if_splits)
  show ?thesis
  proof (cases "\<exists>l. instr = Withdraw l")
    case True
    then obtain l where l: "instr = Withdraw l" by blast
    obtain rent clock where "sc_rent (sysvar_cache env) = Some rent"
      and "withdraw bc tc ic 0 l 1 signers rent clock = Inr tc'"
      using run unfolding l
      by (auto simp: process_withdraw_instruction_def result_simps faulty_eq_Inr_iff get_rent_def
          drop_borrowed [OF b])
    then show ?thesis by (rule move [OF ic b own sg])
  next
    case False
    then obtain tc2 where r: "process_vote_instruction bc sha256 env instr signers ic me tc1 = Inr tc2"
      and tc': "tc' = drop_account me tc2"
      using run by (auto simp: result_simps split: VoteInstruction.splits)
    from process_vote_instruction_steps [OF r sg] False
    obtain S where "S \<subseteq> vote_signers sha256 signers" "saves_step bc S env me tc1 tc2" by blast
    then show ?thesis using tc' by (rule save [OF ic b own sg])
  qed
qed

interpretation vote_program: builtin_program "vote_process_instruction decode bc sha256 env"
  for decode bc sha256 env
proof
  fix tc tc'
  assume "vote_process_instruction decode bc sha256 env tc = Inr tc'"
  then show "\<exists>ic. get_current_instruction_context tc = Inr ic \<and> neutral_run ic tc tc'"
  proof (cases rule: vote_process_Inr)
    case (save ic me tc1 signers tc2 S)
    let ?body = "\<lambda>ba t. if ba = me \<and> t = tc1 then Inr tc2 else Inl GenericError"
    have "with_instruction_account ic tc 0 ?body = Inr tc'"
      using save by (simp add: with_instruction_account_def)
    then have "neutral_run ic tc tc'"
      by (rule with_account_neutral) (use save(6) in \<open>auto simp: saves_step_def intro: saves_neutral split: if_splits\<close>)
    then show ?thesis using save(1) by blast
  next
    case (move ic me tc1 signers l rent clock)
    then show ?thesis using withdraw_neutral by blast
  qed
qed

end
