(* ===== verification/VoteSafety.thy ===== *)
theory VoteSafety
  imports VoteContract
begin

text \<open>
  What the vote program guarantees to the owners of vote accounts: the state stays well formed,
  every change has the authority of the state, and a withdrawal leaves the account funded or
  closed.
\<close>

section \<open>Well-formed vote states\<close>

definition vote_state_ok :: "VoteState \<Rightarrow> bool" where
  "vote_state_ok s \<longleftrightarrow>
     tower_wf s \<and> credits_ok (epoch_credits s) \<and> ascending (authorized_voters s)"

lemma vote_state_ok_default [simp]: "vote_state_ok VoteState_default"
  unfolding vote_state_ok_def
  by (intro conjI tower_wf_default) (simp_all add: VoteState_default_def credits_ok_def ascending_def)

lemma vote_state_ok_frame [simp]:
  "vote_state_ok (s\<lparr>node_pubkey := k\<rparr>) = vote_state_ok s"
  "vote_state_ok (s\<lparr>authorized_withdrawer := k\<rparr>) = vote_state_ok s"
  "vote_state_ok (s\<lparr>commission := c\<rparr>) = vote_state_ok s"
  "vote_state_ok (s\<lparr>last_timestamp := t\<rparr>) = vote_state_ok s"
  "vote_state_ok (s\<lparr>prior_voters := p\<rparr>) = vote_state_ok s"
  by (simp_all add: vote_state_ok_def tower_wf_def)

lemma vote_state_ok_voters:
  "vote_state_ok s \<Longrightarrow> ascending av \<Longrightarrow> vote_state_ok (s\<lparr>authorized_voters := av\<rparr>)"
  by (simp add: vote_state_ok_def tower_wf_def)

lemma vote_state_ok_new: "vote_state_ok (VoteState_new vi c)"
proof -
  have "ascending (AuthorizedVoters_new e k)" for e k by (simp add: AuthorizedVoters_new_def ascending_def)
  then show ?thesis
    using vote_state_ok_default unfolding VoteState_new_def vote_state_ok_def by (simp add: tower_wf_def)
qed

lemma get_and_update_state_ok:
  assumes "get_and_update_authorized_voter s e = Inr (k, s')" and "vote_state_ok s"
  shows "vote_state_ok s'"
proof -
  have "ascending (authorized_voters s)" using assms(2) by (simp add: vote_state_ok_def)
  then obtain av where "s' = s\<lparr>authorized_voters := av\<rparr>" "ascending av"
    using get_and_update_Inr [OF assms(1)] by metis
  then show ?thesis using assms(2) by (simp add: vote_state_ok_voters)
qed

lemma set_new_voter_state_ok:
  assumes "set_new_authorized_voter s k e t vf = Inr s'" and "vote_state_ok s"
  shows "vote_state_ok s'"
proof -
  from assms(1) obtain v s1 p where g: "get_and_update_authorized_voter s e = Inr (v, s1)"
    and s': "s' = s1\<lparr>prior_voters := p, authorized_voters := btree_insert t k (authorized_voters s1)\<rparr>
             \<or> s' = s1\<lparr>authorized_voters := btree_insert t k (authorized_voters s1)\<rparr>"
    by (fastforce simp: set_new_authorized_voter_def result_simps faulty_eq_Inr_iff Let_def
        AuthorizedVoters_insert_def split: if_splits)
  have ok: "vote_state_ok s1" using get_and_update_state_ok [OF g assms(2)] .
  then have "ascending (btree_insert t k (authorized_voters s1))"
    by (simp add: vote_state_ok_def ascending_btree_insert)
  then show ?thesis using s' ok by (auto intro!: vote_state_ok_voters)
qed

lemma next_vote_slot_records:
  "authorized_voters (process_next_vote_slot s n e) = authorized_voters s \<and>
   (credits_ok (epoch_credits s) \<longrightarrow> credits_ok (epoch_credits (process_next_vote_slot s n e)))"
  using increment_credits_ok [of "pop_expired_votes s n\<lparr>votes := tl (votes (pop_expired_votes s n)),
      root_slot := Some (lk_slot (hd (votes (pop_expired_votes s n))))\<rparr>" e 1]
  by (simp add: process_next_vote_slot_def double_lockouts_def Let_def pop_expired_votes_def)

lemma process_slots_state_ok: "vote_state_ok s \<Longrightarrow> vote_state_ok (process_slots s slots e)"
proof -
  assume "vote_state_ok s"
  moreover have "authorized_voters (process_slots s slots e) = authorized_voters s \<and>
      (credits_ok (epoch_credits s) \<longrightarrow> credits_ok (epoch_credits (process_slots s slots e)))"
    unfolding process_slots_def by (induction slots arbitrary: s) (simp_all add: next_vote_slot_records)
  ultimately show ?thesis by (simp add: vote_state_ok_def process_slots_wf)
qed

lemma process_timestamp_state_ok:
  "process_timestamp s x ts = Inr s' \<Longrightarrow> vote_state_ok s \<Longrightarrow> vote_state_ok s'"
  by (auto simp: process_timestamp_def Let_def split: if_splits)

lemma new_vote_state_records:
  assumes "process_new_vote_state s new r ts e fs = Inr s'" and "credits_ok (epoch_credits s)"
  shows "authorized_voters s' = authorized_voters s \<and> credits_ok (epoch_credits s')"
  using assms increment_credits_ok [OF assms(2)]
  by (auto simp: process_new_vote_state_def process_timestamp_def result_simps faulty_eq_Inr_iff Let_def
      split: if_splits option.splits prod.splits)

lemma update_state_ok:
  assumes "do_process_vote_state_update s sh e u fs = Inr s'" and "vote_state_ok s"
  shows "vote_state_ok s'"
  using assms(1)
proof (rule do_process_Inr)
  fix u'
  assume new: "process_new_vote_state s (lockouts u') (update_root u') (update_timestamp u') e fs = Inr s'"
  have asc: "slots_ascending (votes s)"
    using assms(2) votes_ok_sorted by (simp add: vote_state_ok_def tower_wf_def)
  have "tower_wf s'" using new_vote_state_respects_lockouts [OF new asc] by (auto simp: tower_wf_def)
  then show ?thesis using new_vote_state_records [OF new] assms(2) by (simp add: vote_state_ok_def)
qed

lemma process_vote_state_ok:
  "process_vote s v sh e fs = Inr s' \<Longrightarrow> vote_state_ok s \<Longrightarrow> vote_state_ok s'"
  by (auto simp: process_vote_def Let_def result_simps split: if_splits intro: process_slots_state_ok)

lemma authorized_state_ok:
  "authorized_state s k va S c fs = Inr s' \<Longrightarrow> vote_state_ok s \<Longrightarrow> vote_state_ok s'"
  by (auto simp: authorized_state_def Let_def result_simps faulty_eq_Inr_iff
      split: VoteAuthorize.splits option.splits intro: set_new_voter_state_ok)

lemma vote_step_state_ok:
  assumes "vote_step S clock sh fs v s'" and "vote_state_ok (convert_to_current v)"
  shows "vote_state_ok s'"
  using assms
proof (induction rule: vote_step.induct)
  case (step_init v vi c)
  show ?case by (rule vote_state_ok_new)
next
  case (step_authorize c v k va s')
  then show ?case using authorized_state_ok by blast
next
  case (step_vote c hs v k s1 vote s2 s')
  then show ?case
    using get_and_update_state_ok process_vote_state_ok process_timestamp_state_ok by metis
next
  case (step_update c hs v k s1 u s')
  then show ?case using get_and_update_state_ok update_state_ok by metis
qed simp_all

section \<open>The accounts after a withdrawal\<close>

definition withdrawn ::
    "VoteStateVersions bincode \<Rightarrow> u64 \<Rightarrow> Rent \<Rightarrow> Clock option \<Rightarrow> VoteState \<Rightarrow> AccountSharedData \<Rightarrow> AccountSharedData \<Rightarrow> bool" where
  "withdrawn bc l rent clock s a a' \<longleftrightarrow>
     lamports a' = lamports a \<and> owner a' = owner a \<and> l \<le> lamports a \<and>
     (l = lamports a \<and> \<not> reject_active_close clock s \<and>
        bc_deserialize bc (data a') = Some (VoteState_Current VoteState_default) \<or>
      l \<noteq> lamports a \<and> a' = a \<and> minimum_balance rent (length (data a)) \<le> lamports a - l)"

lemma withdraw_checks_Inr:
  assumes "withdraw_checks bc l S rent clock ba tc = Inr tc'" and "in_range ba tc"
    and law: "\<And>v. bincode_law bc v"
  defines "j \<equiv> unat (ba_index_in_transaction ba)"
  obtains v where "bc_deserialize bc (data (account_values tc ! j)) = Some v"
    "authorized_withdrawer (convert_to_current v) \<in> S"
    "withdrawn bc l rent clock (convert_to_current v) (account_values tc ! j) (account_values tc' ! j)"
    "\<And>k. k \<noteq> j \<Longrightarrow> account_values tc' ! k = account_values tc ! k" "in_range ba tc'"
    "length (accounts tc') = length (accounts tc)"
proof -
  have a: "ba_account ba tc = account_values tc ! j" using ba_account_values [OF assms(2)] by (simp add: j_def)
  from assms(1) obtain v where v: "bc_deserialize bc (get_data ba tc) = Some v"
    "authorized_withdrawer (convert_to_current v) \<in> S" and le: "l \<le> get_lamports ba tc"
    and c: "get_lamports ba tc - l = 0 \<and> \<not> reject_active_close clock (convert_to_current v) \<and>
        set_state bc ba (VoteState_Current VoteState_default) tc = Inr tc' \<or>
      get_lamports ba tc - l \<noteq> 0 \<and> tc' = tc \<and>
        minimum_balance rent (length (get_data ba tc)) \<le> get_lamports ba tc - l"
    by (auto simp: withdraw_checks_def Let_def result_simps get_state_Inr checked_sub_def not_less
        VoteStateVersions_new_current_def split: if_splits)
  from c show ?thesis
  proof (elim disjE conjE)
    assume "get_lamports ba tc - l = 0" "\<not> reject_active_close clock (convert_to_current v)"
      and st: "set_state bc ba (VoteState_Current VoteState_default) tc = Inr tc'"
    note rb = set_state_reads_back [OF st law assms(2), folded j_def]
    have "same_frame tc tc'" using st
      by (auto dest!: state_write.writes allowed_write_same_frame)
    then show ?thesis
      using that [OF v [unfolded get_data_def a]] rb assms(2) le a \<open>_ = 0\<close> \<open>\<not> reject_active_close _ _\<close>
      by (simp add: withdrawn_def get_lamports_def in_range_def same_frame_def)
  next
    assume "get_lamports ba tc - l \<noteq> 0" "tc' = tc"
      "minimum_balance rent (length (get_data ba tc)) \<le> get_lamports ba tc - l"
    then show ?thesis
      using that [OF v [unfolded get_data_def a]] assms(2) le a
      by (auto simp: withdrawn_def get_lamports_def get_data_def)
  qed
qed

lemma withdraw_Inr:
  assumes "withdraw bc tc ic i l j S rent clock = Inr tc'" and law: "\<And>v. bincode_law bc v"
  obtains f t v vs where "get (instruction_accounts ic) (unat i) = Some f"
    "get (instruction_accounts ic) (unat j) = Some t"
    "unat (ia_index_in_transaction f) < length (accounts tc)"
    "bc_deserialize bc (data (account_values tc ! unat (ia_index_in_transaction f))) = Some v"
    "authorized_withdrawer (convert_to_current v) \<in> S"
    "withdrawn bc l rent clock (convert_to_current v)
       (account_values tc ! unat (ia_index_in_transaction f)) (vs ! unat (ia_index_in_transaction f))"
    "\<And>k. k \<noteq> unat (ia_index_in_transaction f) \<Longrightarrow> vs ! k = account_values tc ! k"
    "length vs = length (account_values tc)"
    "account_values tc' = credit (unat (ia_index_in_transaction t)) l
       (debit (unat (ia_index_in_transaction f)) l vs)"
    "unat (ia_index_in_transaction t) < length (accounts tc)"
    "unat (lamports (debit (unat (ia_index_in_transaction f)) l vs ! unat (ia_index_in_transaction t)))
       + unat l < 2 ^ 64"
proof -
  let ?body = "\<lambda>ba tc. and_then (withdraw_checks bc l S rent clock ba tc) (\<lambda>tc. checked_sub_lamports ba l tc)"
  from assms(1) obtain tc1 where debit: "with_instruction_account ic tc i ?body = Inr tc1"
    and credit: "with_instruction_account ic tc1 j (\<lambda>to tc. checked_add_lamports to l tc) = Inr tc'"
    by (auto simp: withdraw_def result_simps)
  from debit obtain ba t1 t2 f where f: "get (instruction_accounts ic) (unat i) = Some f"
    "ba_index_in_transaction ba = ia_index_in_transaction f"
    and r: "in_range ba tc" "in_range ba t1" and v: "account_values t1 = account_values tc"
    and body: "?body ba t1 = Inr t2" and v1: "account_values tc1 = account_values t2"
    by (rule with_account_Inr)
  from body obtain t3 where w: "withdraw_checks bc l S rent clock ba t1 = Inr t3"
    and sub: "checked_sub_lamports ba l t3 = Inr t2" by (auto simp: result_simps)
  from w r(2) law obtain st where st: "bc_deserialize bc (data (account_values t1 ! unat (ba_index_in_transaction ba))) = Some st"
    "authorized_withdrawer (convert_to_current st) \<in> S"
    "withdrawn bc l rent clock (convert_to_current st) (account_values t1 ! unat (ba_index_in_transaction ba))
       (account_values t3 ! unat (ba_index_in_transaction ba))"
    "\<And>k. k \<noteq> unat (ba_index_in_transaction ba) \<Longrightarrow> account_values t3 ! k = account_values t1 ! k"
    "in_range ba t3" "length (accounts t3) = length (accounts t1)"
    by (rule withdraw_checks_Inr) blast
  have d: "account_values tc1 = debit (unat (ia_index_in_transaction f)) l (account_values t3)"
    using checked_sub_lamports_values [OF sub st(5)] v1 f(2) by simp
  from credit obtain t where t: "get (instruction_accounts ic) (unat j) = Some t"
    by (rule with_account_Inr)
  have len: "length (accounts tc1) = length (accounts tc)" "length (accounts t3) = length (accounts tc)"
    using arg_cong [OF d, of length] arg_cong [OF v, of length] st(6) by simp_all
  show ?thesis
    using that [OF f(1) t _ st(1,2) [unfolded f(2) v], of "account_values t3"] st f(2) v r(1) len
      credit_block [OF credit t] d by (simp add: in_range_def)
qed

section \<open>The accounts after an instruction\<close>

text \<open>
  What an instruction may do to one account: nothing but adding lamports, or, on an account of the
  program whose data is a vote state, save the result of a step or withdraw.
\<close>

definition vote_saved where
  "vote_saved bc sha256 env signers v a a' \<longleftrightarrow> lamports a' = lamports a \<and>
     (\<exists>S s'. S \<subseteq> vote_signers sha256 signers \<and>
        vote_step S (sc_clock (sysvar_cache env)) (sc_slot_hashes (sysvar_cache env)) (feature_set env) v s' \<and>
        bc_deserialize bc (data a') = Some (VoteState_Current s'))"

definition vote_account_change where
  "vote_account_change bc sha256 env signers a a' \<longleftrightarrow> owner a' = owner a \<and>
     (data a' = data a \<and> lamports a \<le> lamports a' \<or>
      owner a = vote_program_id \<and>
      (\<exists>v. bc_deserialize bc (data a) = Some v \<and>
         (vote_saved bc sha256 env signers v a a' \<or>
          authorized_withdrawer (convert_to_current v) \<in> signers \<and>
          (data a' = data a \<or>
           bc_deserialize bc (data a') = Some (VoteState_Current VoteState_default)))))"

lemma vote_account_change_refl: "vote_account_change bc sha256 env signers a a"
  by (simp add: vote_account_change_def)

lemma le_add_no_overflow: "unat a + unat b < 2 ^ 64 \<Longrightarrow> (a :: u64) \<le> a + b"
  by (simp add: word_le_nat_alt unat_add_lem [THEN iffD1])

lemma withdraw_account_change:
  assumes "withdraw bc tc ic i l j signers rent clock = Inr tc'" and law: "\<And>v. bincode_law bc v"
    and own: "\<And>f. get (instruction_accounts ic) (unat i) = Some f \<Longrightarrow>
       owner (account_values tc ! unat (ia_index_in_transaction f)) = vote_program_id"
    and n: "n < length (accounts tc)"
  shows "vote_account_change bc sha256 env signers (account_values tc ! n) (account_values tc' ! n)"
  using assms(1) law
proof (rule withdraw_Inr)
  fix f t :: InstructionAccount and v vs
  let ?f = "unat (ia_index_in_transaction f)" and ?t = "unat (ia_index_in_transaction t)"
  assume f: "get (instruction_accounts ic) (unat i) = Some f" and "?f < length (accounts tc)"
    and st: "bc_deserialize bc (data (account_values tc ! ?f)) = Some v"
      "authorized_withdrawer (convert_to_current v) \<in> signers"
      "withdrawn bc l rent clock (convert_to_current v) (account_values tc ! ?f) (vs ! ?f)"
    and other: "\<And>k. k \<noteq> ?f \<Longrightarrow> vs ! k = account_values tc ! k"
    and len: "length vs = length (account_values tc)"
    and fin: "account_values tc' = credit ?t l (debit ?f l vs)"
    and room: "unat (lamports (debit ?f l vs ! ?t)) + unat l < 2 ^ 64"
  have data: "data (account_values tc' ! n) = data (vs ! n)" "owner (account_values tc' ! n) = owner (vs ! n)"
    using n len by (simp_all add: fin nth_debit_credit)
  show ?thesis
  proof (cases "n = ?f")
    case True
    then show ?thesis
      using st own [OF f] data by (auto simp: vote_account_change_def withdrawn_def)
  next
    case False
    then have "lamports (vs ! n) \<le> lamports (account_values tc' ! n)"
      using room n len by (auto simp: fin nth_debit_credit intro: le_add_no_overflow)
    then show ?thesis using data other [OF False] by (simp add: vote_account_change_def)
  qed
qed

lemma vote_process_changes:
  assumes "vote_process_instruction decode bc sha256 env tc = Inr tc'" and law: "\<And>v. bincode_law bc v"
  obtains ic signers where "get_current_instruction_context tc = Inr ic" "get_signers ic tc = Inr signers"
    "\<And>n. n < length (accounts tc) \<Longrightarrow>
       vote_account_change bc sha256 env signers (account_values tc ! n) (account_values tc' ! n)"
  using assms(1)
proof (cases rule: vote_process_Inr)
  case (save ic me tc1 signers tc2 S)
  note b = try_borrow_instruction_account_Inr [OF save(2)]
  note v = try_borrow_values [OF save(2)]
  let ?n = "unat (ba_index_in_transaction me)"
  have a: "ba_account me tc1 = account_values tc ! ?n" using ba_account_values [OF b(5)] v by simp
  from save(6) obtain st s' where st: "bc_deserialize bc (get_data me tc1) = Some st" "saves bc me tc1 tc2 s'"
    "vote_step S (sc_clock (sysvar_cache env)) (sc_slot_hashes (sysvar_cache env)) (feature_set env) st s'"
    by (auto simp: saves_step_def)
  note rb = set_state_reads_back [OF st(2) [unfolded saves_def] law b(5), unfolded v]
  have "vote_account_change bc sha256 env signers (account_values tc ! n) (account_values tc' ! n)" for n
  proof (cases "n = ?n")
    case True
    then show ?thesis
      using st(1,3) rb save(3,5) a
      by (auto simp: vote_account_change_def vote_saved_def save(7) get_owner_def get_data_def)
  next
    case False
    then show ?thesis using rb(4) by (simp add: save(7) vote_account_change_refl)
  qed
  moreover have "get_signers ic tc = Inr signers"
    using save(4) get_signers_frame [OF program_step_frame [OF step_borrow [OF save(2)]]] by simp
  ultimately show ?thesis using that [OF save(1)] by blast
next
  case (move ic me tc1 signers l rent clock)
  have "owner (account_values tc ! unat (ia_index_in_transaction f)) = vote_program_id"
    if "get (instruction_accounts ic) (unat (0 :: IndexOfAccount)) = Some f" for f
  proof -
    from move(2) that have "ba_index_in_transaction me = ia_index_in_transaction f"
      by (auto simp: try_borrow_instruction_account_def try_borrow_account_def ic_access_defs
        result_simps Let_def split: if_splits)
    then show ?thesis
      using move(3) ba_account_values [OF try_borrow_instruction_account_Inr(5) [OF move(2)]] try_borrow_values [OF move(2)]
      by (simp add: get_owner_def)
  qed
  note ch = withdraw_account_change [OF move(6) law this]
  have "get_signers ic tc = Inr signers"
    using move(4) get_signers_frame [OF program_step_frame [OF step_borrow [OF move(2)]]] by simp
  then show ?thesis using that [OF move(1)] ch by blast
qed

section \<open>What the vote program guarantees\<close>

definition vote_accounts_ok :: "VoteStateVersions bincode \<Rightarrow> TransactionContext \<Rightarrow> bool" where
  "vote_accounts_ok bc tc \<longleftrightarrow>
     (\<forall>a \<in> set (account_values tc). owner a = vote_program_id \<longrightarrow>
        (\<forall>v. bc_deserialize bc (data a) = Some v \<longrightarrow> vote_state_ok (convert_to_current v)))"

text \<open>
  C8: Every vote state stays well formed.  If every account of the vote program holds a
  well-formed vote state (a tower whose lockouts nest, with decreasing confirmation counts and
  above the root; credits that never decrease and are chained from epoch to epoch; authorized
  voters in the order of their epochs), then so does every account after any vote instruction
  that succeeds.
\<close>

theorem vote_accounts_stay_ok:
  assumes "vote_process_instruction decode bc sha256 env tc = Inr tc'"
    and "\<And>v. bincode_law bc v" and "vote_accounts_ok bc tc"
  shows "vote_accounts_ok bc tc'"
  using assms(1,2)
proof (rule vote_process_changes)
  fix ic signers
  assume ch: "\<And>n. n < length (accounts tc) \<Longrightarrow>
      vote_account_change bc sha256 env signers (account_values tc ! n) (account_values tc' ! n)"
  have len: "length (accounts tc') = length (accounts tc)"
    using vote_program.keeps_frame [OF assms(1)] by (simp add: same_frame_def)
  have "vote_state_ok (convert_to_current v)"
    if n: "n < length (accounts tc)" and own: "owner (account_values tc' ! n) = vote_program_id"
      and v: "bc_deserialize bc (data (account_values tc' ! n)) = Some v" for n v
  proof -
    have old: "vote_state_ok (convert_to_current w)"
      if "owner (account_values tc ! n) = vote_program_id"
        "bc_deserialize bc (data (account_values tc ! n)) = Some w" for w
      using assms(3) n that by (auto simp: vote_accounts_ok_def)
    from ch [OF n] own v old show ?thesis
      by (auto simp: vote_account_change_def vote_saved_def dest: vote_step_state_ok)
  qed
  then show ?thesis using len by (auto simp: vote_accounts_ok_def in_set_conv_nth)
qed

text \<open>Who may have caused a step.\<close>

lemma get_and_update_get:
  "get_and_update_authorized_voter s e = Inr (k, s') \<Longrightarrow> get_authorized_voter s e = Some k"
  by (auto simp: get_and_update_authorized_voter_def get_and_cache_authorized_voter_for_epoch_def
      get_authorized_voter_def AuthorizedVoters_get_def result_simps faulty_eq_Inr_iff)

definition has_authority :: "pubkey set \<Rightarrow> Clock option \<Rightarrow> VoteState \<Rightarrow> bool" where
  "has_authority K clock s \<longleftrightarrow>
     authorized_withdrawer s \<in> K \<or>
     (\<exists>c k. clock = Some c \<and> get_authorized_voter s (clock_epoch c) = Some k \<and> k \<in> K)"

lemma set_new_voter_verified:
  "set_new_authorized_voter s k e t vf = Inr s' \<Longrightarrow> \<exists>v. get_authorized_voter s e = Some v \<and> vf v = Inr ()"
  by (auto simp: set_new_authorized_voter_def result_simps faulty_eq_Inr_iff dest!: get_and_update_get)

lemma is_ok_verify_authorized_signer: "is_ok (verify_authorized_signer k S) \<longleftrightarrow> k \<in> S"
  by (simp add: verify_authorized_signer_def is_ok_def)

lemma vote_step_authority:
  assumes "vote_step S clock sh fs v s'" and "\<not> is_uninitialized v"
  shows "has_authority S clock (convert_to_current v)"
  using assms
proof (cases rule: vote_step.cases)
  case (step_authorize c k va)
  then show ?thesis
    by (auto simp: authorized_state_def Let_def result_simps faulty_eq_Inr_iff has_authority_def
        is_ok_verify_authorized_signer dest!: set_new_voter_verified
        split: VoteAuthorize.splits option.splits if_splits)
qed (auto simp: has_authority_def dest: get_and_update_get)

lemma has_authority_mono: "has_authority S clock s \<Longrightarrow> S \<subseteq> K \<Longrightarrow> has_authority K clock s"
  by (auto simp: has_authority_def)

text \<open>
  C10: Only its authorities change a vote account.  When a vote instruction succeeds and an
  account with an initialized vote state has other data or fewer lamports afterwards, then the
  account belongs to the vote program and the withdraw authority or the voter authorized for the
  current epoch signed, directly or as the base of a key derived with a seed; when it has fewer
  lamports, the withdraw authority itself signed.
\<close>

theorem vote_change_authorised:
  assumes "vote_process_instruction decode bc sha256 env tc = Inr tc'"
    and law: "\<And>v. bincode_law bc v"
    and "get_current_instruction_context tc = Inr ic" and "get_signers ic tc = Inr signers"
    and n: "n < length (accounts tc)"
    and v: "bc_deserialize bc (data (account_values tc ! n)) = Some v" and init: "\<not> is_uninitialized v"
    and change: "data (account_values tc' ! n) \<noteq> data (account_values tc ! n) \<or>
       lamports (account_values tc' ! n) < lamports (account_values tc ! n)"
  shows "owner (account_values tc ! n) = vote_program_id \<and>
     has_authority (vote_signers sha256 signers) (sc_clock (sysvar_cache env)) (convert_to_current v) \<and>
     (lamports (account_values tc' ! n) < lamports (account_values tc ! n) \<longrightarrow>
        authorized_withdrawer (convert_to_current v) \<in> signers)"
  using assms(1) law
proof (rule vote_process_changes)
  fix ic' signers'
  assume "get_current_instruction_context tc = Inr ic'" "get_signers ic' tc = Inr signers'"
    and ch: "\<And>n. n < length (accounts tc) \<Longrightarrow>
      vote_account_change bc sha256 env signers' (account_values tc ! n) (account_values tc' ! n)"
  then have [simp]: "signers' = signers" using assms(3,4) by simp
  have direct: "has_authority (vote_signers sha256 signers) clock s"
    if "authorized_withdrawer s \<in> signers" for clock s
    using that by (auto simp: has_authority_def vote_signers_def)
  from ch [OF n] v change have own: "owner (account_values tc ! n) = vote_program_id"
    and "vote_saved bc sha256 env signers v (account_values tc ! n) (account_values tc' ! n) \<or>
       authorized_withdrawer (convert_to_current v) \<in> signers"
    by (auto simp: vote_account_change_def)
  then show ?thesis
    using vote_step_authority [OF _ init] has_authority_mono direct
    unfolding vote_saved_def by (metis order_less_irrefl)
qed

text \<open>
  C11: A withdrawal leaves a vote account funded or closed.  When \<open>withdraw\<close> moves lamports to
  another account, the withdraw authority signed, exactly the amount left the vote account, and
  either the account has no lamports left, its state is the empty one and it had no credits of
  this or the previous epoch (where the clock is checked), or it keeps its data and at least the
  rent-exempt minimum.
\<close>

theorem vote_withdraw_keeps_minimum:
  assumes "withdraw bc tc ic i l j signers rent clock = Inr tc'" and "\<And>v. bincode_law bc v"
    and f: "get (instruction_accounts ic) (unat i) = Some f"
    and t: "get (instruction_accounts ic) (unat j) = Some t"
    and ne: "ia_index_in_transaction f \<noteq> ia_index_in_transaction t"
  shows "let a = account_values tc ! unat (ia_index_in_transaction f);
             a' = account_values tc' ! unat (ia_index_in_transaction f) in
     \<exists>v. bc_deserialize bc (data a) = Some v \<and> authorized_withdrawer (convert_to_current v) \<in> signers \<and>
       unat (lamports a') + unat l = unat (lamports a) \<and>
       (lamports a' = 0 \<and> bc_deserialize bc (data a') = Some (VoteState_Current VoteState_default) \<and>
          \<not> reject_active_close clock (convert_to_current v) \<or>
        data a' = data a \<and> minimum_balance rent (length (data a)) \<le> lamports a')"
  using assms(1,2)
proof (rule withdraw_Inr)
  fix f' t' :: InstructionAccount and v vs
  let ?f = "unat (ia_index_in_transaction f)" and ?t = "unat (ia_index_in_transaction t)"
  have ft: "?f \<noteq> ?t" using ne by (auto dest: unsigned_word_eqI)
  assume *: "get (instruction_accounts ic) (unat i) = Some f'" "get (instruction_accounts ic) (unat j) = Some t'"
    "unat (ia_index_in_transaction f') < length (accounts tc)"
    "bc_deserialize bc (data (account_values tc ! unat (ia_index_in_transaction f'))) = Some v"
    "authorized_withdrawer (convert_to_current v) \<in> signers"
    "withdrawn bc l rent clock (convert_to_current v) (account_values tc ! unat (ia_index_in_transaction f'))
       (vs ! unat (ia_index_in_transaction f'))"
    "length vs = length (account_values tc)"
    "account_values tc' = credit (unat (ia_index_in_transaction t')) l (debit (unat (ia_index_in_transaction f')) l vs)"
  then have [simp]: "f' = f" "t' = t" using f t by simp_all
  let ?a = "account_values tc ! ?f" and ?a' = "account_values tc' ! ?f"
  have "?a' = (vs ! ?f)\<lparr>lamports := lamports (vs ! ?f) - l\<rparr>"
    using * ft by (simp add: nth_debit_credit)
  moreover have "unat (lamports ?a - l) + unat l = unat (lamports ?a)"
    using *(6) by (simp add: withdrawn_def unat_sub word_le_nat_alt)
  ultimately show ?thesis
    using * by (auto simp: Let_def withdrawn_def)
qed

text \<open>
  C12: The vote program keeps the rules of the runtime.  A vote instruction that succeeds neither
  creates nor destroys lamports and leaves borrowed exactly the accounts that were, with early
  verification on or off.  With early verification on, that is with a rent in the context, it leaves every account
  that is not writable in the instruction as it was, and what it did to any account would also
  pass \<open>PreAccount::verify\<close>: the checks made at each write are at least as strict as the late
  ones.  (With early verification off a program may write a read-only account and be rejected by
  the late verification afterwards.)
\<close>

theorem vote_keeps_runtime_rules:
  assumes "vote_process_instruction decode bc sha256 env tc = Inr tc'"
    and "get_current_instruction_context tc = Inr ic" and "accounts_fit ic"
    and "get_last_program_key ic tc = Inr pid"
  shows "total_lamports tc' = total_lamports tc \<and> borrow_flags tc' = borrow_flags tc \<and>
     (\<forall>rent n. tc_rent tc = Some rent \<and> n < length (accounts tc) \<longrightarrow>
        (\<not> writable_at ic n \<longrightarrow> account_values tc' ! n = account_values tc ! n) \<and>
        (length (data (account_values tc ! n)) \<le> unat MAX_PERMITTED_DATA_LENGTH \<longrightarrow>
           is_ok (verify (PreAccount_new key (account_values tc ! n)) pid (writable_at ic n) rent
             (account_values tc' ! n) timings outermost_call)))"
  using vote_program.conserves [OF assms(1)] vote_program.keeps_borrows [OF assms(1)]
    vote_program.readonly_untouched [OF assms(1-3)] vote_program.verified [OF assms(1-4)] by blast

section \<open>Concrete instructions\<close>

text \<open>
  A vote account with key 8 whose node and authorities are the key 7, which signs.  The codec
  knows the states that occur.
\<close>

definition sample_clock :: Clock where
  "sample_clock = \<lparr>clock_slot = 0, epoch_start_timestamp = 0, clock_epoch = 0, leader_schedule_epoch = 1,
     unix_timestamp = 0\<rparr>"

definition sample_vote_state :: VoteState where
  "sample_vote_state = VoteState_new
     \<lparr>vi_node_pubkey = 7, vi_authorized_voter = 7, vi_authorized_withdrawer = 7, vi_commission = 5\<rparr> sample_clock"

definition sample_vote_codec :: "VoteStateVersions bincode" where
  "sample_vote_codec =
     \<lparr>bc_serialize = (\<lambda>v.
        if v = VoteState_Current sample_vote_state then Some [1, 0]
        else if v = VoteState_Current (sample_vote_state\<lparr>commission := 9\<rparr>) then Some [2, 0]
        else if v = VoteState_Current VoteState_default then Some [3, 0] else None),
      bc_deserialize = (\<lambda>bs.
        if take 1 bs = [1] then Some (VoteState_Current sample_vote_state)
        else if take 1 bs = [2] then Some (VoteState_Current (sample_vote_state\<lparr>commission := 9\<rparr>))
        else if take 1 bs = [3] then Some (VoteState_Current VoteState_default) else None)\<rparr>"

lemma sample_vote_law: "bincode_law sample_vote_codec v"
  by (auto simp: bincode_law_def sample_vote_codec_def split: if_splits)

definition sample_vote_ic :: InstructionContext where
  "sample_vote_ic = configure [0]
     [\<lparr>ia_index_in_transaction = 1, ia_index_in_caller = 1, ia_index_in_callee = 0,
       ia_is_signer = False, ia_is_writable = True\<rparr>,
      \<lparr>ia_index_in_transaction = 2, ia_index_in_caller = 2, ia_index_in_callee = 1,
       ia_is_signer = True, ia_is_writable = True\<rparr>] [] InstructionContext_default"

definition sample_vote_tc :: TransactionContext where
  "sample_vote_tc =
     (TransactionContext_new [(vote_program_id, shared_new 1 0 0),
        (8, (shared_new 5000000 2 vote_program_id)\<lparr>data := [1, 0]\<rparr>), (7, shared_new 10 0 0)]
        (Some Rent_default) 5 64)
       \<lparr>instruction_trace := [sample_vote_ic, InstructionContext_default], instruction_stack := [0]\<rparr>"

definition sample_vote_env :: InvokeEnv where
  "sample_vote_env =
     \<lparr>sysvar_cache = SysvarCache_default\<lparr>sc_rent := Some Rent_default, sc_clock := Some sample_clock\<rparr>,
      feature_set = (\<lambda>_. None), blockhash = 77, lamports_per_signature = 5000\<rparr>"

definition sample_commission :: vote_result where
  "sample_commission = vote_process_instruction (\<lambda>_. Some (UpdateCommission 9)) sample_vote_codec sample_sha256
     sample_vote_env sample_vote_tc"

lemmas sample_vote_exec = sample_vote_ic_def sample_vote_tc_def sample_vote_env_def
  vote_process_instruction_def process_vote_instruction_def limited_deserialize_def
  update_commission_def save_vote_state_def VoteStateVersions_new_current_def
  account_values_def verify_authorized_signer_def

lemma sample_vote_current: "get_current_instruction_context sample_vote_tc = Inr sample_vote_ic"
  by (simp add: sample_vote_exec exec)

lemma sample_vote_signers: "get_signers sample_vote_ic sample_vote_tc = Inr {7}"
  by (simp add: sample_vote_exec exec)

lemma sample_vote_state_simps:
  "authorized_withdrawer sample_vote_state = 7" "\<not> is_uninitialized (VoteState_Current sample_vote_state)"
  "sample_vote_state\<lparr>commission := 9\<rparr> \<noteq> sample_vote_state" "vote_state_ok sample_vote_state"
proof -
  have "commission (sample_vote_state\<lparr>commission := 9\<rparr>) \<noteq> commission sample_vote_state"
    by (simp add: sample_vote_state_def VoteState_new_def)
  then show "sample_vote_state\<lparr>commission := 9\<rparr> \<noteq> sample_vote_state" by metis
  show "vote_state_ok sample_vote_state" unfolding sample_vote_state_def by (rule vote_state_ok_new)
qed (simp_all add: sample_vote_state_def VoteState_new_def AuthorizedVoters_new_def)

lemma sample_commission_runs:
  "\<exists>tc'. sample_commission = Inr tc' \<and> data (account_values tc' ! 1) = [2, 0]"
  by (simp add: sample_commission_def sample_vote_exec sample_vote_codec_def sample_vote_state_simps
      is_active_def vote_program_id_def overwrite_front_def exec)

lemma sample_vote_accounts:
  "account_values sample_vote_tc = [shared_new 1 0 0, (shared_new 5000000 2 vote_program_id)\<lparr>data := [1, 0]\<rparr>,
     shared_new 10 0 0]"
  by (simp add: sample_vote_exec exec)

lemma sample_vote_ok: "vote_accounts_ok sample_vote_codec sample_vote_tc"
  by (simp add: vote_accounts_ok_def sample_vote_accounts sample_vote_codec_def sample_vote_state_simps
      shared_new_def vote_program_id_def)

theorem vote_accounts_stay_ok_witness:
  "\<exists>tc'. sample_commission = Inr tc' \<and> vote_accounts_ok sample_vote_codec sample_vote_tc \<and>
     vote_accounts_ok sample_vote_codec tc' \<and> data (account_values tc' ! 1) = [2, 0]"
proof -
  obtain tc' where *: "sample_commission = Inr tc'" "data (account_values tc' ! 1) = [2, 0]"
    using sample_commission_runs by blast
  from vote_accounts_stay_ok [OF *(1) [unfolded sample_commission_def] sample_vote_law sample_vote_ok]
  show ?thesis using * sample_vote_ok by blast
qed

theorem vote_change_authorised_witness:
  "\<exists>tc'. sample_commission = Inr tc' \<and>
     data (account_values tc' ! 1) \<noteq> data (account_values sample_vote_tc ! 1) \<and>
     has_authority (vote_signers sample_sha256 {7}) (Some sample_clock) sample_vote_state"
proof -
  obtain tc' where *: "sample_commission = Inr tc'" "data (account_values tc' ! 1) = [2, 0]"
    using sample_commission_runs by blast
  have "1 < length (accounts sample_vote_tc)" by (simp add: sample_vote_exec exec)
  moreover have "bc_deserialize sample_vote_codec (data (account_values sample_vote_tc ! 1)) =
      Some (VoteState_Current sample_vote_state)"
    by (simp add: sample_vote_accounts sample_vote_codec_def)
  moreover have d: "data (account_values tc' ! 1) \<noteq> data (account_values sample_vote_tc ! 1)"
    unfolding *(2) by (simp add: sample_vote_accounts)
  ultimately have "has_authority (vote_signers sample_sha256 {7}) (sc_clock (sysvar_cache sample_vote_env))
      (convert_to_current (VoteState_Current sample_vote_state))"
    using vote_change_authorised [OF *(1) [unfolded sample_commission_def] sample_vote_law
        sample_vote_current sample_vote_signers _ _ sample_vote_state_simps(2) disjI1] by blast
  then show ?thesis using *(1) d by (intro exI [of _ tc']) (simp add: sample_vote_env_def)
qed

theorem vote_keeps_runtime_rules_witness:
  "\<exists>tc'. sample_commission = Inr tc' \<and> total_lamports tc' = 5000011 \<and>
     is_ok (verify (PreAccount_new 8 (account_values sample_vote_tc ! 1)) vote_program_id True Rent_default
       (account_values tc' ! 1) sample_timings True)"
proof -
  obtain tc' where *: "sample_commission = Inr tc'" using sample_commission_runs by blast
  have "accounts_fit sample_vote_ic" "get_last_program_key sample_vote_ic sample_vote_tc = Inr vote_program_id"
    and r: "tc_rent sample_vote_tc = Some Rent_default \<and> 1 < length (accounts sample_vote_tc)"
    "length (data (account_values sample_vote_tc ! 1)) \<le> unat MAX_PERMITTED_DATA_LENGTH"
    and w: "writable_at sample_vote_ic 1" and t: "total_lamports sample_vote_tc = 5000011"
    by (simp_all add: accounts_fit_def writable_at_def total_lamports_def sample_vote_exec exec)
  from vote_keeps_runtime_rules [OF *(1) [unfolded sample_commission_def] sample_vote_current this(1,2),
      where key = 8 and timings = sample_timings and outermost_call = True] r w t
  have "total_lamports tc' = 5000011 \<and> is_ok (verify (PreAccount_new 8 (account_values sample_vote_tc ! 1))
      vote_program_id True Rent_default (account_values tc' ! 1) sample_timings True)" by metis
  then show ?thesis using * by blast
qed

definition sample_close :: "InstructionError + TransactionContext" where
  "sample_close = withdraw sample_vote_codec sample_vote_tc sample_vote_ic 0 5000000 1 {7} Rent_default
     (Some sample_clock)"

lemma sample_vote_credits: "epoch_credits sample_vote_state = []"
  by (simp add: sample_vote_state_def VoteState_new_def VoteState_default_def)

lemma sample_close_codec:
  "bc_serialize sample_vote_codec (VoteState_Current VoteState_default) = Some [3, 0]"
proof -
  have "VoteState_default \<noteq> sample_vote_state" "VoteState_default \<noteq> sample_vote_state\<lparr>commission := 9\<rparr>"
    by (simp_all add: VoteState_default_def sample_vote_state_def VoteState_new_def)
  then show ?thesis by (simp add: sample_vote_codec_def)
qed

lemma sample_close_runs: "\<exists>tc'. sample_close = Inr tc' \<and> lamports (account_values tc' ! 2) = 5000010"
proof -
  have "bc_deserialize sample_vote_codec [1, 0] = Some (VoteState_Current sample_vote_state)"
    by (simp add: sample_vote_codec_def)
  then show ?thesis
    by (simp add: sample_close_def withdraw_def withdraw_checks_def sample_vote_exec sample_close_codec
        sample_vote_state_simps sample_vote_credits reject_active_close_def last_opt_def
        vote_program_id_def overwrite_front_def exec)
qed

theorem vote_withdraw_keeps_minimum_witness:
  "\<exists>tc'. sample_close = Inr tc' \<and> lamports (account_values tc' ! 2) = 5000010 \<and>
     lamports (account_values tc' ! 1) = 0"
proof -
  obtain tc' where *: "sample_close = Inr tc'" "lamports (account_values tc' ! 2) = 5000010"
    using sample_close_runs by blast
  let ?ia = "\<lambda>i c b. \<lparr>ia_index_in_transaction = i, ia_index_in_caller = i, ia_index_in_callee = c,
       ia_is_signer = b, ia_is_writable = True\<rparr>"
  have "get (instruction_accounts sample_vote_ic) (unat (0 :: IndexOfAccount)) = Some (?ia 1 0 False)"
    "get (instruction_accounts sample_vote_ic) (unat (1 :: IndexOfAccount)) = Some (?ia 2 1 True)"
    by (simp_all add: sample_vote_exec exec)
  from vote_withdraw_keeps_minimum [OF *(1) [unfolded sample_close_def] sample_vote_law this]
  have "unat (lamports (account_values tc' ! 1)) + 5000000 = 5000000"
    by (auto simp: Let_def sample_vote_accounts shared_new_def)
  then have "lamports (account_values tc' ! 1) = 0" by (simp add: unat_eq_0)
  then show ?thesis using * by blast
qed

end
