(* ===== verification/ShortVec.thy ===== *)
theory ShortVec
  imports Bytes
begin

text \<open>
  The compact encodings of \<open>short_vec.rs\<close>: a 16-bit length in one to three bytes, and vectors
  with such a length in front.  A deserializer is the list of the bytes that are left;
  \<open>next_element\<close> takes the first one.  Encoding and decoding of the elements of a vector are
  functions given from outside.
\<close>

section \<open>Groups of seven bits\<close>

lemma unat_shift7: "unat (drop_bit 7 w) = unat (w :: 'a::len word) div 128"
  by (subst unsigned_drop_bit_eq) (simp add: drop_bit_eq_div take_bit_nat_eq_self)

section \<open>Compact lengths\<close>

function ShortU16_serialize :: "u16 \<Rightarrow> bytes" where
  "ShortU16_serialize rem_val =
     (let elem = ucast (rem_val AND 0x7f);
          rem_val = drop_bit 7 rem_val
      in if rem_val = 0 then [elem] else (elem OR 0x80) # ShortU16_serialize rem_val)"
  by pat_completeness auto
termination
proof (relation "measure unat"; clarsimp simp del: unsigned_drop_bit_eq)
  fix w :: u16
  assume "drop_bit 7 w \<noteq> 0"
  then have "unat (drop_bit 7 w) \<noteq> 0" by (simp only: unat_eq_0 simp_thms)
  then show "unat (drop_bit 7 w) < unat w" by (simp only: unat_shift7)
qed

declare ShortU16_serialize.simps [simp del]

datatype VisitStatus = Done u16 | More u16

datatype VisitError = TooLong nat | TooShort nat | Overflow u32 | Alias | ByteThreeContinues

definition MAX_ENCODING_LENGTH :: nat where
  "MAX_ENCODING_LENGTH = 3"

text \<open>\<open>u32::checked_shl\<close>: a shift by 32 or more is refused.\<close>

definition checked_shl :: "u32 \<Rightarrow> u32 \<Rightarrow> u32 option" where
  "checked_shl w s = (if s < 32 then Some (push_bit (unat s) w) else None)"

definition u32_try_from :: "nat \<Rightarrow> u32 option" where
  "u32_try_from n = (if n < 2 ^ 32 then Some (of_nat n) else None)"

definition visit_byte :: "u8 \<Rightarrow> u16 \<Rightarrow> nat \<Rightarrow> VisitError + VisitStatus" where
  "visit_byte elem val nth_byte =
     (if elem = 0 \<and> nth_byte \<noteq> 0 then Inl Alias
      else
        let val = ucast val :: u32;
            elem = ucast elem :: u32;
            elem_val = elem AND 0x7f;
            elem_done = (elem AND 0x80 = 0)
        in if MAX_ENCODING_LENGTH \<le> nth_byte then Inl (TooLong (nth_byte + 1))
           else if nth_byte = MAX_ENCODING_LENGTH - 1 \<and> \<not> elem_done then Inl ByteThreeContinues
           else
             let shift = saturating_mul (case u32_try_from nth_byte of Some n \<Rightarrow> n | None \<Rightarrow> - 1) 7;
                 elem_val = (case checked_shl elem_val shift of Some e \<Rightarrow> e | None \<Rightarrow> - 1);
                 new_val = val OR elem_val
             in if unat new_val < 2 ^ 16
                then Inr (if elem_done then Done (ucast new_val) else More (ucast new_val))
                else Inl (Overflow new_val))"

text \<open>\<open>ShortU16Visitor::visit_seq\<close>: the loop over \<open>0..MAX_ENCODING_LENGTH\<close>.\<close>

fun visit_seq_loop :: "nat list \<Rightarrow> u16 \<Rightarrow> bytes \<Rightarrow> VisitError + (u16 \<times> bytes)" where
  "visit_seq_loop [] val seq = Inl ByteThreeContinues"
| "visit_seq_loop (nth_byte # ns) val seq =
     (case seq of
        [] \<Rightarrow> Inl (TooShort (nth_byte + 1))
      | elem # seq \<Rightarrow>
          and_then (visit_byte elem val nth_byte) (\<lambda>st.
          case st of Done new_val \<Rightarrow> Inr (new_val, seq) | More new_val \<Rightarrow> visit_seq_loop ns new_val seq))"

definition ShortU16_deserialize :: "bytes \<Rightarrow> VisitError + (u16 \<times> bytes)" where
  "ShortU16_deserialize seq = visit_seq_loop [0..<MAX_ENCODING_LENGTH] 0 seq"

fun decode_loop :: "u16 \<Rightarrow> (nat \<times> u8) list \<Rightarrow> unit + (nat \<times> nat)" where
  "decode_loop val [] = Inl ()"
| "decode_loop val ((nth_byte, byte) # rest) =
     and_then (map_err (\<lambda>_. ()) (visit_byte byte val nth_byte)) (\<lambda>st.
     case st of
       More new_val \<Rightarrow> decode_loop new_val rest
     | Done new_val \<Rightarrow> Inr (unat new_val, nth_byte + 1))"

definition decode_shortu16_len :: "bytes \<Rightarrow> unit + (nat \<times> nat)" where
  "decode_shortu16_len bytes = decode_loop 0 (enumerate 0 (take MAX_ENCODING_LENGTH bytes))"

section \<open>Vectors\<close>

datatype ShortVecError = LengthLargerThanU16 | InvalidLength nat | BadLength VisitError | BadElement

fun serialize_elements :: "('a \<Rightarrow> bytes option) \<Rightarrow> 'a list \<Rightarrow> ShortVecError + bytes" where
  "serialize_elements ser [] = Inr []"
| "serialize_elements ser (x # xs) =
     and_then (ok_or (ser x) BadElement) (\<lambda>b.
     and_then (serialize_elements ser xs) (\<lambda>bs. Inr (b @ bs)))"

definition short_vec_serialize :: "('a \<Rightarrow> bytes option) \<Rightarrow> 'a list \<Rightarrow> ShortVecError + bytes" where
  "short_vec_serialize ser elements =
     (if 2 ^ 16 - 1 < length elements then Inl LengthLargerThanU16
      else and_then (serialize_elements ser elements) (\<lambda>bs.
           Inr (ShortU16_serialize (of_nat (length elements)) @ bs)))"

fun deserialize_elements ::
    "(bytes \<Rightarrow> ('a \<times> bytes) option) \<Rightarrow> nat \<Rightarrow> bytes \<Rightarrow> ShortVecError + ('a list \<times> bytes)" where
  "deserialize_elements de 0 seq = Inr ([], seq)"
| "deserialize_elements de (Suc n) seq =
     and_then (ok_or (de seq) BadElement) (\<lambda>(elem, seq).
     and_then (deserialize_elements de n seq) (\<lambda>(result, seq). Inr (elem # result, seq)))"

definition short_vec_deserialize ::
    "(bytes \<Rightarrow> ('a \<times> bytes) option) \<Rightarrow> bytes \<Rightarrow> ShortVecError + ('a list \<times> bytes)" where
  "short_vec_deserialize de seq =
     and_then (map_err BadLength (ShortU16_deserialize seq)) (\<lambda>(short_len, seq).
     deserialize_elements de (unat short_len) seq)"

section \<open>The encoding is canonical\<close>

lemma unat_low7: "unat (w AND 0x7f) = unat (w :: 'a::len word) mod 128"
proof -
  have "w AND 0x7f = take_bit 7 w" by (simp add: take_bit_eq_mask mask_eq_exp_minus_1)
  then have "unat (w AND 0x7f) = unat (take_bit 7 w)" by (simp only:)
  also have "\<dots> = unat w mod 128" by (subst unsigned_take_bit_eq) (simp add: take_bit_eq_mod)
  finally show ?thesis .
qed

lemma bit7_u8: "bit (b :: u8) 7 \<longleftrightarrow> 128 \<le> unat b"
proof -
  have "unat b div 128 < 2" using unsigned_less [of b, where ?'a = nat] by (simp add: less_mult_imp_div_less)
  then have "odd (unat b div 128) \<longleftrightarrow> unat b div 128 \<noteq> 0" by (auto simp: less_2_cases_iff)
  moreover have "bit b 7 \<longleftrightarrow> bit (unat b) 7" by (simp add: bit_unsigned_iff)
  ultimately show ?thesis by (simp add: bit_iff_odd div_eq_0_iff not_less)
qed

lemma high_bit: "ucast (b :: u8) AND 0x80 = (0 :: 'a::len word) \<longleftrightarrow> unat b < 128" if "8 \<le> LENGTH('a)"
proof -
  have "ucast b AND 0x80 = (0 :: 'a word) \<longleftrightarrow> \<not> bit (ucast b :: 'a word) 7"
    by (simp add: bit_iff_and_push_bit_not_eq_0)
  then show ?thesis using that bit7_u8 [of b] by (simp add: bit_unsigned_iff not_le)
qed

text \<open>A group of bits put above the bits that are already there.\<close>

lemma unat_or_push:
  assumes "unat a < 2 ^ s" and "unat a + unat e * 2 ^ s < 2 ^ LENGTH('a)"
  shows "unat (a OR push_bit s (e :: 'a::len word)) = unat a + unat e * 2 ^ s"
proof -
  have take: "take_bit s a = a"
    using assms(1) by (metis take_bit_nat_eq_self unsigned_take_bit_eq unsigned_word_eqI)
  have "\<not> bit a n \<or> \<not> bit (push_bit s e) n" for n
    using arg_cong [OF take, of "\<lambda>w. bit w n"] by (auto simp: bit_simps)
  then have "a OR push_bit s e = a + push_bit s e" by (simp add: disjunctive_add)
  moreover have "unat (push_bit s e) = unat e * 2 ^ s"
  proof -
    have "unat (push_bit s e) = take_bit LENGTH('a) (push_bit s (unat e))"
      by (subst unsigned_push_bit_eq) simp
    then show ?thesis using assms(2) by (simp add: push_bit_eq_mult take_bit_nat_eq_self)
  qed
  ultimately show ?thesis using assms(2) by (simp add: unat_add_lem [THEN iffD1])
qed

lemma visit_byte_value:
  assumes "nth_byte < 3" and "unat val < 2 ^ (7 * nth_byte)"
  shows "visit_byte b val nth_byte =
     (let n = unat val + unat b mod 128 * 2 ^ (7 * nth_byte) in
      if b = 0 \<and> nth_byte \<noteq> 0 then Inl Alias
      else if nth_byte = 2 \<and> 128 \<le> unat b then Inl ByteThreeContinues
      else if n < 2 ^ 16 then Inr (if unat b < 128 then Done (of_nat n) else More (of_nat n))
      else Inl (Overflow (of_nat n)))"
proof -
  let ?s = "7 * nth_byte"
  define e :: u32 where "e = ucast b AND 0x7f"
  define k :: u32 where "k = saturating_mul (of_nat nth_byte) 7"
  have ub: "unat (ucast b :: u32) = unat b" "unat (ucast val :: u32) = unat val"
    by (simp_all add: unsigned_ucast_eq take_bit_nat_eq_self unsigned_less [THEN less_le_trans])
  have s: "unat k = ?s" "?s \<le> 14" "u32_try_from nth_byte = Some (of_nat nth_byte)"
    using assms(1) by (auto simp: k_def less_Suc_eq numeral_3_eq_3 saturating_mul_def u32_try_from_def)
  have e: "unat e = unat b mod 128" by (simp add: e_def unat_low7 ub)
  have sh: "checked_shl e k = Some (push_bit ?s e)"
    using s by (simp add: checked_shl_def word_less_nat_alt)
  have "unat b mod 128 * 2 ^ ?s \<le> 127 * 2 ^ 14"
    using s(2) by (intro mult_mono power_increasing) (simp_all add: less_Suc_eq_le [symmetric])
  moreover have "unat val < 2 ^ 14" using assms(2) s(2) by (meson less_le_trans one_le_numeral power_increasing)
  ultimately have small: "unat val + unat b mod 128 * 2 ^ ?s < 2 ^ 32" by simp
  define n where "n = unat val + unat b mod 128 * 2 ^ ?s"
  have new: "unat (ucast val OR push_bit ?s e :: u32) = n"
    using unat_or_push [of "ucast val :: u32" ?s e] assms(2) small by (simp add: ub e n_def)
  then have w: "(ucast val OR push_bit ?s e :: u32) = of_nat n"
    using small [folded n_def] by (simp add: word_unat_eq_iff unsigned_of_nat take_bit_nat_eq_self)
  have uc: "(ucast (of_nat n :: u32) :: u16) = of_nat n"
    by (simp add: word_unat_eq_iff unsigned_of_nat unsigned_ucast_eq)
  show ?thesis
    using s(3) assms(1)
    unfolding visit_byte_def MAX_ENCODING_LENGTH_def Let_def n_def [symmetric]
    by (simp add: e_def [symmetric] k_def [symmetric] sh w high_bit not_le uc new [unfolded w])
qed

text \<open>
  The specification of the variable-length encodings: a number in groups of seven bits, the least
  significant group first, with the high bit set on every byte but the last.
\<close>

fun bytes7 :: "nat \<Rightarrow> bytes" where
  "bytes7 n = (if n < 128 then [of_nat n] else of_nat (n mod 128 + 128) # bytes7 (n div 128))"

declare bytes7.simps [simp del]

lemma unat_of_nat_u8: "n < 256 \<Longrightarrow> unat (of_nat n :: u8) = n"
  by (simp add: unsigned_of_nat take_bit_nat_eq_self)

lemma bytes7_Cons:
  "bytes7 m @ rest = b # bs \<longleftrightarrow>
     unat b < 128 \<and> m = unat b \<and> rest = bs \<or>
     128 \<le> unat b \<and> 128 \<le> m \<and> m mod 128 = unat b mod 128 \<and> bytes7 (m div 128) @ rest = bs"
proof -
  have *: "of_nat m = b \<longleftrightarrow> m = unat b" if "m < 128"
    using that unat_of_nat_u8 [of m] by (auto simp: word_unat_eq_iff)
  have **: "of_nat (m mod 128 + 128) = b \<longleftrightarrow> 128 \<le> unat b \<and> m mod 128 = unat b mod 128"
  proof -
    have "unat (of_nat (m mod 128 + 128) :: u8) = m mod 128 + 128" by (rule unat_of_nat_u8) (simp add: less_Suc_eq_le [symmetric])
    moreover have "unat b < 256" using unsigned_less [of b, where ?'a = nat] by simp
    moreover have "m mod 128 < 128" by simp
    ultimately show ?thesis
      unfolding word_unat_eq_iff by (cases "unat b < 128") (auto simp: le_mod_geq)
  qed
  show ?thesis by (subst bytes7.simps) (use * ** in auto)
qed

lemma bytes7_not_Nil: "bytes7 m \<noteq> []"
  by (subst bytes7.simps) simp

lemma ShortU16_serialize_bytes7: "ShortU16_serialize w = bytes7 (unat w)"
proof (induction w rule: ShortU16_serialize.induct)
  case (1 w)
  have low: "unat (ucast (w AND 0x7f) :: u8) = unat w mod 128"
    by (simp add: unsigned_ucast_eq unat_low7 take_bit_nat_eq_self)
  have "(ucast (w AND 0x7f) OR 0x80 :: u8) = ucast (w AND 0x7f) OR push_bit 7 1" by simp
  then have high: "unat (ucast (w AND 0x7f) OR 0x80 :: u8) = unat w mod 128 + 128"
    using unat_or_push [of "ucast (w AND 0x7f) :: u8" 7 1] low by (simp add: less_Suc_eq_le [symmetric])
  have z: "drop_bit 7 w = 0 \<longleftrightarrow> unat w < 128"
    unfolding unat_eq_0 [symmetric] unat_shift7 by (simp add: div_eq_0_iff)
  have lo: "ucast (w AND 0x7f) = (of_nat (unat w) :: u8)" if "unat w < 128"
    using low that unat_of_nat_u8 [of "unat w"] by (simp add: word_unat_eq_iff)
  have "unat (of_nat (unat w mod 128 + 128) :: u8) = unat w mod 128 + 128"
    by (rule unat_of_nat_u8) (simp add: less_Suc_eq_le [symmetric])
  then have hi: "ucast (w AND 0x7f) OR 0x80 = (of_nat (unat w mod 128 + 128) :: u8)"
    by (simp only: word_unat_eq_iff high)
  show ?case
  proof (cases "unat w < 128")
    case True
    then have "ShortU16_serialize w = [ucast (w AND 0x7f)]"
      using z by (subst ShortU16_serialize.simps) (simp only: Let_def if_True)
    then show ?thesis using True by (simp only: lo bytes7.simps [of "unat w"] if_True)
  next
    case False
    then have nz: "drop_bit 7 w \<noteq> 0" using z by (simp only: not_False_eq_True simp_thms)
    then have "ShortU16_serialize w = (ucast (w AND 0x7f) OR 0x80) # ShortU16_serialize (drop_bit 7 w)"
      by (subst ShortU16_serialize.simps) (simp only: Let_def if_False)
    also have "ShortU16_serialize (drop_bit 7 w) = bytes7 (unat w div 128)"
      using 1 [OF refl refl nz] by (simp only: unat_shift7)
    finally show ?thesis using False by (simp only: hi bytes7.simps [of "unat w"] if_False)
  qed
qed

lemma of_nat_eq_u16: "n < 2 ^ 16 \<Longrightarrow> of_nat n = (x :: u16) \<longleftrightarrow> n = unat x"
  by (auto simp: word_unat_eq_iff unsigned_of_nat take_bit_nat_eq_self)

text \<open>Reading one group: the last one, or one that continues.\<close>

lemma bytes7_last:
  "unat b < 128 \<Longrightarrow>
     (\<exists>m. bytes7 m @ rest = b # bs \<and> x = v + m * p \<and> Q m) \<longleftrightarrow> rest = bs \<and> x = v + unat b * p \<and> Q (unat b)"
  by (auto simp: bytes7_Cons)

lemma bytes7_more:
  fixes p v x :: nat
  assumes "128 \<le> unat b"
  shows "(\<exists>m. bytes7 m @ rest = b # bs \<and> x = v + m * p) \<longleftrightarrow>
     (\<exists>m. bytes7 m @ rest = bs \<and> x = v + unat b mod 128 * p + m * (128 * p) \<and> m \<noteq> 0)"
    (is "(\<exists>m. ?L m) \<longleftrightarrow> (\<exists>m. ?R m)")
proof
  assume "\<exists>m. ?L m"
  then obtain m where m: "?L m" by blast
  then have d: "128 \<le> m" "m mod 128 = unat b mod 128" "bytes7 (m div 128) @ rest = bs"
    using assms by (auto simp: bytes7_Cons)
  have "m * p = (unat b mod 128 + 128 * (m div 128)) * p" using d(2) by (metis mod_mult_div_eq)
  then have "?R (m div 128)" using m d by (simp add: algebra_simps div_eq_0_iff)
  then show "\<exists>m. ?R m" by blast
next
  assume "\<exists>m. ?R m"
  then obtain m where "?R m" by blast
  then have "?L (unat b mod 128 + 128 * m)"
    using assms by (simp add: bytes7_Cons algebra_simps)
  then show "\<exists>m. ?L m" by blast
qed

lemma visit_seq_loop_iff:
  assumes "k \<le> 3" and "unat val < 2 ^ (7 * k)"
  shows "visit_seq_loop [k..<3] val bs = Inr (x, rest) \<longleftrightarrow>
     (\<exists>m. bytes7 m @ rest = bs \<and> unat x = unat val + m * 2 ^ (7 * k) \<and> (k \<noteq> 0 \<longrightarrow> m \<noteq> 0) \<and> k < 3)"
  using assms
proof (induction "3 - k" arbitrary: k val bs)
  case (Suc d)
  then have k: "k < 3" and up: "[k..<3] = k # [Suc k..<3]" by (simp_all add: upt_conv_Cons)
  show ?case
  proof (cases bs)
    case Nil
    then show ?thesis using up by (simp add: bytes7_not_Nil)
  next
    case (Cons b bs')
    let ?p = "2 ^ (7 * k) :: nat"
    let ?n = "unat val + unat b mod 128 * ?p"
    have x: "unat x < 2 ^ 16" using unsigned_less [of x, where ?'a = nat] by simp
    note vb = visit_byte_value [OF k Suc.prems(2), of b, unfolded Let_def]
    consider (last) "unat b < 128" | (three) "128 \<le> unat b" "k = 2" | (big) "128 \<le> unat b" "k < 2" "2 ^ 16 \<le> ?n"
      | (more) "128 \<le> unat b" "k < 2" "?n < 2 ^ 16" using k by linarith
    then show ?thesis
    proof cases
      case last
      then have "visit_seq_loop [k..<3] val bs = Inr (x, rest) \<longleftrightarrow>
          \<not> (b = 0 \<and> k \<noteq> 0) \<and> ?n < 2 ^ 16 \<and> of_nat ?n = x \<and> bs' = rest"
        by (simp only: up Cons visit_seq_loop.simps vb list.case) (auto simp del: of_nat_add of_nat_mult)
      also have "\<dots> \<longleftrightarrow> (k \<noteq> 0 \<longrightarrow> unat b \<noteq> 0) \<and> unat x = unat val + unat b * ?p \<and> bs' = rest"
        using last x of_nat_eq_u16 [of ?n x] by (auto simp: unat_eq_0 simp del: of_nat_add of_nat_mult)
      finally show ?thesis using last k by (auto simp: Cons bytes7_last)
    next
      case three
      have "visit_byte b val k = Inl ByteThreeContinues" by (subst vb) (use three in auto)
      then have "visit_seq_loop [k..<3] val bs \<noteq> Inr (x, rest)" by (simp add: up Cons)
      moreover have "\<not> (\<exists>m. bytes7 m @ rest = b # bs' \<and> unat x = unat val + m * ?p)"
        using x three by (auto simp: bytes7_more)
      ultimately show ?thesis using Cons by blast
    next
      case big
      then have "visit_byte b val k = Inl (Overflow (of_nat ?n))" by (subst vb) auto
      then have "visit_seq_loop [k..<3] val bs \<noteq> Inr (x, rest)" by (simp add: up Cons)
      moreover have "\<not> (\<exists>m. bytes7 m @ rest = b # bs' \<and> unat x = unat val + m * ?p)"
        using x big by (auto simp: bytes7_more)
      ultimately show ?thesis using Cons by blast
    next
      case more
      have "unat b mod 128 * ?p \<le> 127 * ?p" by (intro mult_le_mono1) (simp add: less_Suc_eq_le [symmetric])
      moreover have pow: "2 ^ (7 * Suc k) = 128 * ?p" by (simp add: power_add)
      ultimately have fits: "?n < 2 ^ (7 * Suc k)" using Suc.prems(2) unfolding pow by linarith
      have un: "unat (of_nat ?n :: u16) = ?n" using of_nat_eq_u16 [OF more(3), of "of_nat ?n"] by simp
      have "visit_seq_loop [k..<3] val bs = visit_seq_loop [Suc k..<3] (of_nat ?n) bs'"
        using more by (simp only: up Cons visit_seq_loop.simps vb list.case) (auto simp del: of_nat_add of_nat_mult)
      then have "visit_seq_loop [k..<3] val bs = Inr (x, rest) \<longleftrightarrow>
          (\<exists>m. bytes7 m @ rest = bs' \<and> unat x = ?n + m * (128 * ?p) \<and> m \<noteq> 0)"
        using Suc.hyps(1) [of "Suc k" "of_nat ?n" bs'] Suc.hyps(2) more fits
        by (simp only: un pow) simp
      also have "\<dots> \<longleftrightarrow> (\<exists>m. bytes7 m @ rest = b # bs' \<and> unat x = unat val + m * ?p)"
        using bytes7_more [OF more(1)] by simp
      finally show ?thesis using more k by (auto simp: Cons bytes7_Cons)
    qed
  qed
qed simp

lemma ShortU16_deserialize_iff:
  "ShortU16_deserialize bs = Inr (x, rest) \<longleftrightarrow> ShortU16_serialize x @ rest = bs"
  using visit_seq_loop_iff [of 0 0 bs x rest]
  by (simp add: ShortU16_deserialize_def MAX_ENCODING_LENGTH_def ShortU16_serialize_bytes7)

lemma visit_seq_loop_suffix: "visit_seq_loop ns val bs = Inr (x, rest) \<Longrightarrow> \<exists>c. bs = c @ rest"
proof (induction ns arbitrary: val bs)
  case (Cons n ns)
  from Cons.prems obtain e bs' where bs: "bs = e # bs'" by (auto split: list.splits)
  with Cons.prems obtain st where "visit_byte e val n = Inr st"
    "(case st of Done v \<Rightarrow> Inr (v, bs') | More v \<Rightarrow> visit_seq_loop ns v bs') = Inr (x, rest)"
    by (auto simp: result_simps)
  then consider "rest = bs'" | v where "visit_seq_loop ns v bs' = Inr (x, rest)" by (cases st) auto
  then have "\<exists>c. bs' = c @ rest" by cases (auto dest: Cons.IH)
  then show ?case by (auto simp: bs)
qed simp

lemma decode_loop_visit:
  "decode_loop val (enumerate k (take n bs)) =
     (case visit_seq_loop [k..<k + n] val bs of
        Inl _ \<Rightarrow> Inl () | Inr (x, rest) \<Rightarrow> Inr (unat x, k + (length bs - length rest)))"
proof (induction n arbitrary: k val bs)
  case (Suc n)
  have up: "[k..<k + Suc n] = k # [Suc k..<Suc k + n]" by (simp add: upt_conv_Cons)
  show ?case
  proof (cases bs)
    case Nil
    then show ?thesis by (simp only: up) simp
  next
    case (Cons b bs')
    have le: "length rest \<le> length bs'" if "visit_seq_loop [Suc k..<Suc k + n] v bs' = Inr (x, rest)" for v x rest
      using visit_seq_loop_suffix [OF that] by auto
    show ?thesis
      unfolding Cons up
      by (cases "visit_byte b val k")
         (auto simp: Suc.IH simp del: upt_Suc add_Suc split: VisitStatus.splits sum.splits dest!: le)
  qed
qed simp

text \<open>
  C38: Compact lengths are canonical.  A decoder accepts exactly the bytes that the encoder writes
  for some value, followed by anything: every value decodes to itself, no value has two
  encodings, and a value that does not fit into 16 bits is refused.  \<open>decode_shortu16_len\<close>
  accepts the same bytes and also returns how many it read.
\<close>

theorem short_u16_canonical:
  "(ShortU16_deserialize bs = Inr (x, rest) \<longleftrightarrow> ShortU16_serialize x @ rest = bs) \<and>
   (decode_shortu16_len bs = Inr (v, n) \<longleftrightarrow>
      (\<exists>x rest. ShortU16_serialize x @ rest = bs \<and> v = unat x \<and> n = length (ShortU16_serialize x)))"
proof -
  have "decode_shortu16_len bs = Inr (v, n) \<longleftrightarrow>
      (\<exists>x rest. ShortU16_deserialize bs = Inr (x, rest) \<and> v = unat x \<and> n = length bs - length rest)"
    using decode_loop_visit [of 0 0 MAX_ENCODING_LENGTH bs]
    by (auto simp: decode_shortu16_len_def ShortU16_deserialize_def split: sum.splits)
  also have "\<dots> \<longleftrightarrow>
      (\<exists>x rest. ShortU16_serialize x @ rest = bs \<and> v = unat x \<and> n = length (ShortU16_serialize x))"
  proof -
    have "ShortU16_serialize x @ rest = bs \<Longrightarrow> length bs - length rest = length (ShortU16_serialize x)" for x rest
      by auto
    then show ?thesis unfolding ShortU16_deserialize_iff by metis
  qed
  finally show ?thesis using ShortU16_deserialize_iff by blast
qed

lemma elements_roundtrip:
  assumes "\<And>x b rest. x \<in> set xs \<Longrightarrow> ser x = Some b \<Longrightarrow> de (b @ rest) = Some (x, rest)"
    and "serialize_elements ser xs = Inr bs"
  shows "deserialize_elements de (length xs) (bs @ rest) = Inr (xs, rest)"
  using assms
proof (induction xs arbitrary: bs)
  case (Cons x xs)
  from Cons.prems(2) obtain b bs' where *: "ser x = Some b" "serialize_elements ser xs = Inr bs'" "bs = b @ bs'"
    by (auto simp: result_simps)
  have "de (b @ bs' @ rest) = Some (x, bs' @ rest)" using Cons.prems(1) *(1) by simp
  moreover have "deserialize_elements de (length xs) (bs' @ rest) = Inr (xs, rest)"
    using Cons.IH [OF _ *(2)] Cons.prems(1) by simp
  ultimately show ?case by (simp add: *(3))
qed simp

text \<open>
  A vector with a compact length reads back.  When the elements of a vector read back, with
  anything after them, and the vector is written without an error, then reading returns the
  vector and the bytes that follow it.
\<close>

theorem short_vec_roundtrip:
  assumes "\<And>x b rest. x \<in> set xs \<Longrightarrow> ser x = Some b \<Longrightarrow> de (b @ rest) = Some (x, rest)"
    and "short_vec_serialize ser xs = Inr bs"
  shows "short_vec_deserialize de (bs @ rest) = Inr (xs, rest)"
proof -
  from assms(2) obtain bs' where el: "serialize_elements ser xs = Inr bs'"
    and bs: "bs = ShortU16_serialize (of_nat (length xs)) @ bs'" and len: "length xs < 2 ^ 16"
    by (auto simp: short_vec_serialize_def result_simps split: if_splits)
  have "ShortU16_deserialize (bs @ rest) = Inr (of_nat (length xs), bs' @ rest)"
    by (simp add: ShortU16_deserialize_iff bs)
  moreover have "unat (of_nat (length xs) :: u16) = length xs"
    using of_nat_eq_u16 [OF len, of "of_nat (length xs)"] by simp
  ultimately show ?thesis
    using elements_roundtrip [OF assms(1) el] by (simp add: short_vec_deserialize_def)
qed

theorem short_vec_roundtrip_witness:
  "short_vec_deserialize (\<lambda>bs. case bs of [] \<Rightarrow> None | b # bs \<Rightarrow> Some (b, bs)) ([2, 7, 9] @ [1]) =
     Inr ([7, 9], [1])"
proof -
  have "short_vec_serialize (\<lambda>b. Some [b]) [7, 9] = Inr [2, 7, 9]"
    by (simp add: short_vec_serialize_def ShortU16_serialize_bytes7 bytes7.simps)
  then show ?thesis by (intro short_vec_roundtrip [where ser = "\<lambda>b. Some [b]"]) auto
qed

end
