(* ===== verification/VarInt.thy ===== *)
theory VarInt
  imports ShortVec Float64
begin

text \<open>
  The variable-length integers of \<open>serde_varint.rs\<close>.  The macro of the source gives one
  implementation per integer type; here the type of the word is a parameter.
\<close>

datatype VarIntError = InvalidSequence | LastByteTruncated | InvalidTrailingZeros | LeftShiftOverflows

function varint_visit_seq :: "nat \<Rightarrow> 'a::len word \<Rightarrow> bytes \<Rightarrow> VarIntError + ('a word \<times> bytes)" where
  "varint_visit_seq shift out seq =
     (if shift < LENGTH('a) then
        (case seq of
           [] \<Rightarrow> Inl InvalidSequence
         | byte # seq \<Rightarrow>
             let out = out OR push_bit shift (ucast (byte AND 0x7F))
             in if byte AND 0x80 = 0 then
                  if ucast (drop_bit shift out) \<noteq> byte then Inl LastByteTruncated
                  else if byte = 0 \<and> (shift \<noteq> 0 \<or> out \<noteq> 0) then Inl InvalidTrailingZeros
                  else Inr (out, seq)
                else varint_visit_seq (shift + 7) out seq)
      else Inl LeftShiftOverflows)"
  by pat_completeness auto
termination
  by (relation "measure (\<lambda>(shift, out, seq). length seq)") auto

declare varint_visit_seq.simps [simp del]

definition varint_deserialize :: "bytes \<Rightarrow> VarIntError + ('a::len word \<times> bytes)" where
  "varint_deserialize seq = varint_visit_seq 0 0 seq"

text \<open>The length that is announced to the serializer.\<close>

definition varint_num_bytes :: "'a::len word \<Rightarrow> nat" where
  "varint_num_bytes self = (let bits = bitlen (unat self) in max ((bits + 6) div 7) 1)"

function varint_serialize :: "'a::len word \<Rightarrow> bytes" where
  "varint_serialize self =
     (if 128 \<le> unat self
      then ucast ((self AND 0x7F) OR 0x80) # varint_serialize (drop_bit 7 self)
      else [ucast self])"
  by pat_completeness auto
termination
proof (relation "measure unat"; clarsimp simp del: unsigned_drop_bit_eq)
  fix w :: "'a word"
  assume "128 \<le> unat w"
  then show "unat (drop_bit 7 w) < unat w" by (simp only: unat_shift7)
qed

declare varint_serialize.simps [simp del]

section \<open>The encoding is canonical\<close>

lemma unat_or_high7:
  assumes "8 \<le> LENGTH('a)"
  shows "unat ((w AND 0x7F) OR 0x80 :: 'a::len word) = unat w mod 128 + 128"
proof -
  have "2 ^ 8 \<le> (2 :: nat) ^ LENGTH('a)" using assms by (intro power_increasing) simp_all
  moreover have "((w AND 0x7F) OR 0x80) = (w AND 0x7F) OR push_bit 7 1" by simp
  moreover have "unat w mod 128 < 128" by simp
  ultimately show ?thesis
    using unat_or_push [of "w AND 0x7F" 7 1] by (simp only: unat_low7) simp
qed

lemma varint_serialize_bytes7:
  assumes "8 \<le> LENGTH('a)"
  shows "varint_serialize (w :: 'a::len word) = bytes7 (unat w)"
proof (induction w rule: varint_serialize.induct)
  case (1 w)
  show ?case
  proof (cases "unat w < 128")
    case True
    have "(ucast w :: u8) = of_nat (unat w)" by (simp add: word_unat_eq_iff unsigned_ucast_eq unsigned_of_nat)
    then show ?thesis
      using True by (simp only: varint_serialize.simps [of w] bytes7.simps [of "unat w"] not_le [symmetric] if_False if_True simp_thms)
  next
    case False
    have "(ucast ((w AND 0x7F) OR 0x80) :: u8) = of_nat (unat w mod 128 + 128)"
      using unat_of_nat_u8 [of "unat w mod 128 + 128"]
      by (simp only: word_unat_eq_iff unsigned_ucast_eq unat_or_high7 [OF assms]) (simp add: take_bit_eq_mod)
    moreover have "varint_serialize (drop_bit 7 w) = bytes7 (unat w div 128)"
      using 1 False by (simp only: not_less unat_shift7 simp_thms)
    moreover have "varint_serialize w = ucast ((w AND 0x7F) OR 0x80) # varint_serialize (drop_bit 7 w)"
      using False by (subst varint_serialize.simps) (simp only: not_less if_True)
    ultimately show ?thesis using False by (simp only: bytes7.simps [of "unat w"] if_False)
  qed
qed

lemma unat_ucast_u8: "8 \<le> LENGTH('a) \<Longrightarrow> unat (ucast (b :: u8) :: 'a::len word) = unat b"
proof -
  assume "8 \<le> LENGTH('a)"
  then have "2 ^ 8 \<le> (2 :: nat) ^ LENGTH('a)" by (intro power_increasing) simp_all
  moreover have "unat b < 2 ^ 8" using unsigned_less [of b, where ?'a = nat] by simp
  ultimately show ?thesis by (simp add: unsigned_ucast_eq take_bit_nat_eq_self)
qed

text \<open>The last byte is truncated exactly when the value does not fit.\<close>

lemma last_byte_fits:
  fixes out :: "'a::len word"
  assumes "s < LENGTH('a)" and "unat out < 2 ^ s" and "unat b < 128" and "8 \<le> LENGTH('a)"
  defines "out' \<equiv> out OR push_bit s (ucast (b :: u8))"
  shows "ucast (drop_bit s out') = b \<longleftrightarrow> unat out + unat b * 2 ^ s < 2 ^ LENGTH('a)"
    and "unat out + unat b * 2 ^ s < 2 ^ LENGTH('a) \<Longrightarrow> unat out' = unat out + unat b * 2 ^ s"
proof -
  have ub: "unat (ucast b :: 'a word) = unat b"
    using assms(4) by (rule unat_ucast_u8)
  then show fits: "unat out + unat b * 2 ^ s < 2 ^ LENGTH('a) \<Longrightarrow> unat out' = unat out + unat b * 2 ^ s"
    using unat_or_push [OF assms(2), of "ucast b"] by (simp add: out'_def)
  have drop: "unat (drop_bit s out') = unat out' div 2 ^ s"
    by (subst unsigned_drop_bit_eq) (simp add: drop_bit_eq_div take_bit_nat_eq_self)
  have low: "unat (ucast (drop_bit s out') :: u8) = unat out' div 2 ^ s mod 256"
    by (subst unsigned_ucast_eq) (simp only: drop take_bit_eq_mod, simp)
  show "ucast (drop_bit s out') = b \<longleftrightarrow> unat out + unat b * 2 ^ s < 2 ^ LENGTH('a)"
  proof (cases "unat out + unat b * 2 ^ s < 2 ^ LENGTH('a)")
    case True
    then have "unat out' div 2 ^ s = unat b" using fits assms(2) by simp
    then show ?thesis using True low assms(3) by (simp only: word_unat_eq_iff) simp
  next
    case False
    have pow: "(2 :: nat) ^ LENGTH('a) = 2 ^ (LENGTH('a) - s) * 2 ^ s"
      using assms(1) by (simp add: power_add [symmetric])
    have "2 ^ (LENGTH('a) - s) * 2 ^ s < (unat b + 1) * 2 ^ s"
      using False assms(2) unfolding pow by (simp add: not_less)
    then have "2 ^ (LENGTH('a) - s) < unat b + 1" by (simp only: mult_less_cancel2)
    then have b: "2 ^ (LENGTH('a) - s) \<le> unat b" by simp
    have "unat out' < 2 ^ LENGTH('a)" by (rule unsigned_less)
    then have "unat out' div 2 ^ s < 2 ^ (LENGTH('a) - s)" unfolding pow by (simp add: less_mult_imp_div_less)
    then have "unat out' div 2 ^ s mod 256 < unat b" using b by (meson le_less_trans less_le_trans mod_less_eq_dividend)
    then have "unat (ucast (drop_bit s out') :: u8) \<noteq> unat b" using low by simp
    then show ?thesis using False by (metis)
  qed
qed

lemma le_mult_pos: "m \<noteq> 0 \<Longrightarrow> (p :: nat) \<le> m * p"
  by (cases m) auto

lemma byte_high_bit: "b AND 0x80 = 0 \<longleftrightarrow> unat (b :: u8) < 128"
  using high_bit [of b, where ?'a = 8] by simp

lemma varint_visit_last:
  fixes out :: "'a::len word"
  assumes "8 \<le> LENGTH('a)" and "unat out < 2 ^ s" and b: "unat b < 128"
  shows "varint_visit_seq s out (b # bs) = Inr (x, rest) \<longleftrightarrow>
     bs = rest \<and> unat x = unat out + unat b * 2 ^ s \<and> (s \<noteq> 0 \<longrightarrow> unat b \<noteq> 0)"
proof (cases "s < LENGTH('a)")
  case s: True
  define out' where "out' = out OR push_bit s (ucast b)"
  have b7: "b AND 0x7F = b" using b unat_low7 [of b] by (simp add: word_unat_eq_iff)
  have or0: "s = 0 \<Longrightarrow> out = 0" using assms(2) by (simp add: unat_eq_0)
  note fit = last_byte_fits [OF s assms(2) b assms(1), folded out'_def]
  have "varint_visit_seq s out (b # bs) = Inr (x, rest) \<longleftrightarrow>
      ucast (drop_bit s out') = b \<and> \<not> (b = 0 \<and> (s \<noteq> 0 \<or> out' \<noteq> 0)) \<and> out' = x \<and> bs = rest"
    by (subst varint_visit_seq.simps)
       (simp only: s b b7 byte_high_bit Let_def out'_def [symmetric] list.case if_True, auto)
  also have "\<dots> \<longleftrightarrow> bs = rest \<and> unat x = unat out + unat b * 2 ^ s \<and> (s \<noteq> 0 \<longrightarrow> unat b \<noteq> 0)"
  proof (cases "unat out + unat b * 2 ^ s < 2 ^ LENGTH('a)")
    case True
    have "s = 0 \<Longrightarrow> b = 0 \<Longrightarrow> out' = 0" using fit(2) [OF True] or0 by (simp add: word_unat_eq_iff [of out' 0])
    then show ?thesis
      unfolding fit(1) word_unat_eq_iff [of out' x] fit(2) [OF True] using True by (auto simp: unat_eq_0)
  next
    case False
    then have "unat x \<noteq> unat out + unat b * 2 ^ s" using unsigned_less [of x, where ?'a = nat] by metis
    then show ?thesis unfolding fit(1) using False by simp
  qed
  finally show ?thesis .
next
  case s: False
  then have "2 ^ LENGTH('a) \<le> (2 ^ s :: nat)" by (simp add: power_increasing)
  then have "unat x \<noteq> unat out + unat b * 2 ^ s \<or> unat b = 0"
    using unsigned_less [of x, where ?'a = nat] le_mult_pos [of "unat b" "2 ^ s"] by linarith
  moreover have "s \<noteq> 0" using s assms(1) by simp
  ultimately show ?thesis using s b by (subst varint_visit_seq.simps) auto
qed

lemma varint_visit_more:
  fixes out :: "'a::len word"
  assumes "8 \<le> LENGTH('a)" and "unat out < 2 ^ s" and b: "128 \<le> unat b" and s: "s + 7 < LENGTH('a)"
  obtains out' :: "'a word" where "unat out' = unat out + unat b mod 128 * 2 ^ s" "unat out' < 2 ^ (s + 7)"
    "varint_visit_seq s out (b # bs) = varint_visit_seq (s + 7) out' bs"
proof -
  have "unat b mod 128 * 2 ^ s \<le> 127 * 2 ^ s" by (intro mult_le_mono1) (simp add: less_Suc_eq_le [symmetric])
  moreover have pow: "2 ^ (s + 7) = 128 * (2 ^ s :: nat)" by (simp add: power_add)
  ultimately have less: "unat out + unat b mod 128 * 2 ^ s < 2 ^ (s + 7)" using assms(2) unfolding pow by linarith
  moreover have "(2 :: nat) ^ (s + 7) < 2 ^ LENGTH('a)" using s by (intro power_strict_increasing) simp_all
  ultimately have "unat (out OR push_bit s (ucast (b AND 0x7F))) = unat out + unat b mod 128 * 2 ^ s"
    using unat_or_push [OF assms(2), of "ucast (b AND 0x7F)"]
    by (simp only: unat_ucast_u8 [OF assms(1)] unat_low7)
  moreover have "varint_visit_seq s out (b # bs) = varint_visit_seq (s + 7) (out OR push_bit s (ucast (b AND 0x7F))) bs"
    using s b by (subst varint_visit_seq.simps) (simp only: byte_high_bit Let_def list.case not_less [symmetric] if_False if_True add_lessD1)
  ultimately show ?thesis using that less by metis
qed

lemma varint_visit_overflow:
  assumes "\<not> s + 7 < LENGTH('a)" and "128 \<le> unat b"
  shows "varint_visit_seq s (out :: 'a::len word) (b # bs) \<noteq> Inr (x, rest)"
  using assms by (subst varint_visit_seq.simps, cases bs) (auto simp: byte_high_bit Let_def varint_visit_seq.simps)

lemma varint_visit_iff:
  fixes out :: "'a::len word"
  assumes "8 \<le> LENGTH('a)" and "unat out < 2 ^ s"
  shows "varint_visit_seq s out bs = Inr (x, rest) \<longleftrightarrow>
     (\<exists>m. bytes7 m @ rest = bs \<and> unat x = unat out + m * 2 ^ s \<and> (s \<noteq> 0 \<longrightarrow> m \<noteq> 0))"
  using assms(2)
proof (induction bs arbitrary: s out)
  case Nil
  then show ?case by (simp add: varint_visit_seq.simps bytes7_not_Nil)
next
  case (Cons b bs)
  show ?case
  proof (cases "unat b < 128")
    case True
    then show ?thesis using varint_visit_last [OF assms(1) Cons.prems True] by (auto simp: bytes7_last)
  next
    case False
    then have b: "128 \<le> unat b" by simp
    have "varint_visit_seq s out (b # bs) = Inr (x, rest) \<longleftrightarrow>
        (\<exists>m. bytes7 m @ rest = bs \<and> unat x = unat out + unat b mod 128 * 2 ^ s + m * (128 * 2 ^ s) \<and> m \<noteq> 0)"
    proof (cases "s + 7 < LENGTH('a)")
      case True
      from varint_visit_more [OF assms(1) Cons.prems b True, of bs] obtain out' :: "'a word" where
        *: "unat out' = unat out + unat b mod 128 * 2 ^ s" "unat out' < 2 ^ (s + 7)"
        "varint_visit_seq s out (b # bs) = varint_visit_seq (s + 7) out' bs" by blast
      show ?thesis using Cons.IH [OF *(2)] unfolding *(1,3) by (simp add: power_add mult.commute)
    next
      case s: False
      then have "2 ^ LENGTH('a) \<le> (2 :: nat) ^ (s + 7)" by (intro power_increasing) simp_all
      also have "\<dots> = 128 * 2 ^ s" by (simp add: power_add)
      finally have "unat x < 128 * 2 ^ s" using unsigned_less [of x, where ?'a = nat] by (rule less_le_trans [rotated])
      then have "unat x < m * (128 * 2 ^ s)" if "m \<noteq> 0" for m
        using le_mult_pos [OF that, of "128 * 2 ^ s"] by (rule less_le_trans)
      then have "\<not> (\<exists>m. unat x = unat out + unat b mod 128 * 2 ^ s + m * (128 * 2 ^ s) \<and> m \<noteq> 0)"
        by (metis add_leD2 not_le order_refl)
      then show ?thesis using varint_visit_overflow [OF s b] by blast
    qed
    also have "\<dots> \<longleftrightarrow> (\<exists>m. bytes7 m @ rest = b # bs \<and> unat x = unat out + m * 2 ^ s)"
      by (rule bytes7_more [OF b, symmetric])
    finally show ?thesis using b by (auto simp: bytes7_Cons)
  qed
qed

lemma varint_deserialize_iff:
  assumes "8 \<le> LENGTH('a)"
  shows "varint_deserialize bs = Inr (x :: 'a::len word, rest) \<longleftrightarrow> varint_serialize x @ rest = bs"
  using varint_visit_iff [OF assms, of 0 0 bs x rest]
  by (simp add: varint_deserialize_def varint_serialize_bytes7 [OF assms])

lemma bitlen_div128: "128 \<le> n \<Longrightarrow> bitlen n = bitlen (n div 128) + 7"
proof -
  assume n: "128 \<le> n"
  have shift: "bitlen n \<le> k + 7 \<longleftrightarrow> bitlen (n div 128) \<le> k" for k
    by (simp add: bitlen_le_iff power_add div_less_iff_less_mult)
  have "\<not> bitlen n \<le> 7" using n by (simp add: bitlen_le_iff)
  then show ?thesis
    using shift [of "bitlen n - 7"] shift [of "bitlen (n div 128)"] by linarith
qed

lemma length_bytes7: "length (bytes7 n) = max ((bitlen n + 6) div 7) 1"
proof (induction n rule: bytes7.induct)
  case (1 n)
  show ?case
  proof (cases "n < 128")
    case True
    then have "bitlen n \<le> 7" by (simp add: bitlen_le_iff)
    then have "(bitlen n + 6) div 7 \<le> 1" by simp
    then show ?thesis using True by (subst bytes7.simps) simp
  next
    case False
    then have n: "bitlen n = bitlen (n div 128) + 7" by (simp add: bitlen_div128)
    have "\<not> bitlen (n div 128) \<le> 0" using False by (simp only: bitlen_le_iff) simp
    then show ?thesis using False 1 by (subst bytes7.simps) (simp add: n)
  qed
qed

text \<open>
  C39: Variable-length integers are canonical, at each of the three widths the code implements: the
  decoder accepts exactly the bytes that the encoder writes, followed by anything, so that every
  value reads back and no value has two encodings; and the encoder writes as many bytes as it
  announced.
\<close>

theorem varint_canonical:
  "(varint_deserialize bs = Inr (x :: u16, rest) \<longleftrightarrow> varint_serialize x @ rest = bs) \<and>
   (varint_deserialize bs = Inr (y :: u32, rest) \<longleftrightarrow> varint_serialize y @ rest = bs) \<and>
   (varint_deserialize bs = Inr (z :: u64, rest) \<longleftrightarrow> varint_serialize z @ rest = bs) \<and>
   length (varint_serialize x) = varint_num_bytes x \<and>
   length (varint_serialize y) = varint_num_bytes y \<and>
   length (varint_serialize z) = varint_num_bytes z"
  by (simp add: varint_deserialize_iff varint_serialize_bytes7 length_bytes7 varint_num_bytes_def)

end
