(* ===== verification/VoteCompact.thy ===== *)
theory VoteCompact
  imports VoteState VarInt
begin

text \<open>
  The compact form of a vote state update (the module \<open>serde_compact_vote_state_update\<close>): the
  slots of the lockouts as offsets from the slot before, starting at the root, and a confirmation
  count in one byte.  The fields are written with the encodings of \<open>ShortVec\<close> and \<open>VarInt\<close>.
\<close>

record LockoutOffset =
  offset :: slot
  lo_confirmation_count :: u8

record CompactVoteStateUpdate =
  compact_root :: slot
  lockout_offsets :: "LockoutOffset list"
  compact_hash :: hash
  compact_timestamp :: "int option"

datatype CompactError = InvalidVoteLockout | InvalidConfirmationCount | InvalidLockoutOffset

fun to_offsets :: "slot \<Rightarrow> Lockout list \<Rightarrow> CompactError + LockoutOffset list" where
  "to_offsets s [] = Inr []"
| "to_offsets s (l # ls) =
     and_then (ok_or (checked_sub (lk_slot l) s) InvalidVoteLockout) (\<lambda>offset.
     and_then (if unat (confirmation_count l) < 2 ^ 8 then Inr (ucast (confirmation_count l))
               else Inl InvalidConfirmationCount) (\<lambda>confirmation_count.
     and_then (to_offsets (lk_slot l) ls) (\<lambda>os.
     Inr (\<lparr>offset = offset, lo_confirmation_count = confirmation_count\<rparr> # os))))"

text \<open>The compact form of an update; its bytes, which serde writes, are not modelled.\<close>

definition compact_serialize :: "VoteStateUpdate \<Rightarrow> CompactError + CompactVoteStateUpdate" where
  "compact_serialize upd =
     and_then (to_offsets (case update_root upd of None \<Rightarrow> 0 | Some r \<Rightarrow> r) (lockouts upd)) (\<lambda>os.
     Inr \<lparr>compact_root = (case update_root upd of None \<Rightarrow> - 1 | Some r \<Rightarrow> r), lockout_offsets = os,
          compact_hash = update_hash upd, compact_timestamp = update_timestamp upd\<rparr>)"

fun from_offsets :: "slot \<Rightarrow> LockoutOffset list \<Rightarrow> CompactError + Lockout list" where
  "from_offsets s [] = Inr []"
| "from_offsets s (lo # los) =
     and_then (ok_or (checked_add s (offset lo)) InvalidLockoutOffset) (\<lambda>s.
     and_then (from_offsets s los) (\<lambda>ls.
     Inr (Lockout_new_with_confirmation_count s (ucast (lo_confirmation_count lo)) # ls)))"

definition compact_deserialize :: "CompactVoteStateUpdate \<Rightarrow> CompactError + VoteStateUpdate" where
  "compact_deserialize c =
     (let root = (if compact_root c \<noteq> - 1 then Some (compact_root c) else None) in
      and_then (from_offsets (case root of None \<Rightarrow> 0 | Some r \<Rightarrow> r) (lockout_offsets c)) (\<lambda>ls.
      Inr \<lparr>lockouts = ls, update_root = root, update_hash = compact_hash c,
           update_timestamp = compact_timestamp c\<rparr>))"

lemma offsets_roundtrip: "to_offsets s ls = Inr os \<Longrightarrow> from_offsets s os = Inr ls"
proof (induction ls arbitrary: s os)
  case (Cons l ls)
  then obtain os' where le: "s \<le> lk_slot l" and cc: "unat (confirmation_count l) < 2 ^ 8"
    and rest: "to_offsets (lk_slot l) ls = Inr os'"
    and os: "os = \<lparr>offset = lk_slot l - s, lo_confirmation_count = ucast (confirmation_count l)\<rparr> # os'"
    by (auto simp: result_simps checked_sub_def split: if_splits)
  have "unat s + unat (lk_slot l - s) = unat (lk_slot l)" using le by (simp add: unat_sub word_le_nat_alt)
  then have "checked_add s (lk_slot l - s) = Some (lk_slot l)"
    using unsigned_less [of "lk_slot l", where ?'a = nat] by (simp add: checked_add_def)
  moreover have "ucast (ucast (confirmation_count l) :: u8) = confirmation_count l"
  proof -
    have "unat (ucast (confirmation_count l) :: u8) = unat (confirmation_count l)"
      by (subst unsigned_ucast_eq, rule take_bit_nat_eq_self) (use cc in simp)
    then show ?thesis by (simp only: word_unat_eq_iff unat_ucast_u8 [where ?'a = 32, simplified])
  qed
  ultimately show ?case
    using Cons.IH [OF rest] by (simp add: os Lockout_new_with_confirmation_count_def)
qed simp

text \<open>
  C40: The compact form keeps a vote state update.  When an update is written without an error and
  its root is not the largest slot, which stands for no root, then reading gives back the same
  lockouts, root, hash and timestamp.
\<close>

theorem compact_update_roundtrip:
  assumes "compact_serialize u = Inr c" and "update_root u \<noteq> Some (- 1)"
  shows "compact_deserialize c = Inr u"
proof -
  from assms(1) obtain os where os: "to_offsets (case update_root u of None \<Rightarrow> 0 | Some r \<Rightarrow> r) (lockouts u) = Inr os"
    and c: "c = \<lparr>compact_root = (case update_root u of None \<Rightarrow> - 1 | Some r \<Rightarrow> r), lockout_offsets = os,
          compact_hash = update_hash u, compact_timestamp = update_timestamp u\<rparr>"
    by (auto simp: compact_serialize_def result_simps)
  have "(if compact_root c \<noteq> - 1 then Some (compact_root c) else None) = update_root u"
    using assms(2) by (auto simp: c split: option.splits)
  then show ?thesis
    using offsets_roundtrip [OF os] by (simp only: compact_deserialize_def Let_def) (simp add: c)
qed

theorem compact_update_roundtrip_witness:
  "compact_deserialize \<lparr>compact_root = 5, lockout_offsets =
      [\<lparr>offset = 2, lo_confirmation_count = 2\<rparr>, \<lparr>offset = 1, lo_confirmation_count = 1\<rparr>],
      compact_hash = 11, compact_timestamp = None\<rparr> =
   Inr (VoteStateUpdate_new [\<lparr>lk_slot = 7, confirmation_count = 2\<rparr>, \<lparr>lk_slot = 8, confirmation_count = 1\<rparr>]
     (Some 5) 11)"
  by (rule compact_update_roundtrip)
     (simp_all add: compact_serialize_def VoteStateUpdate_new_def checked_sub_def word_le_nat_alt)

end
