(* ===== verification/ComputeBudget.thy ===== *)
theory ComputeBudget
  imports Errors
begin

text \<open>
  The compute budget of a transaction (\<open>compute_budget.rs\<close>) and the fee that its instructions
  request (\<open>prioritization_fee.rs\<close>).  The borsh decoding of an instruction is a function given
  from outside.
\<close>

datatype (plugins only: code size) TransactionError =
    TE_AccountInUse
  | TE_AccountLoadedTwice
  | TE_AccountNotFound
  | TE_ProgramAccountNotFound
  | TE_InsufficientFundsForFee
  | TE_InvalidAccountForFee
  | TE_AlreadyProcessed
  | TE_BlockhashNotFound
  | TE_InstructionError u8 InstructionError
  | TE_CallChainTooDeep
  | TE_MissingSignatureForFee
  | TE_InvalidAccountIndex
  | TE_SignatureFailure
  | TE_InvalidProgramForExecution
  | TE_SanitizeFailure
  | TE_ClusterMaintenance
  | TE_AccountBorrowOutstanding
  | TE_WouldExceedMaxBlockCostLimit
  | TE_UnsupportedVersion
  | TE_InvalidWritableAccount
  | TE_WouldExceedMaxAccountCostLimit
  | TE_WouldExceedAccountDataBlockLimit
  | TE_TooManyAccountLocks
  | TE_AddressLookupTableNotFound
  | TE_InvalidAddressLookupTableOwner
  | TE_InvalidAddressLookupTableData
  | TE_InvalidAddressLookupTableIndex
  | TE_InvalidRentPayingAccount
  | TE_WouldExceedMaxVoteCostLimit
  | TE_WouldExceedAccountDataTotalLimit
  | TE_DuplicateInstruction u8
  | TE_InsufficientFundsForRent u8

record CompiledInstruction =
  program_id_index :: u8
  ci_accounts :: "u8 list"
  ci_data :: bytes

datatype ComputeBudgetInstruction =
    RequestUnitsDeprecated u32 u32
  | RequestHeapFrame u32
  | SetComputeUnitLimit u32
  | SetComputeUnitPrice u64

section \<open>Prioritization fees\<close>

definition MICRO_LAMPORTS_PER_LAMPORT :: u64 where
  "MICRO_LAMPORTS_PER_LAMPORT = 1000000"

datatype PrioritizationFeeType = ComputeUnitPrice u64 | Deprecated u64

record PrioritizationFeeDetails =
  pf_fee :: u64
  pf_priority :: u64

definition PrioritizationFeeDetails_default :: PrioritizationFeeDetails where
  "PrioritizationFeeDetails_default = \<lparr>pf_fee = 0, pf_priority = 0\<rparr>"

text \<open>\<open>u64::try_from(x).unwrap_or(u64::MAX)\<close>.\<close>

definition u64_try_from_or_max :: "u128 \<Rightarrow> u64" where
  "u64_try_from_or_max x = (if unat x < 2 ^ 64 then ucast x else - 1)"

definition PrioritizationFeeDetails_new :: "PrioritizationFeeType \<Rightarrow> u64 \<Rightarrow> PrioritizationFeeDetails" where
  "PrioritizationFeeDetails_new fee_type limit =
     (case fee_type of
        Deprecated fee \<Rightarrow>
          let priority =
                (if limit = 0 then 0
                 else
                   let micro_lamport_fee = saturating_mul (ucast fee :: u128) (ucast MICRO_LAMPORTS_PER_LAMPORT)
                   in u64_try_from_or_max (micro_lamport_fee div ucast limit))
          in \<lparr>pf_fee = fee, pf_priority = priority\<rparr>
      | ComputeUnitPrice cu_price \<Rightarrow>
          let micro_lamport_fee = saturating_mul (ucast cu_price :: u128) (ucast limit);
              fee = saturating_add micro_lamport_fee (ucast (saturating_sub MICRO_LAMPORTS_PER_LAMPORT 1))
                      div ucast MICRO_LAMPORTS_PER_LAMPORT
          in \<lparr>pf_fee = u64_try_from_or_max fee, pf_priority = cu_price\<rparr>)"

section \<open>The budget\<close>

definition DEFAULT_INSTRUCTION_COMPUTE_UNIT_LIMIT :: u32 where
  "DEFAULT_INSTRUCTION_COMPUTE_UNIT_LIMIT = 200000"

definition MAX_COMPUTE_UNIT_LIMIT :: u32 where
  "MAX_COMPUTE_UNIT_LIMIT = 1400000"

definition MAX_HEAP_FRAME_BYTES :: u32 where
  "MAX_HEAP_FRAME_BYTES = 256 * 1024"

definition MIN_HEAP_FRAME_BYTES :: nat where
  "MIN_HEAP_FRAME_BYTES = 32 * 1024"

definition compute_budget_id :: pubkey where
  "compute_budget_id = 0x306466fe5211732ffecadba72c39be7bc8ce5bbc5f7126b2c439b3a40000000"

record ComputeBudget =
  compute_unit_limit :: u64
  log_64_units :: u64
  create_program_address_units :: u64
  invoke_units :: u64
  max_invoke_stack_height :: nat
  max_instruction_trace_length :: nat
  sha256_base_cost :: u64
  sha256_byte_cost :: u64
  sha256_max_slices :: u64
  max_call_depth :: nat
  stack_frame_size :: nat
  log_pubkey_units :: u64
  max_cpi_instruction_size :: nat
  cpi_bytes_per_unit :: u64
  sysvar_base_cost :: u64
  secp256k1_recover_cost :: u64
  syscall_base_cost :: u64
  curve25519_edwards_validate_point_cost :: u64
  curve25519_edwards_add_cost :: u64
  curve25519_edwards_subtract_cost :: u64
  curve25519_edwards_multiply_cost :: u64
  curve25519_edwards_msm_base_cost :: u64
  curve25519_edwards_msm_incremental_cost :: u64
  curve25519_ristretto_validate_point_cost :: u64
  curve25519_ristretto_add_cost :: u64
  curve25519_ristretto_subtract_cost :: u64
  curve25519_ristretto_multiply_cost :: u64
  curve25519_ristretto_msm_base_cost :: u64
  curve25519_ristretto_msm_incremental_cost :: u64
  heap_size :: "nat option"
  heap_cost :: u64
  mem_op_base_cost :: u64
  alt_bn128_addition_cost :: u64
  alt_bn128_multiplication_cost :: u64
  alt_bn128_pairing_one_pair_cost_first :: u64
  alt_bn128_pairing_one_pair_cost_other :: u64
  big_modular_exponentiation_cost :: u64

definition ComputeBudget_new :: "u64 \<Rightarrow> ComputeBudget" where
  "ComputeBudget_new limit =
     \<lparr>compute_unit_limit = limit,
      log_64_units = 100,
      create_program_address_units = 1500,
      invoke_units = 1000,
      max_invoke_stack_height = 5,
      max_instruction_trace_length = 64,
      sha256_base_cost = 85,
      sha256_byte_cost = 1,
      sha256_max_slices = 20000,
      max_call_depth = 64,
      stack_frame_size = 4096,
      log_pubkey_units = 100,
      max_cpi_instruction_size = 1280,
      cpi_bytes_per_unit = 250,
      sysvar_base_cost = 100,
      secp256k1_recover_cost = 25000,
      syscall_base_cost = 100,
      curve25519_edwards_validate_point_cost = 159,
      curve25519_edwards_add_cost = 473,
      curve25519_edwards_subtract_cost = 475,
      curve25519_edwards_multiply_cost = 2177,
      curve25519_edwards_msm_base_cost = 2273,
      curve25519_edwards_msm_incremental_cost = 758,
      curve25519_ristretto_validate_point_cost = 169,
      curve25519_ristretto_add_cost = 521,
      curve25519_ristretto_subtract_cost = 519,
      curve25519_ristretto_multiply_cost = 2208,
      curve25519_ristretto_msm_base_cost = 2303,
      curve25519_ristretto_msm_incremental_cost = 788,
      heap_size = None,
      heap_cost = 8,
      mem_op_base_cost = 10,
      alt_bn128_addition_cost = 334,
      alt_bn128_multiplication_cost = 3840,
      alt_bn128_pairing_one_pair_cost_first = 36364,
      alt_bn128_pairing_one_pair_cost_other = 12121,
      big_modular_exponentiation_cost = 33\<rparr>"

definition ComputeBudget_default :: ComputeBudget where
  "ComputeBudget_default = ComputeBudget_new (ucast MAX_COMPUTE_UNIT_LIMIT)"

text \<open>The variables of the loop over the instructions.\<close>

record budget_requests =
  num_non_compute_budget_instructions :: nat
  updated_compute_unit_limit :: "u32 option"
  requested_heap_size :: "(u32 \<times> u8) option"
  prioritization_fee :: "PrioritizationFeeType option"

definition process_request ::
    "ComputeBudgetInstruction option \<Rightarrow> bool \<Rightarrow> u8 \<Rightarrow> budget_requests \<Rightarrow> TransactionError + budget_requests" where
  "process_request decoded support_request_units_deprecated i r =
     (let invalid = TE_InstructionError i InvalidInstructionData; duplicate = TE_DuplicateInstruction i in
      case decoded of
        Some (RequestUnitsDeprecated units additional_fee) \<Rightarrow>
          if \<not> support_request_units_deprecated then Inl invalid
          else if updated_compute_unit_limit r \<noteq> None then Inl duplicate
          else if prioritization_fee r \<noteq> None then Inl duplicate
          else Inr (r\<lparr>updated_compute_unit_limit := Some units,
                      prioritization_fee := Some (Deprecated (ucast additional_fee))\<rparr>)
      | Some (RequestHeapFrame bytes) \<Rightarrow>
          if requested_heap_size r \<noteq> None then Inl duplicate
          else Inr (r\<lparr>requested_heap_size := Some (bytes, i)\<rparr>)
      | Some (SetComputeUnitLimit units) \<Rightarrow>
          if updated_compute_unit_limit r \<noteq> None then Inl duplicate
          else Inr (r\<lparr>updated_compute_unit_limit := Some units\<rparr>)
      | Some (SetComputeUnitPrice micro_lamports) \<Rightarrow>
          if prioritization_fee r \<noteq> None then Inl duplicate
          else Inr (r\<lparr>prioritization_fee := Some (ComputeUnitPrice micro_lamports)\<rparr>)
      | None \<Rightarrow> Inl invalid)"

fun process_instructions_loop ::
    "(bytes \<Rightarrow> ComputeBudgetInstruction option) \<Rightarrow> bool \<Rightarrow> (nat \<times> pubkey \<times> CompiledInstruction) list
       \<Rightarrow> budget_requests \<Rightarrow> TransactionError + budget_requests" where
  "process_instructions_loop decode support [] r = Inr r"
| "process_instructions_loop decode support ((i, program_id, instruction) # rest) r =
     and_then
       (if program_id = compute_budget_id
        then process_request (decode (ci_data instruction)) support (of_nat i) r
        else Inr (r\<lparr>num_non_compute_budget_instructions := num_non_compute_budget_instructions r + 1\<rparr>))
       (\<lambda>r. process_instructions_loop decode support rest r)"

definition apply_heap_request :: "(u32 \<times> u8) option \<Rightarrow> ComputeBudget \<Rightarrow> TransactionError + ComputeBudget" where
  "apply_heap_request request self =
     (case request of
        None \<Rightarrow> Inr self
      | Some (bytes, i) \<Rightarrow>
          if MAX_HEAP_FRAME_BYTES < bytes \<or> bytes < of_nat MIN_HEAP_FRAME_BYTES \<or> bytes mod 1024 \<noteq> 0
          then Inl (TE_InstructionError i InvalidInstructionData)
          else Inr (self\<lparr>heap_size := Some (unat bytes)\<rparr>))"

definition effective_unit_limit :: "bool \<Rightarrow> u32 option \<Rightarrow> nat \<Rightarrow> u32" where
  "effective_unit_limit default_units_per_instruction updated num_non_compute_budget =
     min (case (if default_units_per_instruction then
                  case updated of
                    Some l \<Rightarrow> Some l
                  | None \<Rightarrow> Some (saturating_mul (of_nat num_non_compute_budget) DEFAULT_INSTRUCTION_COMPUTE_UNIT_LIMIT)
                else updated) of
            Some l \<Rightarrow> l
          | None \<Rightarrow> MAX_COMPUTE_UNIT_LIMIT)
       MAX_COMPUTE_UNIT_LIMIT"

definition ComputeBudget_process_instructions ::
    "(bytes \<Rightarrow> ComputeBudgetInstruction option) \<Rightarrow> ComputeBudget \<Rightarrow> (pubkey \<times> CompiledInstruction) list \<Rightarrow> bool \<Rightarrow> bool
       \<Rightarrow> TransactionError + (ComputeBudget \<times> PrioritizationFeeDetails)" where
  "ComputeBudget_process_instructions decode self instructions default_units support =
     and_then (process_instructions_loop decode support (enumerate 0 instructions)
        \<lparr>num_non_compute_budget_instructions = 0, updated_compute_unit_limit = None,
         requested_heap_size = None, prioritization_fee = None\<rparr>) (\<lambda>r.
     and_then (apply_heap_request (requested_heap_size r) self) (\<lambda>self.
     let self = self\<lparr>compute_unit_limit := ucast (effective_unit_limit default_units
                  (updated_compute_unit_limit r) (num_non_compute_budget_instructions r))\<rparr>
     in Inr (self, case prioritization_fee r of
               Some fee_type \<Rightarrow> PrioritizationFeeDetails_new fee_type (compute_unit_limit self)
             | None \<Rightarrow> PrioritizationFeeDetails_default)))"

text \<open>What a request says of each part of the budget.\<close>

fun requested_limit :: "ComputeBudgetInstruction \<Rightarrow> u32 option" where
  "requested_limit (RequestUnitsDeprecated units fee) = Some units"
| "requested_limit (SetComputeUnitLimit units) = Some units"
| "requested_limit _ = None"

fun requested_fee :: "ComputeBudgetInstruction \<Rightarrow> PrioritizationFeeType option" where
  "requested_fee (RequestUnitsDeprecated units fee) = Some (Deprecated (ucast fee))"
| "requested_fee (SetComputeUnitPrice price) = Some (ComputeUnitPrice price)"
| "requested_fee _ = None"

fun requested_heap :: "ComputeBudgetInstruction \<Rightarrow> u32 option" where
  "requested_heap (RequestHeapFrame bytes) = Some bytes"
| "requested_heap _ = None"

definition option_list :: "'a option \<Rightarrow> 'a list" where
  "option_list x = (case x of None \<Rightarrow> [] | Some a \<Rightarrow> [a])"

lemma option_list_simps [simp]: "option_list None = []" "option_list (Some a) = [a]"
  by (simp_all add: option_list_def)

text \<open>After the loop the variables hold what the requests say, each part requested at most once.\<close>

definition collected :: "budget_requests \<Rightarrow> ComputeBudgetInstruction list \<Rightarrow> budget_requests \<Rightarrow> bool" where
  "collected r xs r' \<longleftrightarrow>
     option_list (updated_compute_unit_limit r') =
       option_list (updated_compute_unit_limit r) @ List.map_filter requested_limit xs \<and>
     option_list (prioritization_fee r') = option_list (prioritization_fee r) @ List.map_filter requested_fee xs \<and>
     option_list (map_option fst (requested_heap_size r')) =
       option_list (map_option fst (requested_heap_size r)) @ List.map_filter requested_heap xs"

lemma map_filter_Cons: "List.map_filter f (x # xs) = option_list (f x) @ List.map_filter f xs"
  by (simp add: List.map_filter_simps split: option.splits)

lemma collected_Nil: "collected r [] r"
  by (simp add: collected_def List.map_filter_simps)

lemma map_filter_Nil: "List.map_filter f [] = []"
  by (simp add: List.map_filter_simps)

lemma collected_Cons: "collected r [x] r1 \<Longrightarrow> collected r1 xs r' \<Longrightarrow> collected r (x # xs) r'"
  by (simp only: collected_def map_filter_Cons map_filter_Nil append_assoc append_Nil2 append_Nil simp_thms)

lemma process_request_Inr:
  assumes "process_request d support i r = Inr r'"
  obtains x where "d = Some x" "collected r [x] r'"
    "num_non_compute_budget_instructions r' = num_non_compute_budget_instructions r"
  using assms
  by (cases "requested_heap_size r")
     (auto simp: process_request_def Let_def collected_def map_filter_Cons map_filter_Nil
       split: option.splits ComputeBudgetInstruction.splits if_splits)

definition budget_data :: "(pubkey \<times> CompiledInstruction) list \<Rightarrow> bytes list" where
  "budget_data instructions =
     map (\<lambda>(_, ci). ci_data ci) (filter (\<lambda>(pid, _). pid = compute_budget_id) instructions)"

lemma loop_Inr:
  assumes "process_instructions_loop decode support (enumerate k instructions) r = Inr r'"
  shows "\<exists>xs. map decode (budget_data instructions) = map Some xs \<and> collected r xs r' \<and>
     num_non_compute_budget_instructions r' + length xs = num_non_compute_budget_instructions r + length instructions"
  using assms
proof (induction instructions arbitrary: k r)
  case Nil
  then show ?case by (simp add: budget_data_def collected_Nil)
next
  case (Cons inst instructions)
  obtain pid ci where inst: "inst = (pid, ci)" by (cases inst)
  show ?case
  proof (cases "pid = compute_budget_id")
    case True
    with Cons.prems obtain r1 where req: "process_request (decode (ci_data ci)) support (of_nat k) r = Inr r1"
      and rest: "process_instructions_loop decode support (enumerate (Suc k) instructions) r1 = Inr r'"
      by (auto simp: inst result_simps)
    from req obtain x where "decode (ci_data ci) = Some x" "collected r [x] r1"
      "num_non_compute_budget_instructions r1 = num_non_compute_budget_instructions r"
      by (rule process_request_Inr)
    moreover from Cons.IH [OF rest] obtain xs where "map decode (budget_data instructions) = map Some xs"
      "collected r1 xs r'"
      "num_non_compute_budget_instructions r' + length xs = num_non_compute_budget_instructions r1 + length instructions"
      by blast
    ultimately show ?thesis
      using True collected_Cons by (intro exI [of _ "x # xs"]) (auto simp: inst budget_data_def)
  next
    case False
    with Cons.prems have
      "process_instructions_loop decode support (enumerate (Suc k) instructions)
         (r\<lparr>num_non_compute_budget_instructions := num_non_compute_budget_instructions r + 1\<rparr>) = Inr r'"
      by (simp add: inst)
    from Cons.IH [OF this] False show ?thesis by (auto simp: inst budget_data_def collected_def)
  qed
qed

definition default_units_of :: "bool \<Rightarrow> nat \<Rightarrow> nat" where
  "default_units_of default_units n = (if default_units then 200000 * n else 1400000)"

lemma unat_effective_unit_limit:
  assumes "n < 2 ^ 32"
  shows "unat (effective_unit_limit default_units updated n) =
    min (case updated of Some l \<Rightarrow> unat l | None \<Rightarrow> default_units_of default_units n) 1400000"
proof -
  have n: "unat (of_nat n :: u32) = n" using assms by (simp add: unat_of_nat take_bit_nat_eq_self)
  have min: "unat (min a b) = min (unat a) (unat b)" for a b :: u32 by (simp add: min_def word_le_nat_alt)
  have "unat (saturating_mul (of_nat n :: u32) 200000) = min (n * 200000) (2 ^ 32 - 1)"
    by (simp only: unat_saturating_mul n) simp
  then show ?thesis
    by (simp only: effective_unit_limit_def default_units_of_def MAX_COMPUTE_UNIT_LIMIT_def min
         DEFAULT_INSTRUCTION_COMPUTE_UNIT_LIMIT_def split: option.split) (simp add: min_def)
qed

lemma apply_heap_request_Inr:
  assumes "apply_heap_request request self = Inr self'"
  shows "(case request of None \<Rightarrow> self' = self
     | Some (b, i) \<Rightarrow> self' = self\<lparr>heap_size := Some (unat b)\<rparr> \<and>
         1024 dvd unat b \<and> 32768 \<le> unat b \<and> unat b \<le> 262144)"
  using assms
  by (auto simp: apply_heap_request_def MAX_HEAP_FRAME_BYTES_def MIN_HEAP_FRAME_BYTES_def word_le_nat_alt
    word_less_nat_alt word_unat_eq_iff unat_mod mod_eq_0_iff_dvd split: option.splits prod.splits if_splits)

text \<open>
  C36: The compute budget a transaction can request is bounded.  When its instructions are
  accepted, every compute budget instruction was decoded, each part of the budget was requested
  at most once, the unit limit is the requested one (or 200,000 for each other instruction where
  that default applies, or the maximum) capped at 1,400,000, a requested heap is a multiple of
  1024 bytes between 32 and 256 kilobytes, and nothing else of the budget changes.
\<close>

theorem compute_budget_bounded:
  assumes run: "ComputeBudget_process_instructions decode self instructions default_units support = Inr (self', fee)"
    and "length instructions < 2 ^ 32"
  shows "\<exists>xs limit heap. map decode (budget_data instructions) = map Some xs \<and>
     List.map_filter requested_limit xs = option_list limit \<and>
     length (List.map_filter requested_fee xs) \<le> 1 \<and>
     List.map_filter requested_heap xs = option_list heap \<and>
     (\<forall>b \<in> set_option heap. 1024 dvd unat b \<and> 32768 \<le> unat b \<and> unat b \<le> 262144) \<and>
     self' = self\<lparr>heap_size := (case heap of Some b \<Rightarrow> Some (unat b) | None \<Rightarrow> heap_size self),
                   compute_unit_limit := compute_unit_limit self'\<rparr> \<and>
     unat (compute_unit_limit self') =
       min (case limit of Some l \<Rightarrow> unat l
            | None \<Rightarrow> default_units_of default_units (length instructions - length xs)) 1400000"
proof -
  from run obtain r self1 where
    loop: "process_instructions_loop decode support (enumerate 0 instructions)
       \<lparr>num_non_compute_budget_instructions = 0, updated_compute_unit_limit = None,
         requested_heap_size = None, prioritization_fee = None\<rparr> = Inr r"
    and heap: "apply_heap_request (requested_heap_size r) self = Inr self1"
    and self': "self' = self1\<lparr>compute_unit_limit := ucast (effective_unit_limit default_units
                  (updated_compute_unit_limit r) (num_non_compute_budget_instructions r))\<rparr>"
    by (auto simp: ComputeBudget_process_instructions_def result_simps Let_def)
  from loop_Inr [OF loop] obtain xs where xs: "map decode (budget_data instructions) = map Some xs"
    and col: "option_list (updated_compute_unit_limit r) = List.map_filter requested_limit xs"
      "option_list (prioritization_fee r) = List.map_filter requested_fee xs"
      "option_list (map_option fst (requested_heap_size r)) = List.map_filter requested_heap xs"
    and n: "num_non_compute_budget_instructions r = length instructions - length xs"
    by (auto simp: collected_def)
  from n \<open>length instructions < 2 ^ 32\<close> have "num_non_compute_budget_instructions r < 2 ^ 32" by simp
  then have "unat (compute_unit_limit self') = min (case updated_compute_unit_limit r of Some l \<Rightarrow> unat l
      | None \<Rightarrow> default_units_of default_units (length instructions - length xs)) 1400000"
    by (simp add: self' unat_ucast_u32 unat_effective_unit_limit n)
  moreover have "length (List.map_filter requested_fee xs) \<le> 1"
    by (cases "prioritization_fee r") (simp_all flip: col)
  moreover have "self' = self\<lparr>heap_size := (case map_option fst (requested_heap_size r) of Some b \<Rightarrow> Some (unat b)
      | None \<Rightarrow> heap_size self), compute_unit_limit := compute_unit_limit self'\<rparr>"
    "\<forall>b \<in> set_option (map_option fst (requested_heap_size r)). 1024 dvd unat b \<and> 32768 \<le> unat b \<and> unat b \<le> 262144"
    using apply_heap_request_Inr [OF heap] by (auto simp: self' split: option.splits)
  ultimately show ?thesis using xs col by metis
qed

text \<open>A limit above the maximum and a heap request beside an ordinary instruction.\<close>

definition example_decode :: "bytes \<Rightarrow> ComputeBudgetInstruction option" where
  "example_decode bs =
     (if bs = [1] then Some (RequestHeapFrame 65536)
      else if bs = [2] then Some (SetComputeUnitLimit 2000000)
      else None)"

definition example_instructions :: "(pubkey \<times> CompiledInstruction) list" where
  "example_instructions =
     [(compute_budget_id, \<lparr>program_id_index = 0, ci_accounts = [], ci_data = [2]\<rparr>),
      (7, \<lparr>program_id_index = 1, ci_accounts = [], ci_data = [9]\<rparr>),
      (compute_budget_id, \<lparr>program_id_index = 0, ci_accounts = [], ci_data = [1]\<rparr>)]"

theorem compute_budget_bounded_witness:
  "\<exists>self' fee. ComputeBudget_process_instructions example_decode ComputeBudget_default example_instructions True False
       = Inr (self', fee) \<and> unat (compute_unit_limit self') \<le> 1400000 \<and>
     (\<exists>xs. map example_decode (budget_data example_instructions) = map Some xs)"
proof -
  have run: "ComputeBudget_process_instructions example_decode ComputeBudget_default example_instructions True False
    = Inr (ComputeBudget_default\<lparr>heap_size := Some 65536, compute_unit_limit := 1400000\<rparr>, PrioritizationFeeDetails_default)"
    by (simp add: ComputeBudget_process_instructions_def example_instructions_def example_decode_def
      process_request_def apply_heap_request_def effective_unit_limit_def compute_budget_id_def
      MAX_COMPUTE_UNIT_LIMIT_def MAX_HEAP_FRAME_BYTES_def MIN_HEAP_FRAME_BYTES_def result_simps Let_def)
  have "length example_instructions < 2 ^ 32" by (simp add: example_instructions_def)
  from compute_budget_bounded [OF run this] run show ?thesis by (auto simp del: map_eq_conv)
qed

section \<open>The fee\<close>

lemma unat_u64_try_from_or_max: "unat (u64_try_from_or_max x) = min (unat x) (2 ^ 64 - 1)"
  by (auto simp: u64_try_from_or_max_def unat_max_word min_def unsigned_ucast_eq take_bit_nat_eq_self)

lemma u64_product_fits: "unat (a :: u64) * unat (b :: u64) + 999999 < 2 ^ 128"
proof -
  have "unat a \<le> 2 ^ 64 - 1" "unat b \<le> 2 ^ 64 - 1"
    using unsigned_less [of a, where ?'a = nat] unsigned_less [of b, where ?'a = nat] by auto
  then have "unat a * unat b \<le> (2 ^ 64 - 1) * (2 ^ 64 - 1)" by (rule mult_le_mono)
  then show ?thesis by simp
qed

text \<open>
  C37: The prioritisation fee is exact.  The fee of a compute unit price is the price times the
  unit limit in micro-lamports, rounded up to whole lamports, with no intermediate overflow and
  capped at the largest \<open>u64\<close>, and the price is the priority; the deprecated fee is charged as
  given, and its priority is the price per unit it amounts to, rounded down.
\<close>

theorem prioritization_fee_exact:
  "unat (pf_fee (PrioritizationFeeDetails_new (ComputeUnitPrice price) limit)) =
     min ((unat price * unat limit + 999999) div 1000000) (2 ^ 64 - 1) \<and>
   pf_priority (PrioritizationFeeDetails_new (ComputeUnitPrice price) limit) = price \<and>
   pf_fee (PrioritizationFeeDetails_new (Deprecated additional) limit) = additional \<and>
   unat (pf_priority (PrioritizationFeeDetails_new (Deprecated additional) limit)) =
     (if limit = 0 then 0 else min (unat additional * 1000000 div unat limit) (2 ^ 64 - 1))"
proof (intro conjI)
  have million: "unat (MICRO_LAMPORTS_PER_LAMPORT) = 1000000"
    "unat (saturating_sub MICRO_LAMPORTS_PER_LAMPORT 1) = 999999"
    by (simp_all add: MICRO_LAMPORTS_PER_LAMPORT_def unat_saturating_sub)
  have price: "unat (saturating_add (saturating_mul (ucast price :: u128) (ucast limit))
      (ucast (saturating_sub MICRO_LAMPORTS_PER_LAMPORT 1))) = unat price * unat limit + 999999"
    using u64_product_fits [of price limit]
    by (simp only: unat_saturating_add unat_saturating_mul unat_ucast_u64_u128 million) simp
  show "unat (pf_fee (PrioritizationFeeDetails_new (ComputeUnitPrice price) limit)) =
     min ((unat price * unat limit + 999999) div 1000000) (2 ^ 64 - 1)"
    by (simp add: PrioritizationFeeDetails_new_def Let_def unat_u64_try_from_or_max unat_div price
      unat_ucast_u64_u128 million)
  have "unat (saturating_mul (ucast additional :: u128) (ucast MICRO_LAMPORTS_PER_LAMPORT)) = unat additional * 1000000"
    using u64_product_fits [of additional MICRO_LAMPORTS_PER_LAMPORT]
    by (simp only: unat_saturating_mul unat_ucast_u64_u128 million) simp
  then show "unat (pf_priority (PrioritizationFeeDetails_new (Deprecated additional) limit)) =
     (if limit = 0 then 0 else min (unat additional * 1000000 div unat limit) (2 ^ 64 - 1))"
    by (simp add: PrioritizationFeeDetails_new_def Let_def unat_u64_try_from_or_max unat_div unat_ucast_u64_u128)
qed (simp_all add: PrioritizationFeeDetails_new_def Let_def)

end
