(* ===== verification/InvokeContext.thy ===== *)
theory InvokeContext
  imports BuiltinProgram ComputeBudget Sysvars
begin

text \<open>
  \<^verbatim>\<open>program-runtime/src/invoke_context.rs\<close> and
  \<^verbatim>\<open>program-runtime/src/accounts_data_meter.rs\<close>: what surrounds the execution of one
  instruction.  The invocation stack is pushed, the builtin program found and called, the accounts
  verified, the stack popped; a program may prepare and process an inner instruction in turn.
  A fallible operation returns its result together with the context it leaves, also on errors;
  \<open>Panic\<close> is the failure of a \<open>RefCell::borrow\<close> or of a builtin program.  The builtin programs,
  references the context carries in the source, are an argument of the operations that call them.
  The log, the executor cache, the allocator of a program and the timings other than the account
  counters are left out.
\<close>

section \<open>Results with a state\<close>

definition then_do :: "('e + 'a) \<times> 's \<Rightarrow> ('a \<Rightarrow> 's \<Rightarrow> ('e + 'b) \<times> 's) \<Rightarrow> ('e + 'b) \<times> 's" where
  "then_do m f = (case m of (Inl e, s) \<Rightarrow> (Inl e, s) | (Inr a, s) \<Rightarrow> f a s)"

lemma then_do_simps [simp, result_simps]:
  "then_do (Inl e, s) f = (Inl e, s)" "then_do (Inr a, s) f = f a s"
  by (simp_all add: then_do_def)

lemma then_do_eq_Inr_iff [result_simps]:
  "then_do m f = (Inr b, s') \<longleftrightarrow> (\<exists>a s. m = (Inr a, s) \<and> f a s = (Inr b, s'))"
  by (cases m; cases "fst m") auto

text \<open>A property of the state that both parts keep.\<close>

lemma then_do_keeps:
  assumes "P (snd m)" and "\<And>a. fst m = Inr a \<Longrightarrow> P (snd (f a (snd m)))"
  shows "P (snd (then_do m f))"
  using assms by (cases m; cases "fst m") auto

section \<open>The accounts data meter\<close>

definition MAX_ACCOUNTS_DATA_LEN :: u64 where
  "MAX_ACCOUNTS_DATA_LEN = 128000000000"

record AccountsDataMeter =
  adm_initial :: u64
  adm_delta :: int

definition AccountsDataMeter_new :: "u64 \<Rightarrow> AccountsDataMeter" where
  "AccountsDataMeter_new initial_accounts_data_len =
     \<lparr>adm_initial = initial_accounts_data_len, adm_delta = 0\<rparr>"

definition saturating_add_signed :: "u64 \<Rightarrow> int \<Rightarrow> u64" where
  "saturating_add_signed lhs rhs =
     (let r = word_of_int rhs :: u64;
          res = lhs + r;
          overflow = (2 ^ 64 \<le> unat lhs + unat r)
      in if overflow = (rhs < 0) then res
         else if overflow then - 1
         else 0)"

definition AccountsDataMeter_current :: "AccountsDataMeter \<Rightarrow> u64" where
  "AccountsDataMeter_current self = saturating_add_signed (adm_initial self) (adm_delta self)"

definition adjust_delta_unchecked :: "AccountsDataMeter \<Rightarrow> int \<Rightarrow> AccountsDataMeter" where
  "adjust_delta_unchecked self amount = self\<lparr>adm_delta := i64_saturating_add (adm_delta self) amount\<rparr>"

section \<open>The context\<close>

record SyscallContext =
  check_aligned :: bool
  check_size :: bool
  orig_account_lengths :: "nat list"

record InvokeContext =
  transaction_context :: TransactionContext
  invoke_rent :: Rent
  pre_accounts :: "PreAccount list"
  invoke_env :: InvokeEnv
  trace_log_stack :: "u64 list list list"
  compute_budget :: ComputeBudget
  current_compute_budget :: ComputeBudget
  compute_meter :: u64
  accounts_data_meter :: AccountsDataMeter
  timings :: ExecuteDetailsTimings
  syscall_context :: "SyscallContext option list"

type_synonym 'a outcome = "(InstructionError fault + 'a) \<times> InvokeContext"

record BuiltinProgram =
  bp_program_id :: pubkey
  bp_process_instruction :: "IndexOfAccount \<Rightarrow> InvokeContext \<Rightarrow> unit outcome"

definition InvokeContext_new ::
    "TransactionContext \<Rightarrow> Rent \<Rightarrow> InvokeEnv \<Rightarrow> ComputeBudget \<Rightarrow> u64 \<Rightarrow> InvokeContext" where
  "InvokeContext_new tc rent env budget prev_accounts_data_len =
     \<lparr>transaction_context = tc,
      invoke_rent = rent,
      pre_accounts = [],
      invoke_env = env,
      trace_log_stack = [[]],
      compute_budget = budget,
      current_compute_budget = budget,
      compute_meter = compute_unit_limit budget,
      accounts_data_meter = AccountsDataMeter_new prev_accounts_data_len,
      timings = \<lparr>total_account_count = 0, changed_account_count = 0\<rparr>,
      syscall_context = []\<rparr>"

definition early_verification :: "InvokeContext \<Rightarrow> bool" where
  "early_verification self =
     is_active (feature_set (invoke_env self)) enable_early_verification_of_account_modifications"

text \<open>The compute meter and the trace.\<close>

definition consume :: "u64 \<Rightarrow> InvokeContext \<Rightarrow> InvokeContext" where
  "consume amount self = self\<lparr>compute_meter := saturating_sub (compute_meter self) amount\<rparr>"

definition consume_checked :: "u64 \<Rightarrow> InvokeContext \<Rightarrow> (InstructionError + unit) \<times> InvokeContext" where
  "consume_checked amount self =
     (let exceeded = compute_meter self < amount;
          self = self\<lparr>compute_meter := saturating_sub (compute_meter self) amount\<rparr>
      in (if exceeded then Inl ComputationalBudgetExceeded else Inr (), self))"

definition get_remaining :: "InvokeContext \<Rightarrow> u64" where
  "get_remaining self = compute_meter self"

definition trace :: "u64 list \<Rightarrow> InvokeContext \<Rightarrow> unit outcome" where
  "trace state self =
     (case last_opt (trace_log_stack self) of
        None \<Rightarrow> (Inl Panic, self)
      | Some log \<Rightarrow>
          (Inr (), self\<lparr>trace_log_stack := butlast (trace_log_stack self) @ [log @ [state]]\<rparr>))"

text \<open>The syscall context of the running program.\<close>

definition set_syscall_context ::
    "bool \<Rightarrow> bool \<Rightarrow> nat list \<Rightarrow> InvokeContext \<Rightarrow> InstructionError + InvokeContext" where
  "set_syscall_context aligned sized lengths self =
     (if syscall_context self = [] then Inl CallDepth
      else Inr (self\<lparr>syscall_context := butlast (syscall_context self) @
        [Some \<lparr>check_aligned = aligned, check_size = sized, orig_account_lengths = lengths\<rparr>]\<rparr>))"

definition current_syscall_context :: "InvokeContext \<Rightarrow> SyscallContext option" where
  "current_syscall_context self = Option.bind (last_opt (syscall_context self)) (\<lambda>context. context)"

definition get_check_aligned :: "InvokeContext \<Rightarrow> bool" where
  "get_check_aligned self =
     (case current_syscall_context self of Some context \<Rightarrow> check_aligned context | None \<Rightarrow> True)"

definition get_check_size :: "InvokeContext \<Rightarrow> bool" where
  "get_check_size self =
     (case current_syscall_context self of Some context \<Rightarrow> check_size context | None \<Rightarrow> True)"

definition get_orig_account_lengths :: "InvokeContext \<Rightarrow> InstructionError + nat list" where
  "get_orig_account_lengths self =
     ok_or (map_option orig_account_lengths (current_syscall_context self)) CallDepth"

section \<open>Push and pop\<close>

text \<open>The loop that copies every account of the instruction, once, before it runs.\<close>

fun take_pre_accounts :: "InstructionContext \<Rightarrow> IndexOfAccount list \<Rightarrow> InvokeContext \<Rightarrow> unit outcome" where
  "take_pre_accounts ic [] self = (Inr (), self)"
| "take_pre_accounts ic (i # is) self =
     then_do (faulty (is_instruction_account_duplicate ic i), self) (\<lambda>dup self.
     if dup \<noteq> None then take_pre_accounts ic is self
     else
       then_do (faulty (get_index_of_instruction_account_in_transaction ic i), self) (\<lambda>index_in_transaction self.
       if get_number_of_accounts (transaction_context self) \<le> index_in_transaction
       then (Inl (Fault MissingAccount), self)
       else
         then_do (faulty (get_account_at_index (transaction_context self) index_in_transaction), self) (\<lambda>cell self.
         if cell_borrowed cell then (Inl Panic, self)
         else
           then_do (faulty (get_key_of_account_at_index (transaction_context self) index_in_transaction), self)
             (\<lambda>key self. take_pre_accounts ic is
                (self\<lparr>pre_accounts := pre_accounts self @ [PreAccount_new key (cell_value cell)]\<rparr>)))))"

definition last_program_is :: "TransactionContext \<Rightarrow> pubkey \<Rightarrow> InstructionError + InstructionContext \<Rightarrow> bool" where
  "last_program_is tc program_id context =
     unwrap_or_false
       (and_then context (\<lambda>ic.
        and_then (try_borrow_last_program_account ic tc) (\<lambda>(program_account, tc1).
        Inr (ba_key program_account tc1 = program_id))))"

text \<open>The first frame copies the accounts, a deeper one must not re-enter a program.\<close>

definition enter_frame :: "InstructionContext \<Rightarrow> pubkey \<Rightarrow> InvokeContext \<Rightarrow> unit outcome" where
  "enter_frame instruction_context program_id self =
     (let tc = transaction_context self; height = get_instruction_context_stack_height tc in
      if height = 0 then
        let self = self\<lparr>current_compute_budget := compute_budget self\<rparr> in
        if \<not> early_verification self then
          take_pre_accounts instruction_context
            (map of_nat [0..<unat (get_number_of_instruction_accounts instruction_context)])
            (self\<lparr>pre_accounts := []\<rparr>)
        else (Inr (), self)
      else
        let contains = (\<exists>level \<in> set [0..<height].
              last_program_is tc program_id (get_instruction_context_at_nesting_level tc level));
            is_last = last_program_is tc program_id (get_current_instruction_context tc)
        in if contains \<and> \<not> is_last then (Inl (Fault ReentrancyNotAllowed), self) else (Inr (), self))"

definition InvokeContext_push :: "InvokeContext \<Rightarrow> unit outcome" where
  "InvokeContext_push self =
     then_do (faulty (get_instruction_context_at_index_in_trace (transaction_context self)
                (get_instruction_trace_length (transaction_context self))), self) (\<lambda>instruction_context self.
     then_do (faulty (map_err (\<lambda>_. UnsupportedProgramId)
                (get_last_program_key instruction_context (transaction_context self))), self) (\<lambda>program_id self.
     then_do (enter_frame instruction_context program_id self) (\<lambda>_ self.
     let (result, tc) = push (transaction_context self)
     in (faulty result,
         self\<lparr>trace_log_stack := trace_log_stack self @ [[]],
              syscall_context := syscall_context self @ [None],
              transaction_context := tc\<rparr>))))"

definition InvokeContext_pop :: "InvokeContext \<Rightarrow> unit outcome" where
  "InvokeContext_pop self =
     (let (result, tc) = pop (transaction_context self)
      in (faulty result,
          self\<lparr>trace_log_stack := butlast (trace_log_stack self),
               syscall_context := butlast (syscall_context self),
               transaction_context := tc\<rparr>))"

section \<open>Late verification\<close>

definition meter_data_len :: "AccountSharedData \<Rightarrow> PreAccount \<Rightarrow> InvokeContext \<Rightarrow> InvokeContext" where
  "meter_data_len account pre self =
     self\<lparr>accounts_data_meter := adjust_delta_unchecked (accounts_data_meter self)
       (i64_saturating_sub (as_i64 (length (data account))) (as_i64 (length (data (pre_account pre)))))\<rparr>"

fun verify_loop ::
    "pubkey \<Rightarrow> (nat \<times> InstructionAccount) list \<Rightarrow> u128 \<Rightarrow> u128 \<Rightarrow> nat \<Rightarrow> InvokeContext
       \<Rightarrow> (InstructionError + u128 \<times> u128) \<times> InvokeContext" where
  "verify_loop program_id [] pre_sum post_sum n self = (Inr (pre_sum, post_sum), self)"
| "verify_loop program_id ((i, ia) # rest) pre_sum post_sum n self =
     (if of_nat i \<noteq> ia_index_in_callee ia then verify_loop program_id rest pre_sum post_sum n self
      else
        then_do (get_account_at_index (transaction_context self) (ia_index_in_transaction ia), self) (\<lambda>cell self.
        if cell_borrowed cell then (Inl AccountBorrowOutstanding, self)
        else
          then_do (ok_or (get (pre_accounts self) n) NotEnoughAccountKeys, self) (\<lambda>pre self.
          then_do (verify pre program_id (ia_is_writable ia) (invoke_rent self) (cell_value cell)
                     (timings self) True, self) (\<lambda>timings' self.
          let self = self\<lparr>timings := timings'\<rparr> in
          then_do (ok_or (checked_add pre_sum (ucast (lamports (pre_account pre)))) UnbalancedInstruction, self)
            (\<lambda>pre_sum self.
          then_do (ok_or (checked_add post_sum (ucast (lamports (cell_value cell)))) UnbalancedInstruction, self)
            (\<lambda>post_sum self.
          verify_loop program_id rest pre_sum post_sum (n + 1) (meter_data_len (cell_value cell) pre self)))))))"

definition InvokeContext_verify ::
    "InstructionAccount list \<Rightarrow> IndexOfAccount list \<Rightarrow> InvokeContext
       \<Rightarrow> (InstructionError + unit) \<times> InvokeContext" where
  "InvokeContext_verify ias program_indices self =
     then_do (map_err (\<lambda>_. CallDepth) (get_current_instruction_context (transaction_context self)), self)
       (\<lambda>instruction_context self.
     then_do (map_err (\<lambda>_. CallDepth) (get_last_program_key instruction_context (transaction_context self)), self)
       (\<lambda>program_id self.
     then_do (check_program_refs (transaction_context self) program_indices, self) (\<lambda>_ self.
     then_do (verify_loop program_id (enumerate 0 ias) 0 0 0 self) (\<lambda>(pre_sum, post_sum) self.
     if pre_sum \<noteq> post_sum then (Inl UnbalancedInstruction, self) else (Inr (), self)))))"

definition updated_pre :: "bool \<Rightarrow> PreAccount \<Rightarrow> AccountSharedData \<Rightarrow> PreAccount" where
  "updated_pre w pre account = (if w \<and> \<not> executable (pre_account pre) then update pre account else pre)"

text \<open>
  The loop of \<open>verify_and_update\<close>: the inner loop of the source runs over the copies up to the
  first with the key of the account.
\<close>

fun verify_and_update_loop ::
    "InstructionContext \<Rightarrow> pubkey \<Rightarrow> bool \<Rightarrow> (nat \<times> InstructionAccount) list \<Rightarrow> u128 \<Rightarrow> u128
       \<Rightarrow> InvokeContext \<Rightarrow> (InstructionError + u128 \<times> u128) \<times> InvokeContext" where
  "verify_and_update_loop ic program_id before_push [] pre_sum post_sum self = (Inr (pre_sum, post_sum), self)"
| "verify_and_update_loop ic program_id before_push ((i, ia) # rest) pre_sum post_sum self =
     (if of_nat i \<noteq> ia_index_in_callee ia \<or>
         \<not> ia_index_in_transaction ia < get_number_of_accounts (transaction_context self)
      then verify_and_update_loop ic program_id before_push rest pre_sum post_sum self
      else
        then_do (get_key_of_account_at_index (transaction_context self) (ia_index_in_transaction ia), self)
          (\<lambda>key self.
        then_do (get_account_at_index (transaction_context self) (ia_index_in_transaction ia), self) (\<lambda>cell self.
        then_do (if before_push then is_instruction_account_writable ic (ia_index_in_caller ia)
                 else Inr (ia_is_writable ia), self) (\<lambda>w self.
        case position (\<lambda>pre. pre_key pre = key) (pre_accounts self) of
          None \<Rightarrow> verify_and_update_loop ic program_id before_push rest pre_sum post_sum self
        | Some n \<Rightarrow>
            let pre = pre_accounts self ! n; account = cell_value cell in
            if cell_borrowed cell then (Inl AccountBorrowOutstanding, self)
            else
              then_do (verify pre program_id w (invoke_rent self) account (timings self) False, self)
                (\<lambda>timings' self.
              let self = self\<lparr>timings := timings'\<rparr> in
              then_do (ok_or (checked_add pre_sum (ucast (lamports (pre_account pre)))) UnbalancedInstruction, self)
                (\<lambda>pre_sum self.
              then_do (ok_or (checked_add post_sum (ucast (lamports account))) UnbalancedInstruction, self)
                (\<lambda>post_sum self.
              let pre' = updated_pre w pre account;
                  self = meter_data_len account pre' (self\<lparr>pre_accounts := (pre_accounts self)[n := pre']\<rparr>)
              in verify_and_update_loop ic program_id before_push rest pre_sum post_sum self)))))))"

definition verify_and_update ::
    "InstructionAccount list \<Rightarrow> bool \<Rightarrow> InvokeContext \<Rightarrow> (InstructionError + unit) \<times> InvokeContext" where
  "verify_and_update ias before_instruction_context_push self =
     then_do (get_current_instruction_context (transaction_context self), self) (\<lambda>instruction_context self.
     then_do (map_err (\<lambda>_. CallDepth) (get_last_program_key instruction_context (transaction_context self)), self)
       (\<lambda>program_id self.
     then_do (verify_and_update_loop instruction_context program_id before_instruction_context_push
                (enumerate 0 ias) 0 0 self) (\<lambda>(pre_sum, post_sum) self.
     if pre_sum \<noteq> post_sum then (Inl UnbalancedInstruction, self) else (Inr (), self))))"

section \<open>Inner instructions\<close>

record AccountMeta =
  am_pubkey :: pubkey
  am_is_signer :: bool
  am_is_writable :: bool

record Instruction =
  ix_program_id :: pubkey
  ix_accounts :: "AccountMeta list"
  ix_data :: bytes

datatype UpgradeableLoaderState =
    Uninitialized
  | Buffer (authority_address: "pubkey option")
  | Program (programdata_address: pubkey)
  | ProgramData slot "pubkey option"

definition bpf_loader_upgradeable_id :: pubkey where
  "bpf_loader_upgradeable_id = 0x2a8f6914e88a1b0e210153ef763ae2b00c2b93d16c124d2c0537a1004800000"

definition native_loader_id :: pubkey where
  "native_loader_id = 0x58784bf148ba4282fb012574888a9f153a07dadf765c0455c9a970380000000"

text \<open>
  The first loop of \<open>prepare_instruction\<close>: the distinct accounts with their united privileges,
  and for each account of the instruction its place among them.
\<close>

fun deduplicate ::
    "InstructionContext \<Rightarrow> TransactionContext \<Rightarrow> (nat \<times> AccountMeta) list \<Rightarrow> InstructionAccount list \<Rightarrow> nat list
       \<Rightarrow> InstructionError + InstructionAccount list \<times> nat list" where
  "deduplicate ic tc [] dedup indices = Inr (dedup, indices)"
| "deduplicate ic tc ((i, account_meta) # rest) dedup indices =
     and_then (ok_or (find_index_of_account tc (am_pubkey account_meta)) MissingAccount) (\<lambda>index_in_transaction.
     case position (\<lambda>ia. ia_index_in_transaction ia = index_in_transaction) dedup of
       Some duplicate_index \<Rightarrow>
         and_then (ok_or (get dedup duplicate_index) NotEnoughAccountKeys) (\<lambda>ia.
         deduplicate ic tc rest
           (dedup[duplicate_index := ia\<lparr>ia_is_signer := ia_is_signer ia \<or> am_is_signer account_meta,
                                        ia_is_writable := ia_is_writable ia \<or> am_is_writable account_meta\<rparr>])
           (indices @ [duplicate_index]))
     | None \<Rightarrow>
         and_then (ok_or (find_index_of_instruction_account ic tc (am_pubkey account_meta)) MissingAccount)
           (\<lambda>index_in_caller.
         deduplicate ic tc rest
           (dedup @ [\<lparr>ia_index_in_transaction = index_in_transaction,
                      ia_index_in_caller = index_in_caller,
                      ia_index_in_callee = of_nat i,
                      ia_is_signer = am_is_signer account_meta,
                      ia_is_writable = am_is_writable account_meta\<rparr>])
           (indices @ [length dedup])))"

fun check_privileges ::
    "InstructionContext \<Rightarrow> TransactionContext \<Rightarrow> pubkey list \<Rightarrow> InstructionAccount list \<Rightarrow> InstructionError + unit" where
  "check_privileges ic tc signers [] = Inr ()"
| "check_privileges ic tc signers (ia # rest) =
     and_then (try_borrow_instruction_account ic tc (ia_index_in_caller ia)) (\<lambda>(ba, tc1).
     if ia_is_writable ia \<and> \<not> is_writable ba then Inl PrivilegeEscalation
     else if ia_is_signer ia \<and> \<not> (is_signer ba \<or> ba_key ba tc1 \<in> set signers) then Inl PrivilegeEscalation
     else check_privileges ic tc signers rest)"

fun expand_duplicates :: "InstructionAccount list \<Rightarrow> nat list \<Rightarrow> InstructionError + InstructionAccount list" where
  "expand_duplicates dedup [] = Inr []"
| "expand_duplicates dedup (n # ns) =
     and_then (ok_or (get dedup n) NotEnoughAccountKeys) (\<lambda>ia.
     and_then (expand_duplicates dedup ns) (\<lambda>ias. Inr (ia # ias)))"

definition find_program_indices ::
    "UpgradeableLoaderState bincode \<Rightarrow> InstructionContext \<Rightarrow> TransactionContext \<Rightarrow> pubkey
       \<Rightarrow> InstructionError + IndexOfAccount list" where
  "find_program_indices bc ic tc callee_program_id =
     and_then (ok_or (find_index_of_instruction_account ic tc callee_program_id) MissingAccount)
       (\<lambda>program_account_index.
     and_then (try_borrow_instruction_account ic tc program_account_index) (\<lambda>(program_account, tc1).
     if \<not> is_executable program_account tc1 then Inl AccountNotExecutable
     else
       and_then
         (if get_owner program_account tc1 = bpf_loader_upgradeable_id then
            and_then (get_state bc program_account tc1) (\<lambda>state.
            case state of
              Program address \<Rightarrow>
                (case find_index_of_program_account_tc tc1 address of
                   Some programdata_account_index \<Rightarrow> Inr [programdata_account_index]
                 | None \<Rightarrow> Inl MissingAccount)
            | _ \<Rightarrow> Inl MissingAccount)
          else Inr [])
         (\<lambda>program_indices. Inr (program_indices @ [ba_index_in_transaction program_account]))))"

definition prepare_instruction ::
    "UpgradeableLoaderState bincode \<Rightarrow> Instruction \<Rightarrow> pubkey list \<Rightarrow> InvokeContext
       \<Rightarrow> InstructionError + InstructionAccount list \<times> IndexOfAccount list" where
  "prepare_instruction bc instruction signers self =
     (let tc = transaction_context self in
      and_then (get_current_instruction_context tc) (\<lambda>ic.
      and_then (deduplicate ic tc (enumerate 0 (ix_accounts instruction)) [] []) (\<lambda>(dedup, indices).
      and_then (check_privileges ic tc signers dedup) (\<lambda>_.
      and_then (expand_duplicates dedup indices) (\<lambda>ias.
      and_then (find_program_indices bc ic tc (ix_program_id instruction)) (\<lambda>program_indices.
      Inr (ias, program_indices)))))))"

section \<open>Processing an instruction\<close>

text \<open>The builtin program to call: the program account itself, or its owner, the loader.\<close>

definition root_program :: "InvokeContext \<Rightarrow> InstructionError + InstructionContext \<times> IndexOfAccount \<times> pubkey" where
  "root_program self =
     (let tc = transaction_context self in
      and_then (get_current_instruction_context tc) (\<lambda>ic.
      and_then (map_err (\<lambda>_. UnsupportedProgramId) (try_borrow_program_account ic tc 0)) (\<lambda>(root, tc1).
      let owner_id = get_owner root tc1 in
      if owner_id = native_loader_id then Inr (ic, 1, ba_key root tc1) else Inr (ic, 0, owner_id))))"

text \<open>The result, the context after it, and the compute units the program consumed.\<close>

definition process_executable_chain :: "BuiltinProgram list \<Rightarrow> InvokeContext \<Rightarrow> unit outcome \<times> u64" where
  "process_executable_chain builtin_programs self =
     (case root_program self of
        Inl e \<Rightarrow> ((Inl (Fault e), self), 0)
      | Inr (ic, first_instruction_account, builtin_id) \<Rightarrow>
          (case find (\<lambda>entry. bp_program_id entry = builtin_id) builtin_programs of
             None \<Rightarrow> ((Inl (Fault UnsupportedProgramId), self), 0)
           | Some entry \<Rightarrow>
               (case get_last_program_key ic (transaction_context self) of
                  Inl e \<Rightarrow> ((Inl (Fault e), self), 0)
                | Inr program_id \<Rightarrow>
                    let self = self\<lparr>transaction_context :=
                                 set_return_data (transaction_context self) program_id []\<rparr>;
                        (result, self') = bp_process_instruction entry first_instruction_account self
                    in ((result, self'), saturating_sub (get_remaining self) (get_remaining self')))))"

text \<open>\<open>.and(self.pop())\<close>: the stack is popped whatever the result.\<close>

definition and_pop :: "unit outcome \<Rightarrow> unit outcome" where
  "and_pop m =
     (case m of
        (Inl Panic, self) \<Rightarrow> (Inl Panic, self)
      | (Inl (Fault e), self) \<Rightarrow> (Inl (Fault e), snd (InvokeContext_pop self))
      | (Inr _, self) \<Rightarrow> InvokeContext_pop self)"

definition lift_fault :: "(InstructionError + 'a) \<times> InvokeContext \<Rightarrow> 'a outcome" where
  "lift_fault m = (faulty (fst m), snd m)"

definition verify_callee ::
    "bool \<Rightarrow> InstructionAccount list \<Rightarrow> IndexOfAccount list \<Rightarrow> InvokeContext \<Rightarrow> unit outcome" where
  "verify_callee is_top_level_instruction ias program_indices self =
     (if early_verification self then (Inr (), self)
      else if is_top_level_instruction then lift_fault (InvokeContext_verify ias program_indices self)
      else lift_fault (verify_and_update ias False self))"

definition process_instruction ::
    "BuiltinProgram list \<Rightarrow> bytes \<Rightarrow> InstructionAccount list \<Rightarrow> IndexOfAccount list \<Rightarrow> InvokeContext
       \<Rightarrow> unit outcome \<times> u64" where
  "process_instruction builtin_programs input ias program_indices self =
     (let is_top_level_instruction = (get_instruction_context_stack_height (transaction_context self) = 0) in
      case
        then_do
          (if \<not> is_top_level_instruction \<and> \<not> early_verification self
           then lift_fault (verify_and_update ias True self) else (Inr (), self)) (\<lambda>_ self.
        then_do (faulty (update_next_instruction_context (transaction_context self)
                   (configure program_indices ias input)), self) (\<lambda>tc self.
        InvokeContext_push (self\<lparr>transaction_context := tc\<rparr>)))
      of
        (Inl e, self) \<Rightarrow> ((Inl e, self), 0)
      | (Inr _, self) \<Rightarrow>
          let (result, compute_units_consumed) = process_executable_chain builtin_programs self
          in (and_pop (then_do result (\<lambda>_ self. verify_callee is_top_level_instruction ias program_indices self)),
              compute_units_consumed))"

definition native_invoke ::
    "UpgradeableLoaderState bincode \<Rightarrow> BuiltinProgram list \<Rightarrow> Instruction \<Rightarrow> pubkey list \<Rightarrow> InvokeContext
       \<Rightarrow> unit outcome" where
  "native_invoke bc builtin_programs instruction signers self =
     (case prepare_instruction bc instruction signers self of
        Inl e \<Rightarrow> (Inl (Fault e), self)
      | Inr (ias, program_indices) \<Rightarrow>
          fst (process_instruction builtin_programs (ix_data instruction) ias program_indices self))"

end
