(* ===== verification/InvokePrivileges.thy ===== *)
theory InvokePrivileges
  imports InvokeContext
begin

text \<open>
  The privileges of an inner instruction (\<open>prepare_instruction\<close> of
  \<^verbatim>\<open>program-runtime/src/invoke_context.rs\<close>).  The quadratic loop that removes duplicates and
  unites their privileges is compared with a definition that says what an account of the inner
  instruction is, and the checks against the caller are shown to leave no way to a privilege the
  caller does not have.
\<close>

section \<open>The accounts of an inner instruction\<close>

definition united ::
    "InstructionContext \<Rightarrow> TransactionContext \<Rightarrow> AccountMeta list \<Rightarrow> pubkey \<Rightarrow> InstructionAccount" where
  "united ic tc metas k =
     \<lparr>ia_index_in_transaction = the (find_index_of_account tc k),
      ia_index_in_caller = the (find_index_of_instruction_account ic tc k),
      ia_index_in_callee = of_nat (the (position (\<lambda>m. am_pubkey m = k) metas)),
      ia_is_signer = (\<exists>m \<in> set metas. am_pubkey m = k \<and> am_is_signer m),
      ia_is_writable = (\<exists>m \<in> set metas. am_pubkey m = k \<and> am_is_writable m)\<rparr>"

text \<open>The first occurrences in a list.\<close>

definition firsts :: "'a list \<Rightarrow> 'a list" where
  "firsts xs = rev (remdups (rev xs))"

lemma firsts_Nil [simp]: "firsts [] = []"
  by (simp add: firsts_def)

lemma firsts_snoc: "firsts (xs @ [x]) = (if x \<in> set xs then firsts xs else firsts xs @ [x])"
  by (simp add: firsts_def)

lemma set_firsts [simp]: "set (firsts xs) = set xs"
  by (simp add: firsts_def)

lemma distinct_firsts [simp]: "distinct (firsts xs)"
  by (simp add: firsts_def)

lemma position_append:
  "position P (xs @ ys) = (case position P xs of Some i \<Rightarrow> Some i | None \<Rightarrow> map_option (\<lambda>i. length xs + i) (position P ys))"
  by (induction xs; cases "position P ys") (auto split: option.splits)

lemma united_snoc_other: "am_pubkey m \<noteq> k \<Longrightarrow> united ic tc (ms @ [m]) k = united ic tc ms k"
  by (auto simp: united_def position_append split: option.splits)

lemma united_snoc_same:
  assumes "k \<in> am_pubkey ` set ms" and "am_pubkey m = k"
  shows "united ic tc (ms @ [m]) k =
    (united ic tc ms k)\<lparr>ia_is_signer := ia_is_signer (united ic tc ms k) \<or> am_is_signer m,
                        ia_is_writable := ia_is_writable (united ic tc ms k) \<or> am_is_writable m\<rparr>"
proof -
  have "position (\<lambda>m. am_pubkey m = k) ms \<noteq> None"
    using assms(1) by (auto simp: position_None_iff)
  then show ?thesis using assms(2) by (auto simp: united_def position_append)
qed

lemma united_snoc_new:
  assumes "am_pubkey m \<notin> am_pubkey ` set ms"
  shows "united ic tc (ms @ [m]) (am_pubkey m) =
    \<lparr>ia_index_in_transaction = the (find_index_of_account tc (am_pubkey m)),
     ia_index_in_caller = the (find_index_of_instruction_account ic tc (am_pubkey m)),
     ia_index_in_callee = of_nat (length ms), ia_is_signer = am_is_signer m, ia_is_writable = am_is_writable m\<rparr>"
proof -
  have old: "am_pubkey m' \<noteq> am_pubkey m" if "m' \<in> set ms" for m'
    using assms that by (metis image_eqI)
  then have "position (\<lambda>m'. am_pubkey m' = am_pubkey m) ms = None" by (simp add: position_None_iff)
  then show ?thesis using old by (auto simp: united_def position_append)
qed

text \<open>The index of an account in the transaction determines its key.\<close>

lemma find_index_of_account_key:
  assumes "find_index_of_account tc k = Some i" and "length (account_keys tc) \<le> 2 ^ 16"
  shows "get (account_keys tc) (unat i) = Some k"
proof -
  from assms(1) obtain n where n: "position (\<lambda>key. key = k) (account_keys tc) = Some n" "i = of_nat n"
    by (auto simp: find_index_of_account_def)
  from position_Some [OF n(1)] have "n < length (account_keys tc)" "account_keys tc ! n = k" by auto
  moreover from this(1) assms(2) have "unat i = n" by (simp add: n(2) unat_of_nat take_bit_nat_eq_self)
  ultimately show ?thesis by (simp add: get_def)
qed

lemma find_index_of_account_inj:
  "\<lbrakk>find_index_of_account tc k = Some i; find_index_of_account tc k' = Some i; length (account_keys tc) \<le> 2 ^ 16\<rbrakk>
     \<Longrightarrow> k = k'"
  by (metis find_index_of_account_key option.inject)

text \<open>What the loop has built after the accounts \<open>ms\<close>.\<close>

definition deduplicated ::
    "InstructionContext \<Rightarrow> TransactionContext \<Rightarrow> AccountMeta list \<Rightarrow> InstructionAccount list \<Rightarrow> nat list \<Rightarrow> bool" where
  "deduplicated ic tc ms dedup indices \<longleftrightarrow>
     dedup = map (united ic tc ms) (firsts (map am_pubkey ms)) \<and>
     (\<forall>m \<in> set ms. find_index_of_account tc (am_pubkey m) \<noteq> None \<and>
                   find_index_of_instruction_account ic tc (am_pubkey m) \<noteq> None) \<and>
     list_all2 (\<lambda>n m. n < length dedup \<and> firsts (map am_pubkey ms) ! n = am_pubkey m) indices ms"

lemma deduplicated_old:
  assumes inv: "deduplicated ic tc ms dedup indices" and len: "length (account_keys tc) \<le> 2 ^ 16"
    and i: "find_index_of_account tc (am_pubkey m) = Some i"
    and n: "position (\<lambda>ia. ia_index_in_transaction ia = i) dedup = Some n"
  shows "deduplicated ic tc (ms @ [m])
    (dedup[n := (dedup ! n)\<lparr>ia_is_signer := ia_is_signer (dedup ! n) \<or> am_is_signer m,
                            ia_is_writable := ia_is_writable (dedup ! n) \<or> am_is_writable m\<rparr>])
    (indices @ [n])"
proof -
  let ?ks = "firsts (map am_pubkey ms)"
  from inv have dedup: "dedup = map (united ic tc ms) ?ks" by (simp add: deduplicated_def)
  from position_Some [OF n] have lt: "n < length ?ks" and idx: "ia_index_in_transaction (dedup ! n) = i"
    by (auto simp: dedup)
  have "?ks ! n \<in> set (map am_pubkey ms)" using lt by (metis nth_mem set_firsts)
  then have "find_index_of_account tc (?ks ! n) = Some i"
    using inv idx lt by (auto simp: deduplicated_def dedup united_def)
  then have key: "?ks ! n = am_pubkey m" using find_index_of_account_inj [OF _ i len] by blast
  have old: "am_pubkey m \<in> set (map am_pubkey ms)"
    using \<open>?ks ! n \<in> set (map am_pubkey ms)\<close> by (simp add: key)
  then have firsts: "firsts (map am_pubkey (ms @ [m])) = ?ks" by (simp add: firsts_snoc)
  have "dedup[n := (dedup ! n)\<lparr>ia_is_signer := ia_is_signer (dedup ! n) \<or> am_is_signer m,
       ia_is_writable := ia_is_writable (dedup ! n) \<or> am_is_writable m\<rparr>] = map (united ic tc (ms @ [m])) ?ks"
  proof (rule nth_equalityI)
    fix j assume "j < length (dedup[n := (dedup ! n)\<lparr>ia_is_signer := ia_is_signer (dedup ! n) \<or> am_is_signer m,
       ia_is_writable := ia_is_writable (dedup ! n) \<or> am_is_writable m\<rparr>])"
    then have j: "j < length ?ks" by (simp add: dedup)
    show "dedup[n := (dedup ! n)\<lparr>ia_is_signer := ia_is_signer (dedup ! n) \<or> am_is_signer m,
       ia_is_writable := ia_is_writable (dedup ! n) \<or> am_is_writable m\<rparr>] ! j = map (united ic tc (ms @ [m])) ?ks ! j"
    proof (cases "j = n")
      case True
      then show ?thesis
        using lt united_snoc_same [of "am_pubkey m" ms m] old by (simp add: dedup key)
    next
      case False
      then have "?ks ! j \<noteq> am_pubkey m"
        using nth_eq_iff_index_eq [OF distinct_firsts j lt] key by simp
      then show ?thesis using False j by (simp add: dedup united_snoc_other)
    qed
  qed (simp add: dedup)
  then show ?thesis
    using inv lt key i old unfolding deduplicated_def firsts
    by (auto intro!: list_all2_appendI)
qed

lemma deduplicated_new:
  assumes inv: "deduplicated ic tc ms dedup indices"
    and i: "find_index_of_account tc (am_pubkey m) = Some i"
    and c: "find_index_of_instruction_account ic tc (am_pubkey m) = Some c"
    and n: "position (\<lambda>ia. ia_index_in_transaction ia = i) dedup = None"
  shows "deduplicated ic tc (ms @ [m])
    (dedup @ [\<lparr>ia_index_in_transaction = i, ia_index_in_caller = c, ia_index_in_callee = of_nat (length ms),
       ia_is_signer = am_is_signer m, ia_is_writable = am_is_writable m\<rparr>])
    (indices @ [length dedup])"
proof -
  let ?ks = "firsts (map am_pubkey ms)"
  from inv have dedup: "dedup = map (united ic tc ms) ?ks" by (simp add: deduplicated_def)
  have new: "am_pubkey m \<notin> set (map am_pubkey ms)"
  proof
    assume "am_pubkey m \<in> set (map am_pubkey ms)"
    then have "united ic tc ms (am_pubkey m) \<in> set dedup" by (simp add: dedup)
    with n i show False by (auto simp: position_None_iff united_def)
  qed
  then have firsts: "firsts (map am_pubkey (ms @ [m])) = ?ks @ [am_pubkey m]" by (simp add: firsts_snoc)
  have "map (united ic tc (ms @ [m])) ?ks = dedup"
    using new by (auto simp: dedup intro!: united_snoc_other)
  moreover have "list_all2 (\<lambda>n m'. n < Suc (length dedup) \<and> (?ks @ [am_pubkey m]) ! n = am_pubkey m') indices ms"
    using inv by (auto simp: deduplicated_def dedup nth_append elim!: list_all2_mono)
  ultimately show ?thesis
    using inv i c new unfolding deduplicated_def firsts
    by (auto simp: united_snoc_new dedup intro!: list_all2_appendI)
qed

lemma deduplicate_Inr:
  assumes "deduplicate ic tc (enumerate (length ms) rest) dedup indices = Inr (dedup', indices')"
    and "deduplicated ic tc ms dedup indices" and "length (account_keys tc) \<le> 2 ^ 16"
  shows "deduplicated ic tc (ms @ rest) dedup' indices'"
  using assms(1,2)
proof (induction rest arbitrary: ms dedup indices)
  case Nil
  then show ?case by simp
next
  case (Cons m rest)
  from Cons.prems(1) obtain i where i: "find_index_of_account tc (am_pubkey m) = Some i"
    by (auto simp: result_simps)
  have IH: "deduplicated ic tc (ms @ m # rest) dedup' indices'"
    if "deduplicate ic tc (enumerate (length (ms @ [m])) rest) d ns = Inr (dedup', indices')"
      and "deduplicated ic tc (ms @ [m]) d ns" for d ns
    using Cons.IH [OF that] by simp
  show ?case
  proof (cases "position (\<lambda>ia. ia_index_in_transaction ia = i) dedup")
    case None
    with Cons.prems(1) i obtain c where c: "find_index_of_instruction_account ic tc (am_pubkey m) = Some c"
      by (auto simp: result_simps)
    show ?thesis
      using Cons.prems(1) None i c by (intro IH [OF _ deduplicated_new [OF Cons.prems(2) i c None]]) simp
  next
    case (Some n)
    then have "get dedup n = Some (dedup ! n)" by (auto simp: get_def dest: position_Some)
    then show ?thesis
      using Cons.prems(1) Some i
      by (intro IH [OF _ deduplicated_old [OF Cons.prems(2) assms(3) i Some]]) simp
  qed
qed

lemma expand_duplicates_Inr:
  "expand_duplicates dedup ns = Inr ias \<Longrightarrow> ias = map ((!) dedup) ns"
  by (induction ns arbitrary: ias) (auto simp: result_simps)

lemma expanded:
  assumes "deduplicated ic tc ms dedup ns" and "expand_duplicates dedup ns = Inr ias"
  shows "ias = map (\<lambda>m. united ic tc ms (am_pubkey m)) ms"
proof -
  let ?ks = "firsts (map am_pubkey ms)"
  from assms(1) have dedup: "dedup = map (united ic tc ms) ?ks"
    and all: "list_all2 (\<lambda>n m. n < length dedup \<and> ?ks ! n = am_pubkey m) ns ms"
    unfolding deduplicated_def by blast+
  from all have "map ((!) dedup) ns = map (\<lambda>m. united ic tc ms (am_pubkey m)) ms"
    by (auto simp: list_all2_conv_all_nth dedup intro!: nth_equalityI)
  then show ?thesis using expand_duplicates_Inr [OF assms(2)] by simp
qed

section \<open>No privilege beyond the caller's\<close>

lemma borrowed_privileges:
  assumes "try_borrow_instruction_account ic tc i = Inr (ba, tc1)" and "accounts_fit ic"
  shows "\<exists>ia. get (instruction_accounts ic) (unat i) = Some ia \<and> is_writable ba = ia_is_writable ia \<and>
     is_signer ba = ia_is_signer ia \<and> ba_index_in_transaction ba = ia_index_in_transaction ia"
proof -
  from assms(1) obtain ia where ia: "get (instruction_accounts ic) (unat i) = Some ia"
    and ba: "ba = \<lparr>ba_instruction_context = ic, ba_index_in_transaction = ia_index_in_transaction ia,
       ba_index_in_instruction = saturating_add (get_number_of_program_accounts ic) i\<rparr>"
    by (auto simp: try_borrow_instruction_account_def try_borrow_account_def ic_access_defs
        result_simps Let_def split: if_splits)
  have n: "unat (get_number_of_program_accounts ic) = length (program_accounts ic)"
    using assms(2) by (simp add: get_number_of_program_accounts_def accounts_fit_def unat_of_nat)
  have sum: "unat (saturating_add (get_number_of_program_accounts ic) i) = length (program_accounts ic) + unat i"
    using ia assms(2) n by (simp add: unat_saturating_add accounts_fit_def get_eq_Some_iff)
  then have "saturating_sub (saturating_add (get_number_of_program_accounts ic) i)
      (get_number_of_program_accounts ic) = i"
    by (simp add: word_unat_eq_iff unat_saturating_sub n)
  then show ?thesis
    using ia sum n
    by (auto simp: ba is_writable_def is_signer_def Let_def unwrap_or_false_def word_less_nat_alt ic_access_defs)
qed

lemma check_privileges_Inr:
  assumes "check_privileges ic tc signers ias = Inr ()" and "accounts_fit ic" and "ia \<in> set ias"
  shows "\<exists>ca. get (instruction_accounts ic) (unat (ia_index_in_caller ia)) = Some ca \<and>
     (ia_is_writable ia \<longrightarrow> ia_is_writable ca) \<and>
     (ia_is_signer ia \<longrightarrow> ia_is_signer ca \<or> account_keys tc ! unat (ia_index_in_transaction ca) \<in> set signers)"
  using assms(1,3)
proof (induction ias)
  case (Cons ia' ias)
  from Cons.prems(1) obtain ba tc1 where
    ba: "try_borrow_instruction_account ic tc (ia_index_in_caller ia') = Inr (ba, tc1)"
    and checks: "ia_is_writable ia' \<longrightarrow> is_writable ba"
      "ia_is_signer ia' \<longrightarrow> is_signer ba \<or> ba_key ba tc1 \<in> set signers"
    and rest: "check_privileges ic tc signers ias = Inr ()"
    by (auto simp: result_simps split: if_splits)
  have key: "ba_key ba tc1 = account_keys tc ! unat (ba_index_in_transaction ba)"
    using try_borrow_instruction_account_Inr(4) [OF ba] by (simp add: ba_key_def set_cell_def)
  from borrowed_privileges [OF ba assms(2)] checks key Cons.IH [OF rest] Cons.prems(2) show ?case
    by auto
qed simp

lemma find_index_of_instruction_account_key:
  assumes "find_index_of_instruction_account ic tc k = Some c" and "accounts_fit ic"
  shows "\<exists>ca. get (instruction_accounts ic) (unat c) = Some ca \<and>
     get (account_keys tc) (unat (ia_index_in_transaction ca)) = Some k"
proof -
  from assms(1) obtain n where n: "position (\<lambda>ia. get (account_keys tc) (unat (ia_index_in_transaction ia)) = Some k)
      (instruction_accounts ic) = Some n" "c = of_nat n"
    by (auto simp: find_index_of_instruction_account_def)
  from position_Some [OF n(1)] have lt: "n < length (instruction_accounts ic)" by blast
  with assms(2) have "unat c = n" by (simp add: n(2) accounts_fit_def unat_of_nat take_bit_nat_eq_self)
  with position_Some [OF n(1)] show ?thesis by (auto simp: get_def)
qed

lemma find_program_indices_Inr:
  assumes "find_program_indices bc ic tc k = Inr is" and "accounts_fit ic"
  shows "\<exists>ca \<in> set (instruction_accounts ic).
    get (account_keys tc) (unat (ia_index_in_transaction ca)) = Some k \<and> is \<noteq> [] \<and>
    last is = ia_index_in_transaction ca \<and> executable (account_values tc ! unat (last is))"
proof -
  from assms(1) obtain c ba tc1 pis where
    c: "find_index_of_instruction_account ic tc k = Some c"
    and ba: "try_borrow_instruction_account ic tc c = Inr (ba, tc1)"
    and exe: "is_executable ba tc1" and "is": "is = pis @ [ba_index_in_transaction ba]"
    by (auto simp: find_program_indices_def result_simps split: if_splits)
  from find_index_of_instruction_account_key [OF c assms(2)] borrowed_privileges [OF ba assms(2)]
  obtain ca where ca: "get (instruction_accounts ic) (unat c) = Some ca"
    "get (account_keys tc) (unat (ia_index_in_transaction ca)) = Some k"
    "ba_index_in_transaction ba = ia_index_in_transaction ca"
    by auto
  have "executable (ba_account ba tc)" "in_range ba tc"
    using exe try_borrow_instruction_account_Inr [OF ba] by (simp_all add: is_executable_def)
  then have "executable (account_values tc ! unat (ia_index_in_transaction ca))"
    by (simp add: ba_account_values flip: ca(3))
  with ca show ?thesis by (auto simp: "is" get_eq_Some_iff intro!: bexI [of _ ca])
qed

text \<open>
  C23: An inner instruction has no privilege its caller does not have.  When
  \<open>prepare_instruction\<close> accepts an instruction, the accounts it passes are exactly those of the
  instruction, in order, duplicates carrying the union of their privileges and the index of their
  first occurrence; an account writable in the inner instruction is writable for the caller, an
  account that signs it signs for the caller or is one of the program's own signers; and the
  program to call is an executable account of the caller.
\<close>

theorem no_privilege_escalation:
  assumes "prepare_instruction bc instruction signers self = Inr (ias, program_indices)"
    and "get_current_instruction_context (transaction_context self) = Inr caller"
    and "accounts_fit caller" and "length (account_keys (transaction_context self)) \<le> 2 ^ 16"
  shows "let tc = transaction_context self; metas = ix_accounts instruction in
     ias = map (\<lambda>m. united caller tc metas (am_pubkey m)) metas \<and>
     (\<forall>ia \<in> set ias. \<exists>ca k. get (instruction_accounts caller) (unat (ia_index_in_caller ia)) = Some ca \<and>
        get (account_keys tc) (unat (ia_index_in_transaction ia)) = Some k \<and>
        get (account_keys tc) (unat (ia_index_in_transaction ca)) = Some k \<and>
        (ia_is_writable ia \<longrightarrow> ia_is_writable ca) \<and> (ia_is_signer ia \<longrightarrow> ia_is_signer ca \<or> k \<in> set signers)) \<and>
     (\<exists>ca \<in> set (instruction_accounts caller).
        get (account_keys tc) (unat (ia_index_in_transaction ca)) = Some (ix_program_id instruction) \<and>
        program_indices \<noteq> [] \<and> last program_indices = ia_index_in_transaction ca \<and>
        executable (account_values tc ! unat (last program_indices)))"
proof -
  define tc where "tc = transaction_context self"
  define metas where "metas = ix_accounts instruction"
  from assms(1,2) obtain dedup ns where
    loop: "deduplicate caller tc (enumerate (length ([] :: AccountMeta list)) metas) [] [] = Inr (dedup, ns)"
    and checks: "check_privileges caller tc signers dedup = Inr ()"
    and expand: "expand_duplicates dedup ns = Inr ias"
    and program: "find_program_indices bc caller tc (ix_program_id instruction) = Inr program_indices"
    by (auto simp: prepare_instruction_def Let_def result_simps tc_def metas_def)
  have "deduplicated caller tc [] [] []" by (simp add: deduplicated_def)
  from deduplicate_Inr [OF loop this] assms(4) have dd: "deduplicated caller tc metas dedup ns"
    by (simp add: tc_def)
  then have ias: "ias = map (\<lambda>m. united caller tc metas (am_pubkey m)) metas" using expand by (rule expanded)
  have "\<exists>ca k. get (instruction_accounts caller) (unat (ia_index_in_caller ia)) = Some ca \<and>
        get (account_keys tc) (unat (ia_index_in_transaction ia)) = Some k \<and>
        get (account_keys tc) (unat (ia_index_in_transaction ca)) = Some k \<and>
        (ia_is_writable ia \<longrightarrow> ia_is_writable ca) \<and> (ia_is_signer ia \<longrightarrow> ia_is_signer ca \<or> k \<in> set signers)"
    if ia: "ia \<in> set ias" for ia
  proof -
    from ia obtain m where m: "m \<in> set metas" "ia = united caller tc metas (am_pubkey m)" by (auto simp: ias)
    with dd obtain i c where i: "find_index_of_account tc (am_pubkey m) = Some i" "ia_index_in_transaction ia = i"
      and c: "find_index_of_instruction_account caller tc (am_pubkey m) = Some c" "ia_index_in_caller ia = c"
      by (auto simp: deduplicated_def united_def)
    have "ia \<in> set dedup" using dd m by (simp add: deduplicated_def)
    from check_privileges_Inr [OF checks assms(3) this] find_index_of_instruction_account_key [OF c(1) assms(3)]
      find_index_of_account_key [OF i(1)] assms(4) i(2) c(2)
    show ?thesis by (auto simp: tc_def get_eq_Some_iff)
  qed
  with ias find_program_indices_Inr [OF program assms(3)] show ?thesis
    unfolding Let_def tc_def [symmetric] metas_def [symmetric] by blast
qed

text \<open>
  A caller with a writable signer, a program account and a read-only account invokes the program
  and passes the signer twice, once writable and once signing.
\<close>

definition sample_caller_tc :: TransactionContext where
  "sample_caller_tc =
     (TransactionContext_new
        [(7, (shared_new 1 0 0)\<lparr>executable := True\<rparr>), (8, shared_new 100 0 7), (9, shared_new 50 0 7),
         (5, (shared_new 1 0 0)\<lparr>executable := True\<rparr>)] (Some Rent_default) 5 64)
       \<lparr>instruction_trace :=
          [configure [0]
             [\<lparr>ia_index_in_transaction = 1, ia_index_in_caller = 1, ia_index_in_callee = 0,
               ia_is_signer = True, ia_is_writable = True\<rparr>,
              \<lparr>ia_index_in_transaction = 3, ia_index_in_caller = 3, ia_index_in_callee = 1,
               ia_is_signer = False, ia_is_writable = False\<rparr>] [] InstructionContext_default,
           InstructionContext_default],
        instruction_stack := [0]\<rparr>"

definition sample_budget_env :: InvokeEnv where
  "sample_budget_env =
     \<lparr>sysvar_cache = SysvarCache_default, feature_set = (\<lambda>_. Some 0), blockhash = 0, lamports_per_signature = 0\<rparr>"

definition sample_caller :: InvokeContext where
  "sample_caller = InvokeContext_new sample_caller_tc Rent_default sample_budget_env ComputeBudget_default 0"

definition sample_inner :: Instruction where
  "sample_inner =
     \<lparr>ix_program_id = 5,
      ix_accounts = [\<lparr>am_pubkey = 8, am_is_signer = False, am_is_writable = True\<rparr>,
                     \<lparr>am_pubkey = 8, am_is_signer = True, am_is_writable = False\<rparr>],
      ix_data = []\<rparr>"

definition sample_loader_codec :: "UpgradeableLoaderState bincode" where
  "sample_loader_codec = \<lparr>bc_serialize = (\<lambda>_. None), bc_deserialize = (\<lambda>_. None)\<rparr>"

theorem no_privilege_escalation_witness:
  "\<exists>ias is. prepare_instruction sample_loader_codec sample_inner [] sample_caller = Inr (ias, is) \<and>
     length ias = 2 \<and> last is = 3 \<and> (\<forall>ia \<in> set ias. ia_is_signer ia \<and> ia_is_writable ia)"
proof -
  let ?tc = "transaction_context sample_caller"
  have run: "\<exists>ias is. prepare_instruction sample_loader_codec sample_inner [] sample_caller = Inr (ias, is)"
    and ic: "get_current_instruction_context ?tc = Inr (hd (instruction_trace sample_caller_tc))"
    by (simp_all add: sample_caller_def sample_caller_tc_def sample_inner_def InvokeContext_new_def
      prepare_instruction_def find_program_indices_def find_index_of_instruction_account_def exec
      bpf_loader_upgradeable_id_def)
  then obtain ias "is" where res: "prepare_instruction sample_loader_codec sample_inner [] sample_caller = Inr (ias, is)"
    by blast
  have fit: "accounts_fit (hd (instruction_trace sample_caller_tc))" "length (account_keys ?tc) \<le> 2 ^ 16"
    by (simp_all add: sample_caller_def sample_caller_tc_def InvokeContext_new_def accounts_fit_def exec)
  from no_privilege_escalation [OF res ic fit] res show ?thesis
    by (auto simp: Let_def sample_inner_def united_def sample_caller_def sample_caller_tc_def
      InvokeContext_new_def exec)
qed

end
