(* ===== verification/InvokeStack.thy ===== *)
theory InvokeStack
  imports InvokeContext
begin

text \<open>
  What processing an instruction does to the invocation stack and to the accounts data meter
  (\<^verbatim>\<open>program-runtime/src/invoke_context.rs\<close>), for any builtin programs, any result and any
  nesting of invocations.
\<close>

section \<open>Verification reads the transaction context\<close>

lemma snd_then_do: "snd (then_do m f) = (case fst m of Inl _ \<Rightarrow> snd m | Inr a \<Rightarrow> snd (f a (snd m)))"
  by (cases m; cases "fst m") auto

lemma meter_data_len_frame [simp]:
  "transaction_context (meter_data_len a pre self) = transaction_context self"
  "pre_accounts (meter_data_len a pre self) = pre_accounts self"
  "invoke_env (meter_data_len a pre self) = invoke_env self"
  "invoke_rent (meter_data_len a pre self) = invoke_rent self"
  by (simp_all add: meter_data_len_def)

lemma verify_loop_tc: "transaction_context (snd (verify_loop pid xs a b n self)) = transaction_context self"
  by (induction pid xs a b n self rule: verify_loop.induct) (auto simp: snd_then_do Let_def split: sum.splits)

lemma verify_and_update_loop_tc:
  "transaction_context (snd (verify_and_update_loop ic pid before xs a b self)) = transaction_context self"
proof (induction xs arbitrary: before a b self)
  case (Cons x xs)
  obtain i ia where "x = (i, ia)" by (cases x)
  then show ?case by (simp add: snd_then_do Let_def Cons.IH split: sum.split option.split)
qed simp

lemma InvokeContext_verify_tc:
  "transaction_context (snd (InvokeContext_verify ias is self)) = transaction_context self"
  by (auto simp: InvokeContext_verify_def snd_then_do verify_loop_tc split: sum.splits prod.splits)

lemma verify_and_update_tc: "transaction_context (snd (verify_and_update ias b self)) = transaction_context self"
  by (auto simp: verify_and_update_def snd_then_do verify_and_update_loop_tc split: sum.splits prod.splits)

lemma verify_callee_tc: "transaction_context (snd (verify_callee t ias is self)) = transaction_context self"
  by (simp add: verify_callee_def lift_fault_def InvokeContext_verify_tc verify_and_update_tc)

lemma take_pre_accounts_tc: "transaction_context (snd (take_pre_accounts ic is self)) = transaction_context self"
  by (induction ic "is" self rule: take_pre_accounts.induct) (auto simp: snd_then_do split: sum.splits)

section \<open>The accounts data meter\<close>

definition meter_ok :: "InvokeContext \<Rightarrow> bool" where
  "meter_ok self \<longleftrightarrow> i64_min \<le> adm_delta (accounts_data_meter self) \<and> adm_delta (accounts_data_meter self) \<le> i64_max"

lemma meter_same_length:
  assumes "length (data a) = length (data (pre_account pre))" and "meter_ok self"
  shows "meter_data_len a pre self = self"
  using assms
  by (simp add: meter_data_len_def adjust_delta_unchecked_def meter_ok_def i64_saturating_add_def
    i64_saturating_sub_def i64_clamp_def i64_min_def i64_max_def)

lemma verified_length:
  assumes "verify pre pid w rent a t outer = Inr t'"
  shows "length (data a) = length (data (pre_account (updated_pre w pre a)))"
proof (cases "w \<and> \<not> executable (pre_account pre)")
  case True
  then show ?thesis by (simp add: updated_pre_def update_def acct_set_rent_epoch_def)
next
  case False
  have "is_ok (verify pre pid w rent a t outer)" by (simp add: assms)
  then have "change_accepted pid w rent (pre_account pre) a" by (simp add: is_ok_verify)
  with False have "data (pre_account pre) = data a" by (auto simp: change_accepted_def)
  with False show ?thesis by (auto simp: updated_pre_def)
qed

lemma verify_and_update_loop_meter:
  "meter_ok self \<Longrightarrow>
     accounts_data_meter (snd (verify_and_update_loop ic pid before xs a b self)) = accounts_data_meter self"
proof (induction xs arbitrary: before a b self)
  case (Cons x xs)
  obtain i ia where x: "x = (i, ia)" by (cases x)
  have step: "meter_data_len acc (updated_pre w pre acc) s = s"
    if "verify pre pid w rent acc t False = Inr t'" "meter_ok s" for pre w rent acc t t' s
    using meter_same_length [OF verified_length [OF that(1)] that(2)] .
  have ok: "meter_ok (s\<lparr>timings := t\<rparr>) = meter_ok s" "meter_ok (s\<lparr>pre_accounts := ps\<rparr>) = meter_ok s" for s t ps
    by (simp_all add: meter_ok_def)
  show ?case
    using Cons.prems by (simp add: x snd_then_do Let_def Cons.IH step ok split: sum.split option.split)
qed simp

text \<open>
  C25: Growth of accounts during inner instructions is never metered.  \<open>verify_and_update\<close>,
  which verifies the caller before and the callee after an inner instruction, brings the copy of
  the account up to date before it computes by how much the data has grown, so the accounts data
  meter stays as it was, whatever the instruction did and whatever the verification returns.
\<close>

theorem inner_growth_not_metered:
  assumes "meter_ok self"
  shows "accounts_data_meter (snd (verify_and_update ias before self)) = accounts_data_meter self"
  using verify_and_update_loop_meter [OF assms]
  by (auto simp: verify_and_update_def snd_then_do split: sum.splits prod.splits)

text \<open>An account of the running program that grew from no data to three bytes.\<close>

definition sample_grown_tc :: TransactionContext where
  "sample_grown_tc =
     (TransactionContext_new [(7, shared_new 1 0 0), (8, shared_new 100 3 7)] None 5 64)
       \<lparr>instruction_trace :=
          [configure [0] [\<lparr>ia_index_in_transaction = 1, ia_index_in_caller = 0, ia_index_in_callee = 0,
             ia_is_signer = True, ia_is_writable = True\<rparr>] [] InstructionContext_default,
           InstructionContext_default],
        instruction_stack := [0]\<rparr>"

definition late_env :: InvokeEnv where
  "late_env =
     \<lparr>sysvar_cache = SysvarCache_default, feature_set = (\<lambda>_. None), blockhash = 0, lamports_per_signature = 0\<rparr>"

definition sample_grown :: InvokeContext where
  "sample_grown =
     (InvokeContext_new sample_grown_tc Rent_default late_env ComputeBudget_default 0)
       \<lparr>pre_accounts := [PreAccount_new 8 (shared_new 100 0 7)]\<rparr>"

theorem inner_growth_not_metered_witness:
  "meter_ok sample_grown \<and>
   fst (verify_and_update (instruction_accounts (hd (instruction_trace (transaction_context sample_grown)))) True
      sample_grown) = Inr () \<and>
   accounts_data_meter (snd (verify_and_update
      (instruction_accounts (hd (instruction_trace (transaction_context sample_grown)))) True sample_grown))
     = accounts_data_meter sample_grown"
proof -
  have "meter_ok sample_grown"
    by (simp add: meter_ok_def sample_grown_def InvokeContext_new_def AccountsDataMeter_new_def i64_min_def i64_max_def)
  moreover have "fst (verify_and_update (instruction_accounts (hd (instruction_trace (transaction_context sample_grown))))
      True sample_grown) = Inr ()"
    by (simp add: verify_and_update_def sample_grown_def sample_grown_tc_def InvokeContext_new_def PreAccount_new_def verify_def Let_def exec)
  ultimately show ?thesis using inner_growth_not_metered by blast
qed

section \<open>The stack is restored\<close>

text \<open>
  The context \<open>tc'\<close> has the stack of \<open>tc\<close> and the instructions that were in its trace, in good
  order; the trace may have grown by the instructions processed in between.
\<close>

definition returns :: "TransactionContext \<Rightarrow> TransactionContext \<Rightarrow> bool" where
  "returns tc tc' \<longleftrightarrow>
     stack_wf tc' \<and> instruction_stack tc' = instruction_stack tc \<and>
     get_instruction_trace_length tc \<le> get_instruction_trace_length tc' \<and>
     take (get_instruction_trace_length tc) (instruction_trace tc')
       = take (get_instruction_trace_length tc) (instruction_trace tc)"

definition keeps_stack :: "(InvokeContext \<Rightarrow> unit outcome) \<Rightarrow> bool" where
  "keeps_stack f \<longleftrightarrow>
     (\<forall>self. stack_wf (transaction_context self) \<longrightarrow> fst (f self) \<noteq> Inl Panic \<longrightarrow>
        returns (transaction_context self) (transaction_context (snd (f self))))"

lemma returns_refl: "stack_wf tc \<Longrightarrow> returns tc tc"
  by (simp add: returns_def)

lemma take_eq_le: "n \<le> m \<Longrightarrow> take m xs = take m ys \<Longrightarrow> take n xs = take n ys"
  by (metis min.absorb1 take_take)

lemma returns_trans: "returns a b \<Longrightarrow> returns b c \<Longrightarrow> returns a c"
  unfolding returns_def by (metis take_eq_le le_trans)

lemma returns_update_next:
  assumes "stack_wf tc" and "update_next_instruction_context tc f = Inr tc'"
  shows "returns tc tc'"
  using assms stack_wf_update_next [OF assms]
  by (auto simp: returns_def update_next_instruction_context_def get_instruction_trace_length_def
      butlast_conv_take split: if_splits)

text \<open>One frame more, for the entry the trace had reserved.\<close>

definition pushed :: "TransactionContext \<Rightarrow> TransactionContext \<Rightarrow> bool" where
  "pushed tc tc' \<longleftrightarrow>
     stack_wf tc' \<and> instruction_stack tc' = instruction_stack tc @ [get_instruction_trace_length tc] \<and>
     get_instruction_trace_length tc \<le> get_instruction_trace_length tc' \<and>
     take (get_instruction_trace_length tc) (instruction_trace tc')
       = take (get_instruction_trace_length tc) (instruction_trace tc)"

lemma push_returns:
  assumes "stack_wf tc"
  shows "case fst (push tc) of Inl _ \<Rightarrow> returns tc (snd (push tc)) | Inr _ \<Rightarrow> pushed tc (snd (push tc))"
proof -
  have ne: "instruction_trace tc \<noteq> []" using assms by (simp add: stack_wf_def)
  then show ?thesis
    using stack_wf_push [OF assms] assms
    by (auto simp: returns_def pushed_def push_def Let_def update_next_instruction_context_def
        get_instruction_context_stack_height_def get_instruction_trace_length_def butlast_conv_take
        split: sum.splits)
qed

lemma returns_popped:
  assumes "returns tc a" and "pushed a b" and "returns b c"
  shows "returns tc (snd (pop c))"
proof -
  have "returns a (snd (pop c))"
    using assms(2,3) stack_wf_pop [of c] snd_pop [of c] take_eq_le
    by (fastforce simp: returns_def pushed_def get_instruction_trace_length_def)
  with assms(1) show ?thesis by (rule returns_trans)
qed

lemma pushed_trans: "returns a b \<Longrightarrow> get_instruction_trace_length b = get_instruction_trace_length a \<Longrightarrow>
    pushed b c \<Longrightarrow> pushed a c"
  by (simp add: returns_def pushed_def)

lemma fst_then_do: "fst (then_do m f) = (case fst m of Inl e \<Rightarrow> Inl e | Inr a \<Rightarrow> fst (f a (snd m)))"
  by (cases m; cases "fst m") auto

lemma enter_frame_tc: "transaction_context (snd (enter_frame ic pid self)) = transaction_context self"
  by (simp add: enter_frame_def Let_def take_pre_accounts_tc)

lemma InvokeContext_push_returns:
  assumes wf: "stack_wf (transaction_context self)"
  shows "case fst (InvokeContext_push self) of
      Inl _ \<Rightarrow> returns (transaction_context self) (transaction_context (snd (InvokeContext_push self)))
    | Inr _ \<Rightarrow> pushed (transaction_context self) (transaction_context (snd (InvokeContext_push self)))"
  using push_returns [OF wf] returns_refl [OF wf]
  by (auto simp: InvokeContext_push_def fst_then_do snd_then_do enter_frame_tc case_prod_beta Let_def
      split: sum.splits)

lemma InvokeContext_pop_tc: "transaction_context (snd (InvokeContext_pop self)) = snd (pop (transaction_context self))"
  by (simp add: InvokeContext_pop_def case_prod_beta Let_def)

lemma returns_return_data: "returns tc tc' \<Longrightarrow> returns tc (set_return_data tc' k d)"
  by (auto simp: returns_def set_return_data_def stack_wf_def get_instruction_trace_length_def)

text \<open>Either a builtin program is found and called, or the chain ends with an error.\<close>

lemma process_executable_chain_cases:
  obtains (run) ic first k entry pid where
      "root_program self = Inr (ic, first, k)" "entry \<in> set builtins" "bp_program_id entry = k"
      "get_last_program_key ic (transaction_context self) = Inr pid"
      "fst (process_executable_chain builtins self) = bp_process_instruction entry first
         (self\<lparr>transaction_context := set_return_data (transaction_context self) pid []\<rparr>)"
  | (error) e where "fst (process_executable_chain builtins self) = (Inl (Fault e), self)"
proof (cases "root_program self")
  case (Inl e)
  then have "fst (process_executable_chain builtins self) = (Inl (Fault e), self)"
    by (simp add: process_executable_chain_def)
  then show ?thesis by (rule error)
next
  case (Inr x)
  obtain ic first k where x: "x = (ic, first, k)" by (cases x)
  show ?thesis
  proof (cases "find (\<lambda>entry. bp_program_id entry = k) builtins")
    case None
    with Inr x have "fst (process_executable_chain builtins self) = (Inl (Fault UnsupportedProgramId), self)"
      by (simp add: process_executable_chain_def)
    then show ?thesis by (rule error)
  next
    case (Some entry)
    then have entry: "entry \<in> set builtins" "bp_program_id entry = k"
      by (auto simp: find_Some_iff)
    show ?thesis
    proof (cases "get_last_program_key ic (transaction_context self)")
      case (Inl e)
      with Inr x Some have "fst (process_executable_chain builtins self) = (Inl (Fault e), self)"
        by (simp add: process_executable_chain_def)
      then show ?thesis by (rule error)
    next
      case pid: (Inr pid)
      with Inr x Some have "fst (process_executable_chain builtins self) = bp_process_instruction entry first
          (self\<lparr>transaction_context := set_return_data (transaction_context self) pid []\<rparr>)"
        by (simp add: process_executable_chain_def Let_def case_prod_beta)
      with Inr x entry pid show ?thesis by (intro run) simp_all
    qed
  qed
qed

lemma keeps_stackD:
  "\<lbrakk>keeps_stack f; stack_wf (transaction_context self); fst (f self) \<noteq> Inl Panic\<rbrakk>
     \<Longrightarrow> returns (transaction_context self) (transaction_context (snd (f self)))"
  by (simp add: keeps_stack_def)

lemma process_executable_chain_returns:
  assumes "\<forall>entry \<in> set builtins. \<forall>first. keeps_stack (bp_process_instruction entry first)"
  shows "keeps_stack (\<lambda>self. fst (process_executable_chain builtins self))"
  unfolding keeps_stack_def
proof (intro allI impI)
  fix self
  assume wf: "stack_wf (transaction_context self)"
    and np: "fst (fst (process_executable_chain builtins self)) \<noteq> Inl Panic"
  show "returns (transaction_context self) (transaction_context (snd (fst (process_executable_chain builtins self))))"
  proof (cases rule: process_executable_chain_cases [of self builtins])
    case (run ic first k entry pid)
    let ?self = "self\<lparr>transaction_context := set_return_data (transaction_context self) pid []\<rparr>"
    have ret: "returns (transaction_context self) (transaction_context ?self)"
      using returns_return_data [OF returns_refl [OF wf]] by simp
    then have "stack_wf (transaction_context ?self)" by (simp only: returns_def)
    from keeps_stackD [OF _ this] assms run(2,5) np
    have "returns (transaction_context ?self) (transaction_context (snd (bp_process_instruction entry first ?self)))"
      by simp
    with ret show ?thesis unfolding run(5) by (rule returns_trans)
  next
    case (error e)
    then show ?thesis using returns_refl [OF wf] by simp
  qed
qed

lemma and_pop_cases:
  assumes "fst (and_pop (r, self)) \<noteq> Inl Panic"
  shows "r \<noteq> Inl Panic \<and> transaction_context (snd (and_pop (r, self))) = snd (pop (transaction_context self))"
proof (cases r)
  case (Inl e)
  with assms show ?thesis by (cases e) (simp_all add: and_pop_def InvokeContext_pop_tc)
next
  case (Inr u)
  then show ?thesis by (simp add: and_pop_def InvokeContext_pop_tc)
qed

text \<open>The steps before the program runs, as one.\<close>

definition enter_instruction ::
    "bytes \<Rightarrow> InstructionAccount list \<Rightarrow> IndexOfAccount list \<Rightarrow> InvokeContext \<Rightarrow> unit outcome" where
  "enter_instruction input ias is self =
     then_do
       (if get_instruction_context_stack_height (transaction_context self) \<noteq> 0 \<and> \<not> early_verification self
        then lift_fault (verify_and_update ias True self) else (Inr (), self)) (\<lambda>_ self.
     then_do (faulty (update_next_instruction_context (transaction_context self)
                (configure is ias input)), self) (\<lambda>tc self.
     InvokeContext_push (self\<lparr>transaction_context := tc\<rparr>)))"

lemma process_instruction_eq:
  "fst (process_instruction builtins input ias is self) =
     (case enter_instruction input ias is self of
        (Inl e, self1) \<Rightarrow> (Inl e, self1)
      | (Inr _, self1) \<Rightarrow>
          and_pop (then_do (fst (process_executable_chain builtins self1))
            (\<lambda>_ self2. verify_callee (get_instruction_context_stack_height (transaction_context self) = 0) ias is self2)))"
  by (simp add: process_instruction_def enter_instruction_def Let_def case_prod_beta split: prod.split sum.split)

lemma enter_instruction_returns:
  assumes wf: "stack_wf (transaction_context self)"
  shows "case enter_instruction input ias is self of
      (Inl _, self1) \<Rightarrow> returns (transaction_context self) (transaction_context self1)
    | (Inr _, self1) \<Rightarrow> (\<exists>tc1. returns (transaction_context self) tc1 \<and> pushed tc1 (transaction_context self1))"
proof -
  define m where "m = (if get_instruction_context_stack_height (transaction_context self) \<noteq> 0 \<and> \<not> early_verification self
        then lift_fault (verify_and_update ias True self) else (Inr (), self))"
  have m: "transaction_context (snd m) = transaction_context self"
    by (simp add: m_def lift_fault_def verify_and_update_tc)
  have enter: "enter_instruction input ias is self = then_do (fst m, snd m) (\<lambda>_ self.
     then_do (faulty (update_next_instruction_context (transaction_context self)
                (configure is ias input)), self) (\<lambda>tc self.
     InvokeContext_push (self\<lparr>transaction_context := tc\<rparr>)))"
    by (simp only: enter_instruction_def m_def prod.collapse)
  show ?thesis
  proof (cases "fst m")
    case (Inl e)
    then have "enter_instruction input ias is self = (Inl e, snd m)" by (simp add: enter)
    then show ?thesis using returns_refl [OF wf] by (simp add: m)
  next
    case (Inr u)
    define upd where "upd = update_next_instruction_context (transaction_context self) (configure is ias input)"
    have eq: "enter_instruction input ias is self =
        then_do (faulty upd, snd m) (\<lambda>tc self. InvokeContext_push (self\<lparr>transaction_context := tc\<rparr>))"
      using Inr by (simp add: enter upd_def m)
    show ?thesis
    proof (cases upd)
      case Inl
      then show ?thesis using returns_refl [OF wf] by (simp add: eq m)
    next
      case (Inr tc1)
      then have ret: "returns (transaction_context self) tc1"
        using returns_update_next [OF wf] by (simp add: upd_def)
      then have "stack_wf tc1" by (simp add: returns_def)
      with InvokeContext_push_returns [of "(snd m)\<lparr>transaction_context := tc1\<rparr>"] ret Inr show ?thesis
        by (auto simp: eq intro: returns_trans split: sum.splits prod.splits)
    qed
  qed
qed

text \<open>
  C24: Processing an instruction restores the invocation stack.  If every builtin program leaves
  the stack as it found it, then so does \<open>process_instruction\<close>, and with it every invocation a
  program makes: whatever the result short of a panic, afterwards the stack is the one before,
  within its capacity and in good order, and the instructions in the trace are kept.
\<close>

theorem process_instruction_restores_stack:
  assumes programs: "\<forall>entry \<in> set builtins. \<forall>first. keeps_stack (bp_process_instruction entry first)"
  shows "keeps_stack (\<lambda>self. fst (process_instruction builtins input ias is self))"
  unfolding keeps_stack_def
proof (intro allI impI)
  fix self
  assume wf: "stack_wf (transaction_context self)"
    and np: "fst (fst (process_instruction builtins input ias is self)) \<noteq> Inl Panic"
  obtain r self1 where enter: "enter_instruction input ias is self = (r, self1)" by fastforce
  show "returns (transaction_context self)
      (transaction_context (snd (fst (process_instruction builtins input ias is self))))"
  proof (cases r)
    case Inl
    then show ?thesis
      using enter_instruction_returns [OF wf, of input ias "is"] by (simp add: process_instruction_eq enter)
  next
    case (Inr u)
    define chain where "chain = fst (process_executable_chain builtins self1)"
    define res where "res = then_do chain (\<lambda>_ self2.
      verify_callee (get_instruction_context_stack_height (transaction_context self) = 0) ias is self2)"
    have eq: "fst (process_instruction builtins input ias is self) = and_pop res"
      using Inr by (simp add: process_instruction_eq enter chain_def res_def)
    from enter_instruction_returns [OF wf, of input ias "is"] Inr obtain tc1 where
      tc1: "returns (transaction_context self) tc1" "pushed tc1 (transaction_context self1)"
      by (auto simp: enter)
    have res: "fst res \<noteq> Inl Panic"
      "transaction_context (snd (and_pop res)) = snd (pop (transaction_context (snd res)))"
      using and_pop_cases [of "fst res" "snd res"] np by (simp_all add: eq)
    from res(1) have "fst chain \<noteq> Inl Panic" by (auto simp: res_def fst_then_do)
    then have "returns (transaction_context self1) (transaction_context (snd chain))"
      using process_executable_chain_returns [OF programs] tc1(2)
      by (simp add: keeps_stack_def chain_def pushed_def)
    moreover have "transaction_context (snd res) = transaction_context (snd chain)"
      by (cases "fst chain") (simp_all add: res_def snd_then_do verify_callee_tc)
    ultimately show ?thesis
      using returns_popped [OF tc1] res(2) by (simp add: eq)
  qed
qed

text \<open>A program that does nothing, called with the growing account of above.\<close>

definition noop_program :: BuiltinProgram where
  "noop_program = \<lparr>bp_program_id = 0, bp_process_instruction = (\<lambda>_ self. (Inr (), self))\<rparr>"

definition sample_fresh :: InvokeContext where
  "sample_fresh =
     InvokeContext_new (TransactionContext_new [(7, shared_new 1 0 0), (8, shared_new 100 3 7)] None 5 64)
       Rent_default late_env ComputeBudget_default 0"

theorem process_instruction_restores_stack_witness:
  "fst (fst (process_instruction [noop_program] [] [] [0] sample_fresh)) = Inr () \<and>
   returns (transaction_context sample_fresh)
     (transaction_context (snd (fst (process_instruction [noop_program] [] [] [0] sample_fresh))))"
proof -
  have prog: "\<forall>entry \<in> set [noop_program]. \<forall>first. keeps_stack (bp_process_instruction entry first)"
    by (simp add: noop_program_def keeps_stack_def returns_refl)
  have wf: "stack_wf (transaction_context sample_fresh)"
    by (simp add: sample_fresh_def InvokeContext_new_def stack_wf_new)
  have ok: "fst (fst (process_instruction [noop_program] [] [] [0] sample_fresh)) = Inr ()"
    by (simp add: sample_fresh_def noop_program_def late_env_def InvokeContext_new_def process_instruction_def
      process_executable_chain_def root_program_def InvokeContext_push_def enter_frame_def InvokeContext_pop_def
      InvokeContext_verify_def verify_callee_def lift_fault_def and_pop_def early_verification_def is_active_def
      set_return_data_def native_loader_id_def get_remaining_def exec)
  from process_instruction_restores_stack [OF prog] wf ok show ?thesis by (simp add: keeps_stack_def)
qed

end
