(* ===== verification/InvokeSafety.thy ===== *)
theory InvokeSafety
  imports InvokeStack SystemProperties VoteSafety
begin

text \<open>
  What a top-level instruction can do once it has been processed without an error
  (\<^verbatim>\<open>program-runtime/src/invoke_context.rs\<close>): under late verification for any program that only
  writes accounts, under early verification for the system program and the vote program.
\<close>

section \<open>The accounts of an instruction, each once\<close>

definition firsts_of :: "InstructionAccount list \<Rightarrow> InstructionAccount list" where
  "firsts_of ias = map snd (filter (\<lambda>(i, ia). of_nat i = ia_index_in_callee ia) (enumerate 0 ias))"

lemma firsts_of_indices:
  assumes "length ias < 2 ^ 16"
  shows "map (\<lambda>i. ias ! unat i) (filter (\<lambda>i. ia_index_in_callee (ias ! unat i) = i)
           (map of_nat [0..<length ias] :: IndexOfAccount list)) = firsts_of ias"
proof -
  have idx: "unat (of_nat i :: IndexOfAccount) = i" if "i \<in> set [0..<length ias]" for i
    using that assms by (simp add: unat_of_nat take_bit_nat_eq_self)
  have enum: "enumerate 0 ias = map (\<lambda>i. (i, ias ! i)) [0..<length ias]"
    by (rule nth_equalityI) (simp_all add: nth_enumerate_eq)
  have "filter (\<lambda>i. ia_index_in_callee (ias ! unat (of_nat i :: IndexOfAccount)) = of_nat i) [0..<length ias]
      = filter (\<lambda>i. of_nat i = ia_index_in_callee (ias ! i)) [0..<length ias]"
    by (rule filter_cong) (auto simp: idx)
  then have filter: "filter (\<lambda>i. ia_index_in_callee (ias ! unat i) = i) (map of_nat [0..<length ias])
      = map of_nat (filter (\<lambda>i. of_nat i = ia_index_in_callee (ias ! i)) [0..<length ias])"
    by (simp add: filter_map comp_def)
  have "map (\<lambda>i. ias ! unat (of_nat i :: IndexOfAccount)) (filter P [0..<length ias])
      = map ((!) ias) (filter P [0..<length ias])" for P
    by (rule map_cong [OF refl]) (simp only: set_filter mem_Collect_eq idx)
  then show ?thesis
    unfolding filter by (simp only: firsts_of_def enum filter_map map_map comp_def snd_conv case_prod_conv)
qed

lemma instruction_lamports_firsts:
  assumes "length ias < 2 ^ 16" and "instruction_accounts ic = ias"
  shows "instruction_lamports tc ic = (\<Sum>ia \<leftarrow> firsts_of ias. lamports_at tc (ia_index_in_transaction ia))"
proof -
  have n: "unat (get_number_of_instruction_accounts ic) = length ias"
    using assms by (simp add: get_number_of_instruction_accounts_def unat_of_nat take_bit_nat_eq_self)
  have sums: "(\<Sum>x \<leftarrow> xs. if P x then f x else 0) = (\<Sum>x \<leftarrow> filter P xs. f x)" for P xs and f :: "_ \<Rightarrow> nat"
    by (induction xs) simp_all
  show ?thesis
    unfolding instruction_lamports_def n firsts_of_indices [OF assms(1), symmetric]
    by (simp add: contribution_def Let_def assms(2) sums comp_def filter_map)
qed

section \<open>Late verification\<close>

definition snapshot :: "TransactionContext \<Rightarrow> InstructionAccount \<Rightarrow> PreAccount" where
  "snapshot tc ia = PreAccount_new (account_keys tc ! unat (ia_index_in_transaction ia))
                      (account_values tc ! unat (ia_index_in_transaction ia))"

lemma take_pre_accounts_Inr:
  assumes "take_pre_accounts ic is self = (Inr u, self')"
  shows "self' = self\<lparr>pre_accounts := pre_accounts self @
      map (\<lambda>i. snapshot (transaction_context self) (instruction_accounts ic ! unat i))
        (filter (\<lambda>i. ia_index_in_callee (instruction_accounts ic ! unat i) = i) is)\<rparr>"
  using assms
proof (induction "is" arbitrary: self)
  case (Cons i "is")
  from Cons.prems obtain ia where ia: "get (instruction_accounts ic) (unat i) = Some ia"
    by (auto simp: ic_access_defs result_simps)
  then have nth: "instruction_accounts ic ! unat i = ia" by (simp add: get_eq_Some_iff)
  show ?case
  proof (cases "ia_index_in_callee ia = i")
    case True
    let ?tc = "transaction_context self" and ?t = "ia_index_in_transaction ia"
    from Cons.prems ia True obtain cell key where cell: "get (accounts ?tc) (unat ?t) = Some cell"
      and key: "get (account_keys ?tc) (unat ?t) = Some key"
      and rest: "take_pre_accounts ic is (self\<lparr>pre_accounts := pre_accounts self @ [PreAccount_new key (cell_value cell)]\<rparr>)
        = (Inr u, self')"
      by (auto simp: ic_access_defs result_simps split: if_splits)
    have "PreAccount_new key (cell_value cell) = snapshot ?tc ia"
      using cell key by (simp add: snapshot_def get_eq_Some_iff account_values_nth)
    with Cons.IH [OF rest] True nth show ?thesis by simp
  next
    case False
    with Cons.prems ia have "take_pre_accounts ic is self = (Inr u, self')" by (simp add: ic_access_defs)
    from Cons.IH [OF this] False nth show ?thesis by simp
  qed
qed simp

lemma verify_Inr: "verify pre pid w rent a t outer = Inr t' \<Longrightarrow> change_accepted pid w rent (pre_account pre) a"
  by (metis is_ok_simps(1) is_ok_verify)

text \<open>The loop over the accounts compares each with the copy taken of it and sums both.\<close>

lemma verify_loop_Inr:
  assumes "verify_loop pid (enumerate k ias) a b n self = (Inr (a', b'), self')"
    and "drop n (pre_accounts self) =
      map (\<lambda>(i, ia). snapshot tc0 ia) (filter (\<lambda>(i, ia). of_nat i = ia_index_in_callee ia) (enumerate k ias))"
    and "length (accounts tc0) = length (accounts (transaction_context self))"
  shows "(\<forall>(i, ia) \<in> set (filter (\<lambda>(i, ia). of_nat i = ia_index_in_callee ia) (enumerate k ias)).
        change_accepted pid (ia_is_writable ia) (invoke_rent self)
          (account_values tc0 ! unat (ia_index_in_transaction ia))
          (account_values (transaction_context self) ! unat (ia_index_in_transaction ia))) \<and>
     unat a' = unat a + (\<Sum>(i, ia) \<leftarrow> filter (\<lambda>(i, ia). of_nat i = ia_index_in_callee ia) (enumerate k ias).
        lamports_at tc0 (ia_index_in_transaction ia)) \<and>
     unat b' = unat b + (\<Sum>(i, ia) \<leftarrow> filter (\<lambda>(i, ia). of_nat i = ia_index_in_callee ia) (enumerate k ias).
        lamports_at (transaction_context self) (ia_index_in_transaction ia))"
  using assms
proof (induction ias arbitrary: k a b n self)
  case (Cons ia ias)
  show ?case
  proof (cases "of_nat k = ia_index_in_callee ia")
    case True
    let ?tc = "transaction_context self" and ?t = "unat (ia_index_in_transaction ia)"
    from Cons.prems(2) True have drop: "drop n (pre_accounts self) = snapshot tc0 ia #
        map (\<lambda>(i, ia). snapshot tc0 ia) (filter (\<lambda>(i, ia). of_nat i = ia_index_in_callee ia) (enumerate (Suc k) ias))"
      by simp
    then have pre: "get (pre_accounts self) n = Some (snapshot tc0 ia)"
      by (metis drop_eq_Nil2 get_def hd_drop_conv_nth list.distinct(1) list.sel(1) not_le)
    from Cons.prems(1) True pre obtain cell t a1 b1 where cell: "get (accounts ?tc) ?t = Some cell"
      and ver: "verify (snapshot tc0 ia) pid (ia_is_writable ia) (invoke_rent self) (cell_value cell) (timings self) True = Inr t"
      and add: "checked_add a (ucast (lamports (pre_account (snapshot tc0 ia)))) = Some a1"
        "checked_add b (ucast (lamports (cell_value cell))) = Some b1"
      and rest: "verify_loop pid (enumerate (Suc k) ias) a1 b1 (n + 1)
        (meter_data_len (cell_value cell) (snapshot tc0 ia) (self\<lparr>timings := t\<rparr>)) = (Inr (a', b'), self')"
      by (auto simp: get_account_at_index_def result_simps Let_def split: if_splits)
    have idx: "?t < length (accounts ?tc)" "account_values ?tc ! ?t = cell_value cell"
      using cell by (simp_all add: get_eq_Some_iff account_values_nth)
    have vals: "pre_account (snapshot tc0 ia) = account_values tc0 ! ?t"
      "lamports_at tc0 (ia_index_in_transaction ia) = unat (lamports (account_values tc0 ! ?t))"
      "lamports_at ?tc (ia_index_in_transaction ia) = unat (lamports (cell_value cell))"
      using idx Cons.prems(3) by (simp_all add: snapshot_def PreAccount_new_def lamports_at_def account_values_nth
        flip: idx(2))
    have "drop (n + 1) (pre_accounts self) =
        map (\<lambda>(i, ia). snapshot tc0 ia) (filter (\<lambda>(i, ia). of_nat i = ia_index_in_callee ia) (enumerate (Suc k) ias))"
      using drop by (metis Suc_eq_plus1 drop_Suc list.sel(3) tl_drop)
    from Cons.IH [OF rest] this Cons.prems(3) show ?thesis
      using True verify_Inr [OF ver] checked_add_Some [OF add(1)] checked_add_Some [OF add(2)]
      by (simp add: vals idx unat_ucast_u64_u128)
  next
    case False
    with Cons.prems have "verify_loop pid (enumerate (Suc k) ias) a b n self = (Inr (a', b'), self')" by simp
    from Cons.IH [OF this] Cons.prems False show ?thesis by simp
  qed
qed simp

lemma InvokeContext_push_late:
  assumes "InvokeContext_push self = (Inr u, self1)" and "instruction_stack (transaction_context self) = []"
    and "\<not> early_verification self"
  defines "tc \<equiv> transaction_context self"
  shows "push tc = (Inr (), transaction_context self1)"
    and "length (instruction_accounts (last (instruction_trace tc))) < 2 ^ 16 \<Longrightarrow>
       pre_accounts self1 = map (snapshot tc) (firsts_of (instruction_accounts (last (instruction_trace tc))))"
    and "invoke_rent self1 = invoke_rent self" and "invoke_env self1 = invoke_env self"
proof -
  let ?ic = "last (instruction_trace tc)"
  from assms(1) obtain ic pid self2 where
    ic: "get_instruction_context_at_index_in_trace tc (get_instruction_trace_length tc) = Inr ic"
    and enter: "enter_frame ic pid self = (Inr (), self2)"
    and last: "(let (result, tc) = push (transaction_context self2) in (faulty result,
         self2\<lparr>trace_log_stack := trace_log_stack self2 @ [[]], syscall_context := syscall_context self2 @ [None],
              transaction_context := tc\<rparr>)) = (Inr u, self1)"
    by (auto simp: InvokeContext_push_def result_simps tc_def)
  obtain r tc2 where "push (transaction_context self2) = (r, tc2)" by fastforce
  with last have push: "push (transaction_context self2) = (Inr (), transaction_context self1)"
    and self1: "pre_accounts self1 = pre_accounts self2" "invoke_rent self1 = invoke_rent self2"
      "invoke_env self1 = invoke_env self2"
    by (auto simp: result_simps)
  have "instruction_trace tc \<noteq> []"
    using ic by (auto simp: get_instruction_context_at_index_in_trace_def result_simps)
  then have "ic = ?ic"
    using ic by (simp add: get_instruction_context_at_index_in_trace_def get_instruction_trace_length_def
      result_simps last_conv_nth)
  let ?self = "self\<lparr>current_compute_budget := compute_budget self, pre_accounts := []\<rparr>"
  let ?n = "unat (get_number_of_instruction_accounts ?ic)"
  have "take_pre_accounts ?ic (map of_nat [0..<?n]) ?self = (Inr (), self2)"
    using enter assms(2,3) \<open>ic = ?ic\<close>
    by (simp add: enter_frame_def Let_def early_verification_def get_instruction_context_stack_height_def)
  note self2 = take_pre_accounts_Inr [OF this]
  show "push tc = (Inr (), transaction_context self1)" using push by (simp add: self2 tc_def)
  show "invoke_rent self1 = invoke_rent self" "invoke_env self1 = invoke_env self" by (simp_all add: self1 self2)
  assume len: "length (instruction_accounts ?ic) < 2 ^ 16"
  then have n: "?n = length (instruction_accounts ?ic)"
    by (simp add: get_number_of_instruction_accounts_def unat_of_nat take_bit_nat_eq_self)
  show "pre_accounts self1 = map (snapshot tc) (firsts_of (instruction_accounts ?ic))"
    unfolding firsts_of_indices [OF len, symmetric] self1 self2 n by (simp add: tc_def comp_def)
qed

text \<open>A program that writes accounts but neither moves the stack nor touches the copies.\<close>

definition confined :: "(InvokeContext \<Rightarrow> unit outcome) \<Rightarrow> bool" where
  "confined f \<longleftrightarrow>
     (\<forall>self self'. f self = (Inr (), self') \<longrightarrow>
        pre_accounts self' = pre_accounts self \<and> invoke_rent self' = invoke_rent self \<and>
        invoke_env self' = invoke_env self \<and>
        account_keys (transaction_context self') = account_keys (transaction_context self) \<and>
        length (accounts (transaction_context self')) = length (accounts (transaction_context self)) \<and>
        instruction_stack (transaction_context self') = instruction_stack (transaction_context self) \<and>
        instruction_trace (transaction_context self') = instruction_trace (transaction_context self))"

lemma confinedD:
  assumes "confined f" and "f self = (Inr (), self')"
  shows "pre_accounts self' = pre_accounts self" "invoke_rent self' = invoke_rent self"
    "invoke_env self' = invoke_env self"
    "account_keys (transaction_context self') = account_keys (transaction_context self)"
    "length (accounts (transaction_context self')) = length (accounts (transaction_context self))"
    "instruction_stack (transaction_context self') = instruction_stack (transaction_context self)"
    "instruction_trace (transaction_context self') = instruction_trace (transaction_context self)"
  using assms by (simp_all add: confined_def)

text \<open>What a successful \<open>process_instruction\<close> at the top level went through.\<close>

lemma process_instruction_top:
  assumes "fst (process_instruction builtins input ias is self) = (Inr u, self')"
    and "instruction_stack (transaction_context self) = []"
  obtains tc1 self1 self2 self3 where
    "update_next_instruction_context (transaction_context self) (configure is ias input) = Inr tc1"
    "InvokeContext_push (self\<lparr>transaction_context := tc1\<rparr>) = (Inr (), self1)"
    "fst (process_executable_chain builtins self1) = (Inr (), self2)"
    "verify_callee True ias is self2 = (Inr (), self3)"
    "InvokeContext_pop self3 = (Inr (), self')"
proof -
  have top: "get_instruction_context_stack_height (transaction_context self) = 0"
    by (simp add: get_instruction_context_stack_height_def assms(2))
  obtain r self1 where enter: "enter_instruction input ias is self = (r, self1)" by fastforce
  with assms(1) have r: "r = Inr ()" by (cases r) (simp_all add: process_instruction_eq)
  with assms(1) enter top have "and_pop (then_do (fst (process_executable_chain builtins self1))
      (\<lambda>_ self2. verify_callee True ias is self2)) = (Inr u, self')"
    by (simp add: process_instruction_eq)
  then obtain self3 where res: "then_do (fst (process_executable_chain builtins self1))
      (\<lambda>_ self2. verify_callee True ias is self2) = (Inr (), self3)" and pop: "InvokeContext_pop self3 = (Inr (), self')"
    by (auto simp: and_pop_def split: prod.splits sum.splits fault.splits)
  from res obtain self2 where "fst (process_executable_chain builtins self1) = (Inr (), self2)"
    "verify_callee True ias is self2 = (Inr (), self3)"
    by (auto simp: then_do_eq_Inr_iff)
  moreover from enter r top obtain tc1 where
    "update_next_instruction_context (transaction_context self) (configure is ias input) = Inr tc1"
    "InvokeContext_push (self\<lparr>transaction_context := tc1\<rparr>) = (Inr (), self1)"
    by (auto simp: enter_instruction_def result_simps)
  ultimately show ?thesis using that pop by blast
qed

lemma chain_confined:
  assumes "fst (process_executable_chain builtins self) = (Inr (), self')"
    and "\<forall>entry \<in> set builtins. \<forall>first. confined (bp_process_instruction entry first)"
  shows "pre_accounts self' = pre_accounts self" "invoke_rent self' = invoke_rent self"
    "invoke_env self' = invoke_env self"
    "account_keys (transaction_context self') = account_keys (transaction_context self)"
    "length (accounts (transaction_context self')) = length (accounts (transaction_context self))"
    "instruction_stack (transaction_context self') = instruction_stack (transaction_context self)"
    "instruction_trace (transaction_context self') = instruction_trace (transaction_context self)"
proof -
  from assms(1) obtain entry first pid where entry: "entry \<in> set builtins"
    and run: "bp_process_instruction entry first
      (self\<lparr>transaction_context := set_return_data (transaction_context self) pid []\<rparr>) = (Inr (), self')"
    by (cases rule: process_executable_chain_cases [of self builtins]) auto
  from assms(2) entry have "confined (bp_process_instruction entry first)" by blast
  note facts = confinedD [OF this run]
  show "pre_accounts self' = pre_accounts self" "invoke_rent self' = invoke_rent self"
    "invoke_env self' = invoke_env self"
    "account_keys (transaction_context self') = account_keys (transaction_context self)"
    "length (accounts (transaction_context self')) = length (accounts (transaction_context self))"
    "instruction_stack (transaction_context self') = instruction_stack (transaction_context self)"
    "instruction_trace (transaction_context self') = instruction_trace (transaction_context self)"
    using facts by (simp_all add: set_return_data_def)
qed

lemma lift_fault_eq_Inr_iff: "lift_fault m = (Inr a, s) \<longleftrightarrow> m = (Inr a, s)"
  by (cases m) (simp add: lift_fault_def result_simps)

lemma accounts_pop: "accounts (snd (pop tc)) = accounts tc"
  by (simp add: pop_def Let_def split: sum.split bool.split)

lemma current_context_cong:
  "\<lbrakk>instruction_stack tc' = instruction_stack tc; instruction_trace tc' = instruction_trace tc\<rbrakk>
     \<Longrightarrow> get_current_instruction_context tc' = get_current_instruction_context tc"
  by (simp add: get_current_instruction_context_def get_instruction_context_stack_height_def
      get_instruction_context_at_nesting_level_def get_instruction_context_at_index_in_trace_def)

lemma last_program_key_cong:
  "\<lbrakk>program_accounts ic' = program_accounts ic; account_keys tc' = account_keys tc\<rbrakk>
     \<Longrightarrow> get_last_program_key ic' tc' = get_last_program_key ic tc"
  by (simp add: get_last_program_key_def get_index_of_program_account_in_transaction_def
      get_number_of_program_accounts_def get_key_of_account_at_index_def)

text \<open>Configuring and pushing changes no account; the frame is that of the instruction.\<close>

lemma configured_frame:
  assumes "update_next_instruction_context tc (configure is ias input) = Inr tc1" and "push tc1 = (Inr (), tc2)"
    and "stack_wf tc"
  shows "accounts tc1 = accounts tc" "account_keys tc1 = account_keys tc"
    "accounts tc2 = accounts tc" "account_keys tc2 = account_keys tc" "tc_rent tc2 = tc_rent tc"
    "stack_wf tc2" "instruction_accounts (last (instruction_trace tc1)) = ias" "instruction_stack tc1 = instruction_stack tc"
    "\<exists>ic. get_current_instruction_context tc2 = Inr ic \<and> program_accounts ic = is \<and> instruction_accounts ic = ias"
proof -
  from assms(1) have tc1: "tc1 = tc\<lparr>instruction_trace :=
      butlast (instruction_trace tc) @ [configure is ias input (last (instruction_trace tc))]\<rparr>"
    by (auto simp: update_next_instruction_context_def split: if_splits)
  from assms(2) obtain s where ne: "instruction_trace tc1 \<noteq> []" and tc2: "tc2 = tc1\<lparr>instruction_trace :=
      butlast (instruction_trace tc1) @ [entered tc1 s, InstructionContext_default],
    instruction_stack := instruction_stack tc1 @ [get_instruction_trace_length tc1]\<rparr>"
    by (rule push_Ok)
  show wf: "stack_wf tc2"
    using stack_wf_push [OF stack_wf_update_next [OF assms(3,1)]] by (simp add: assms(2))
  have "get_current_instruction_context tc2 = Inr (entered tc1 s)"
    using get_current_instruction_context_eq [OF wf] ne
    by (simp add: tc2 get_instruction_trace_length_def nth_append)
  then show "\<exists>ic. get_current_instruction_context tc2 = Inr ic \<and> program_accounts ic = is \<and> instruction_accounts ic = ias"
    by (simp add: entered_def tc1 configure_def)
qed (use assms in \<open>auto simp: update_next_instruction_context_def configure_def split: if_splits elim!: push_Ok\<close>)

text \<open>
  C22: Late verification makes any program obey the account rules.  When early verification is off
  and a top-level instruction succeeds, whatever its program did to the accounts it was given, as
  long as it only wrote accounts, each of them changed as \<open>PreAccount::verify\<close> allows for that
  program and the account's writability in the instruction, and their lamports, each account
  counted once, sum to what they were.
\<close>

theorem late_verification_enforced:
  assumes run: "fst (process_instruction builtins input ias is self) = (Inr (), self')"
    and top: "instruction_stack (transaction_context self) = []" and late: "\<not> early_verification self"
    and programs: "\<forall>entry \<in> set builtins. \<forall>first. confined (bp_process_instruction entry first)"
    and wf: "stack_wf (transaction_context self)" and len: "length ias < 2 ^ 16"
  shows "let tc = transaction_context self; tc' = transaction_context self' in
     \<exists>pid. get_last_program_key (configure is ias input InstructionContext_default) tc = Inr pid \<and>
     (\<forall>ia \<in> set (firsts_of ias). change_accepted pid (ia_is_writable ia) (invoke_rent self)
        (account_values tc ! unat (ia_index_in_transaction ia))
        (account_values tc' ! unat (ia_index_in_transaction ia))) \<and>
     (\<Sum>ia \<leftarrow> firsts_of ias. lamports_at tc' (ia_index_in_transaction ia))
       = (\<Sum>ia \<leftarrow> firsts_of ias. lamports_at tc (ia_index_in_transaction ia))"
proof -
  let ?tc = "transaction_context self"
  from run top obtain tc1 self1 self2 self3 where
    upd: "update_next_instruction_context ?tc (configure is ias input) = Inr tc1"
    and push: "InvokeContext_push (self\<lparr>transaction_context := tc1\<rparr>) = (Inr (), self1)"
    and chain: "fst (process_executable_chain builtins self1) = (Inr (), self2)"
    and callee: "verify_callee True ias is self2 = (Inr (), self3)"
    and pop: "InvokeContext_pop self3 = (Inr (), self')"
    by (rule process_instruction_top)
  have "instruction_stack tc1 = []" "\<not> early_verification (self\<lparr>transaction_context := tc1\<rparr>)"
    using upd top late by (auto simp: update_next_instruction_context_def early_verification_def split: if_splits)
  note pushed = InvokeContext_push_late [OF push, simplified, OF this]
  note frame = configured_frame [OF upd pushed(1) wf]
  have snap: "snapshot tc1 = snapshot ?tc"
    by (simp add: fun_eq_iff snapshot_def account_values_def frame)
  note same = chain_confined [OF chain programs]
  have "\<not> early_verification self2" using late by (simp add: early_verification_def same pushed)
  with callee obtain ic pid sum where
    ic: "get_current_instruction_context (transaction_context self2) = Inr ic"
    and pid: "get_last_program_key ic (transaction_context self2) = Inr pid"
    and loop: "verify_loop pid (enumerate 0 ias) 0 0 0 self2 = (Inr (sum, sum), self3)"
    by (auto simp: verify_callee_def lift_fault_eq_Inr_iff InvokeContext_verify_def result_simps split: if_splits)
  from frame(9) ic current_context_cong [OF same(6,7)] have "program_accounts ic = is" by auto
  with pid have last: "get_last_program_key (configure is ias input InstructionContext_default) ?tc = Inr pid"
    using last_program_key_cong [of ic "configure is ias input InstructionContext_default"
        "transaction_context self2" ?tc] by (simp add: configure_def same frame)
  have "pre_accounts self2 = map (snapshot ?tc) (firsts_of ias)"
    using pushed(2) len by (simp add: same frame snap)
  then have drop: "drop 0 (pre_accounts self2) =
      map (\<lambda>(i, ia). snapshot ?tc ia) (filter (\<lambda>(i, ia). of_nat i = ia_index_in_callee ia) (enumerate 0 ias))"
    by (simp add: firsts_of_def comp_def case_prod_beta)
  have "length (accounts ?tc) = length (accounts (transaction_context self2))" by (simp add: same frame)
  note verified = verify_loop_Inr [OF loop drop this]
  have tc': "account_values (transaction_context self') = account_values (transaction_context self2)"
    "lamports_at (transaction_context self') = lamports_at (transaction_context self2)"
    using InvokeContext_pop_tc [of self3] verify_callee_tc [of True ias "is" self2]
    by (simp_all add: pop callee account_values_def lamports_at_def accounts_pop fun_eq_iff)
  show ?thesis
    unfolding Let_def tc' using verified last
    by (auto simp: firsts_of_def comp_def case_prod_unfold same pushed)
qed

text \<open>A program that overwrites the data of its accounts.\<close>

definition stamp_program :: BuiltinProgram where
  "stamp_program =
     \<lparr>bp_program_id = 0,
      bp_process_instruction = (\<lambda>_ self. (Inr (), self\<lparr>transaction_context := (transaction_context self)
        \<lparr>accounts := map (\<lambda>c. if owner (cell_value c) = 7 then c\<lparr>cell_value := (cell_value c)\<lparr>data := [1]\<rparr>\<rparr> else c)
           (accounts (transaction_context self))\<rparr>\<rparr>))\<rparr>"

definition stamped_accounts :: "InstructionAccount list" where
  "stamped_accounts = [\<lparr>ia_index_in_transaction = 1, ia_index_in_caller = 1, ia_index_in_callee = 0,
     ia_is_signer = False, ia_is_writable = True\<rparr>]"

theorem late_verification_enforced_witness:
  "\<exists>self'. fst (process_instruction [stamp_program] [] stamped_accounts [0] sample_fresh) = (Inr (), self') \<and>
     data (account_values (transaction_context self') ! 1) = [1] \<and>
     change_accepted 7 True Rent_default (account_values (transaction_context sample_fresh) ! 1)
       (account_values (transaction_context self') ! 1)"
proof -
  have "\<exists>self'. fst (process_instruction [stamp_program] [] stamped_accounts [0] sample_fresh) = (Inr (), self') \<and>
     data (account_values (transaction_context self') ! 1) = [1]"
    by (simp add: sample_fresh_def stamp_program_def stamped_accounts_def late_env_def InvokeContext_new_def
      process_instruction_def process_executable_chain_def root_program_def InvokeContext_push_def enter_frame_def
      InvokeContext_pop_def InvokeContext_verify_def verify_callee_def lift_fault_def and_pop_def early_verification_def
      is_active_def set_return_data_def native_loader_id_def get_remaining_def verify_def PreAccount_new_def
      account_values_def Let_def word_le_nat_alt exec)
  then obtain self' where res: "fst (process_instruction [stamp_program] [] stamped_accounts [0] sample_fresh) = (Inr (), self')"
    "data (account_values (transaction_context self') ! 1) = [1]" by blast
  have "instruction_stack (transaction_context sample_fresh) = []" "\<not> early_verification sample_fresh"
    "stack_wf (transaction_context sample_fresh)" "length stamped_accounts < 2 ^ 16"
    by (simp_all add: sample_fresh_def InvokeContext_new_def early_verification_def late_env_def is_active_def
      stack_wf_new stamped_accounts_def) (simp add: TransactionContext_new_def)
  moreover have "\<forall>entry \<in> set [stamp_program]. \<forall>first. confined (bp_process_instruction entry first)"
    by (simp add: stamp_program_def confined_def)
  moreover have "get_last_program_key (configure [0] stamped_accounts [] InstructionContext_default)
      (transaction_context sample_fresh) = Inr 7" "invoke_rent sample_fresh = Rent_default"
    "firsts_of stamped_accounts = stamped_accounts"
    by (simp_all add: sample_fresh_def InvokeContext_new_def firsts_of_def stamped_accounts_def exec)
  ultimately have "change_accepted 7 True Rent_default (account_values (transaction_context sample_fresh) ! 1)
       (account_values (transaction_context self') ! 1)"
    using late_verification_enforced [OF res(1)] by (simp add: Let_def stamped_accounts_def)
  with res show ?thesis by blast
qed

section \<open>Early verification\<close>

text \<open>
  The index in the callee of an account is that of its first occurrence, as the callers of
  \<open>process_instruction\<close> compute it; then the accounts counted once are all the accounts.
\<close>

definition well_indexed :: "InstructionAccount list \<Rightarrow> bool" where
  "well_indexed ias \<longleftrightarrow>
     (\<forall>ia \<in> set ias. position (\<lambda>ia'. ia_index_in_transaction ia' = ia_index_in_transaction ia) ias
        = Some (unat (ia_index_in_callee ia)))"

definition account_indices :: "InstructionAccount list \<Rightarrow> nat set" where
  "account_indices ias = (\<lambda>ia. unat (ia_index_in_transaction ia)) ` set ias"

definition writable_indices :: "InstructionAccount list \<Rightarrow> nat set" where
  "writable_indices ias = {unat (ia_index_in_transaction ia) | ia. ia \<in> set ias \<and> ia_is_writable ia}"

lemma writable_indices_subset: "writable_indices ias \<subseteq> account_indices ias"
  by (auto simp: writable_indices_def account_indices_def)

lemma firsts_of_well_indexed:
  assumes "well_indexed ias" and "length ias < 2 ^ 16"
  shows "distinct (map (\<lambda>ia. unat (ia_index_in_transaction ia)) (firsts_of ias))"
    and "account_indices (firsts_of ias) = account_indices ias"
proof -
  define F where "F = filter (\<lambda>i. of_nat i = ia_index_in_callee (ias ! i)) [0..<length ias]"
  have enum: "enumerate 0 ias = map (\<lambda>i. (i, ias ! i)) [0..<length ias]"
    by (rule nth_equalityI) (simp_all add: nth_enumerate_eq)
  have firsts: "firsts_of ias = map ((!) ias) F"
    by (simp add: firsts_of_def F_def enum filter_map comp_def)
  let ?pos = "\<lambda>t. position (\<lambda>ia'. ia_index_in_transaction ia' = t) ias"
  have idx: "unat (of_nat i :: IndexOfAccount) = i" if "i < length ias" for i
    using that assms(2) by (simp add: unat_of_nat take_bit_nat_eq_self)
  have pos: "?pos (ia_index_in_transaction (ias ! i)) = Some i" if "i \<in> set F" for i
    using that assms(1) idx [of i] by (auto simp: F_def well_indexed_def)
  have "inj_on (\<lambda>i. unat (ia_index_in_transaction (ias ! i))) (set F)"
    by (rule inj_onI) (metis pos option.inject word_unat_eq_iff)
  then show "distinct (map (\<lambda>ia. unat (ia_index_in_transaction ia)) (firsts_of ias))"
    by (simp add: firsts comp_def distinct_map F_def)
  have "\<exists>i \<in> set F. ia_index_in_transaction (ias ! i) = ia_index_in_transaction ia" if ia: "ia \<in> set ias" for ia
  proof -
    define p where "p = unat (ia_index_in_callee ia)"
    have p: "?pos (ia_index_in_transaction ia) = Some p" using ia assms(1) by (simp add: well_indexed_def p_def)
    from position_Some [OF p] have lt: "p < length ias"
      and same: "ia_index_in_transaction (ias ! p) = ia_index_in_transaction ia" by auto
    from lt assms(1) have "?pos (ia_index_in_transaction (ias ! p)) = Some (unat (ia_index_in_callee (ias ! p)))"
      by (simp add: well_indexed_def)
    with p same have "unat (ia_index_in_callee (ias ! p)) = p" by simp
    then have "of_nat p = ia_index_in_callee (ias ! p)" using idx [OF lt] by (simp add: word_unat_eq_iff)
    with lt same show ?thesis by (auto simp: F_def)
  qed
  then show "account_indices (firsts_of ias) = account_indices ias"
    unfolding firsts account_indices_def by (auto simp: F_def image_iff) metis
qed

lemma total_lamports_sum: "total_lamports tc = (\<Sum>j < length (accounts tc). unat (lamports (account_values tc ! j)))"
  by (simp add: total_lamports_def sum_list_sum_nth atLeast0LessThan)

text \<open>
  If the lamports of the accounts of an instruction sum to what they were and no other account
  changed, then no lamport was created or destroyed.
\<close>

lemma balanced_total:
  assumes "well_indexed ias" and "length ias < 2 ^ 16" and "instruction_accounts ic = ias"
    and "instruction_lamports tc' ic = instruction_lamports tc ic"
    and "length (accounts tc') = length (accounts tc)"
    and "account_indices ias \<subseteq> {..<length (accounts tc)}"
    and "\<And>j. j < length (accounts tc) \<Longrightarrow> j \<notin> account_indices ias \<Longrightarrow> account_values tc' ! j = account_values tc ! j"
  shows "total_lamports tc' = total_lamports tc"
proof -
  let ?n = "length (accounts tc)" and ?S = "account_indices ias"
  have firsts: "instruction_lamports t ic = (\<Sum>j \<in> ?S. unat (lamports (account_values t ! j)))"
    if len: "length (accounts t) = ?n" for t
  proof -
    have "instruction_lamports t ic = (\<Sum>ia \<leftarrow> firsts_of ias. lamports_at t (ia_index_in_transaction ia))"
      using assms(2,3) by (rule instruction_lamports_firsts)
    also have "\<dots> = (\<Sum>j \<leftarrow> map (\<lambda>ia. unat (ia_index_in_transaction ia)) (firsts_of ias).
        unat (lamports (cell_value (accounts t ! j))))"
      by (simp add: lamports_at_def comp_def)
    also have "\<dots> = (\<Sum>j \<in> account_indices (firsts_of ias). unat (lamports (cell_value (accounts t ! j))))"
      using firsts_of_well_indexed(1) [OF assms(1,2)]
      by (simp only: sum_list_distinct_conv_sum_set account_indices_def set_map)
    also have "\<dots> = (\<Sum>j \<in> ?S. unat (lamports (account_values t ! j)))"
      unfolding firsts_of_well_indexed(2) [OF assms(1,2)] using assms(6) len
      by (intro sum.cong) (auto simp: account_values_nth)
    finally show ?thesis .
  qed
  have split: "total_lamports t = instruction_lamports t ic + (\<Sum>j \<in> {..<?n} - ?S. unat (lamports (account_values t ! j)))"
    if "length (accounts t) = ?n" for t
    using sum.subset_diff [OF assms(6), of "\<lambda>j. unat (lamports (account_values t ! j))"]
    by (simp add: total_lamports_sum that firsts)
  have "(\<Sum>j \<in> {..<?n} - ?S. unat (lamports (account_values tc' ! j)))
      = (\<Sum>j \<in> {..<?n} - ?S. unat (lamports (account_values tc ! j)))"
    using assms(7) by (intro sum.cong) auto
  then show ?thesis using split [of tc] split [of tc'] assms(4,5) by simp
qed

text \<open>
  A program that stays within its instruction: when it succeeds it has left the stack as it was
  and has changed no account but those it was given as writable.
\<close>

definition local_program :: "(InvokeContext \<Rightarrow> unit outcome) \<Rightarrow> bool" where
  "local_program f \<longleftrightarrow>
     (\<forall>self self' ic.
        let tc = transaction_context self; tc' = transaction_context self' in
        stack_wf tc \<longrightarrow> get_current_instruction_context tc = Inr ic \<longrightarrow> accounts_fit ic \<longrightarrow> tc_rent tc \<noteq> None \<longrightarrow>
        f self = (Inr (), self') \<longrightarrow>
        returns tc tc' \<and> tc_rent tc' = tc_rent tc \<and> account_keys tc' = account_keys tc \<and>
        length (accounts tc') = length (accounts tc) \<and> invoke_env self' = invoke_env self \<and>
        (\<forall>j < length (accounts tc). \<not> writable_at ic j \<longrightarrow>
           account_values tc' ! j = account_values tc ! j))"

lemma local_programD:
  assumes "local_program f" and "f self = (Inr (), self')"
    and "stack_wf (transaction_context self)" "get_current_instruction_context (transaction_context self) = Inr ic"
      "accounts_fit ic" "tc_rent (transaction_context self) \<noteq> None"
  shows "returns (transaction_context self) (transaction_context self')"
    "tc_rent (transaction_context self') = tc_rent (transaction_context self)"
    "account_keys (transaction_context self') = account_keys (transaction_context self)"
    "length (accounts (transaction_context self')) = length (accounts (transaction_context self))"
    "invoke_env self' = invoke_env self"
    "j < length (accounts (transaction_context self)) \<Longrightarrow> \<not> writable_at ic j \<Longrightarrow>
       account_values (transaction_context self') ! j = account_values (transaction_context self) ! j"
  using assms unfolding local_program_def Let_def by blast+

lemma instruction_lamports_cong:
  "accounts tc' = accounts tc \<Longrightarrow> instruction_lamports tc' ic = instruction_lamports tc ic"
proof -
  assume "accounts tc' = accounts tc"
  then have "contribution tc' ic = contribution tc ic"
    by (simp add: fun_eq_iff contribution_def lamports_at_def Let_def)
  then show ?thesis by (simp add: instruction_lamports_def)
qed

lemma InvokeContext_push_early:
  assumes "InvokeContext_push self = (Inr u, self1)" and "early_verification self"
    and "instruction_stack (transaction_context self) = []"
  shows "push (transaction_context self) = (Inr (), transaction_context self1)" and "invoke_env self1 = invoke_env self"
proof -
  from assms obtain ic pid where
    last: "(let (result, tc) = push (transaction_context self); self2 = self\<lparr>current_compute_budget := compute_budget self\<rparr>
        in (faulty result,
         self2\<lparr>trace_log_stack := trace_log_stack self2 @ [[]], syscall_context := syscall_context self2 @ [None],
              transaction_context := tc\<rparr>)) = (Inr u, self1)"
    by (auto simp: InvokeContext_push_def enter_frame_def early_verification_def
      get_instruction_context_stack_height_def Let_def result_simps)
  obtain r tc2 where "push (transaction_context self) = (r, tc2)" by fastforce
  with last show "push (transaction_context self) = (Inr (), transaction_context self1)" "invoke_env self1 = invoke_env self"
    by (auto simp: result_simps Let_def)
qed

lemma lamport_sum_loop_in_range:
  assumes "lamport_sum_loop tc ic is acc = Inr s" and "i \<in> set is"
    and "ia_index_in_callee (instruction_accounts ic ! unat i) = i"
  shows "unat (ia_index_in_transaction (instruction_accounts ic ! unat i)) < length (accounts tc)"
  using assms(1,2)
proof (induction "is" arbitrary: acc)
  case (Cons k "is")
  then show ?case
    using assms(3) by (cases "i = k") (auto simp: ic_access_defs result_simps split: if_splits)
qed simp

lemma push_checks_in_range:
  assumes "push_checks tc = Inr s" and "tc_rent tc \<noteq> None"
    and ias: "instruction_accounts (last (instruction_trace tc)) = ias" "length ias < 2 ^ 16" "well_indexed ias"
  shows "account_indices ias \<subseteq> {..<length (accounts tc)}"
proof -
  let ?ic = "last (instruction_trace tc)"
  have n: "unat (get_number_of_instruction_accounts ?ic) = length ias"
    using ias by (simp add: get_number_of_instruction_accounts_def unat_of_nat take_bit_nat_eq_self)
  from assms(1,2) n obtain s where "lamport_sum_loop tc ?ic (map of_nat [0..<length ias]) 0 = Inr s"
    by (auto simp: push_checks_def instruction_accounts_lamport_sum_def result_simps last_opt_eq_Some_iff
        is_early_verification_of_account_modifications_enabled_def split: if_splits)
  from lamport_sum_loop_in_range [OF this] have
    "account_indices (firsts_of ias) \<subseteq> {..<length (accounts tc)}"
    unfolding account_indices_def firsts_of_indices [OF ias(2), symmetric] by (auto simp: ias)
  then show ?thesis by (simp add: firsts_of_well_indexed(2) [OF ias(3,2)])
qed

lemma set_return_data_frame [simp]:
  "stack_wf (set_return_data tc k d) = stack_wf tc"
  "get_current_instruction_context (set_return_data tc k d) = get_current_instruction_context tc"
  "tc_rent (set_return_data tc k d) = tc_rent tc" "accounts (set_return_data tc k d) = accounts tc"
  "account_keys (set_return_data tc k d) = account_keys tc"
  "account_values (set_return_data tc k d) = account_values tc"
  "returns (set_return_data tc k d) tc' = returns tc tc'"
  by (simp_all add: set_return_data_def stack_wf_def get_instruction_trace_length_def account_values_def returns_def
    get_current_instruction_context_def get_instruction_context_stack_height_def
    get_instruction_context_at_nesting_level_def get_instruction_context_at_index_in_trace_def)

lemma chain_local:
  assumes "fst (process_executable_chain builtins self) = (Inr (), self')"
    and "\<forall>entry \<in> set builtins. \<forall>first. local_program (bp_process_instruction entry first)"
    and "stack_wf (transaction_context self)" "get_current_instruction_context (transaction_context self) = Inr ic"
      "accounts_fit ic" "tc_rent (transaction_context self) \<noteq> None"
  shows "returns (transaction_context self) (transaction_context self')"
    "tc_rent (transaction_context self') = tc_rent (transaction_context self)"
    "account_keys (transaction_context self') = account_keys (transaction_context self)"
    "length (accounts (transaction_context self')) = length (accounts (transaction_context self))"
    "invoke_env self' = invoke_env self"
    "j < length (accounts (transaction_context self)) \<Longrightarrow> \<not> writable_at ic j \<Longrightarrow>
       account_values (transaction_context self') ! j = account_values (transaction_context self) ! j"
proof -
  from assms(1) obtain entry first pid where entry: "entry \<in> set builtins"
    and prog: "bp_process_instruction entry first
      (self\<lparr>transaction_context := set_return_data (transaction_context self) pid []\<rparr>) = (Inr (), self')"
    by (cases rule: process_executable_chain_cases [of self builtins]) auto
  have "local_program (bp_process_instruction entry first)" using assms(2) entry by blast
  note facts = local_programD [OF this prog, simplified, OF assms(3,4,5)]
  show "returns (transaction_context self) (transaction_context self')"
    "tc_rent (transaction_context self') = tc_rent (transaction_context self)"
    "account_keys (transaction_context self') = account_keys (transaction_context self)"
    "length (accounts (transaction_context self')) = length (accounts (transaction_context self))"
    "invoke_env self' = invoke_env self"
    "j < length (accounts (transaction_context self)) \<Longrightarrow> \<not> writable_at ic j \<Longrightarrow>
       account_values (transaction_context self') ! j = account_values (transaction_context self) ! j"
    using facts assms(6) by auto
qed

text \<open>A successful instruction at the top level, with local programs and early verification.\<close>

lemma process_instruction_early:
  assumes run: "fst (process_instruction builtins input ias is self) = (Inr (), self')"
    and top: "instruction_stack (transaction_context self) = []" and early: "early_verification self"
    and rent: "tc_rent (transaction_context self) \<noteq> None" and wf: "stack_wf (transaction_context self)"
    and programs: "\<forall>entry \<in> set builtins. \<forall>first. local_program (bp_process_instruction entry first)"
    and fit: "length is + length ias < 2 ^ 16" and ias: "well_indexed ias"
  defines "tc \<equiv> transaction_context self" and "tc' \<equiv> transaction_context self'"
  shows "total_lamports tc' = total_lamports tc" "instruction_stack tc' = []" "stack_wf tc'" "tc_rent tc' = tc_rent tc"
    "account_keys tc' = account_keys tc" "length (accounts tc') = length (accounts tc)" "invoke_env self' = invoke_env self"
    "j < length (accounts tc) \<Longrightarrow> j \<notin> writable_indices ias \<Longrightarrow> account_values tc' ! j = account_values tc ! j"
proof -
  from run top obtain tc1 self1 self2 self3 where
    upd: "update_next_instruction_context tc (configure is ias input) = Inr tc1"
    and push: "InvokeContext_push (self\<lparr>transaction_context := tc1\<rparr>) = (Inr (), self1)"
    and chain: "fst (process_executable_chain builtins self1) = (Inr (), self2)"
    and callee: "verify_callee True ias is self2 = (Inr (), self3)"
    and pop: "InvokeContext_pop self3 = (Inr (), self')"
    unfolding tc_def by (rule process_instruction_top)
  define tc2 where "tc2 = transaction_context self1"
  define tc3 where "tc3 = transaction_context self2"
  have "early_verification (self\<lparr>transaction_context := tc1\<rparr>)" "instruction_stack tc1 = []"
    using upd top early by (auto simp: update_next_instruction_context_def early_verification_def tc_def split: if_splits)
  note pushed = InvokeContext_push_early [OF push, simplified, OF this, folded tc2_def]
  note frame = configured_frame [OF upd pushed(1) wf [folded tc_def]]
  from frame(9) obtain ic where ic: "get_current_instruction_context tc2 = Inr ic"
    "program_accounts ic = is" "instruction_accounts ic = ias" by blast
  have fit': "accounts_fit ic" "length ias < 2 ^ 16" using fit by (simp_all add: accounts_fit_def ic)
  have "tc_rent tc2 \<noteq> None" using rent by (simp add: frame tc_def)
  note local = chain_local [OF chain programs, folded tc2_def tc3_def, OF frame(6) ic(1) fit'(1) this]
  have tc3: "transaction_context self3 = tc3" "invoke_env self3 = invoke_env self2"
    using callee early
    by (auto simp: verify_callee_def early_verification_def local pushed tc3_def split: if_splits)
  have pop3: "pop tc3 = (Inr (), tc')" and env: "invoke_env self' = invoke_env self3"
    using pop by (auto simp: InvokeContext_pop_def case_prod_beta Let_def tc3 tc'_def result_simps prod_eq_iff)
  have tc': "tc' = tc3\<lparr>instruction_stack := butlast (instruction_stack tc3)\<rparr>" using pop_Ok [OF pop3] by simp
  from pushed(1) obtain s where chk: "push_checks tc1 = Inr s" and tc2: "tc2 = tc1\<lparr>instruction_trace :=
        butlast (instruction_trace tc1) @ [entered tc1 s, InstructionContext_default],
      instruction_stack := instruction_stack tc1 @ [get_instruction_trace_length tc1]\<rparr>"
    by (rule push_Ok)
  have rent1: "tc_rent tc1 = tc_rent tc" using upd by (auto simp: update_next_instruction_context_def split: if_splits)
  have stack2: "instruction_stack tc2 = [get_instruction_trace_length tc1]" "instruction_stack tc3 = instruction_stack tc2"
    using local(1) by (simp_all add: tc2 \<open>instruction_stack tc1 = []\<close> returns_def)
  have "get_instruction_trace_length tc1 < get_instruction_trace_length tc2"
    using frame(6) stack2 by (simp add: stack_wf_def)
  then have entry: "instruction_trace tc3 ! last (instruction_stack tc2) = instruction_trace tc2 ! last (instruction_stack tc2)"
    using local(1) by (metis stack2(1) last.simps returns_def nth_take)
  have wf1: "stack_wf tc1" using stack_wf_update_next [OF wf [folded tc_def] upd] .
  have "instruction_lamports tc3 (last (instruction_trace tc1)) = instruction_lamports tc1 (last (instruction_trace tc1))"
    using balanced_frame [OF wf1 _ pushed(1) stack2(2) entry _ _ pop3] rent local(1,2)
    by (simp add: rent1 tc_def returns_def frame)
  then have sums: "instruction_lamports tc' (last (instruction_trace tc1)) = instruction_lamports tc (last (instruction_trace tc1))"
    using instruction_lamports_cong [of tc' tc3] instruction_lamports_cong [of tc1 tc] by (simp add: tc' frame)
  have len: "length (accounts tc') = length (accounts tc)" by (simp add: tc' local frame)
  have rest: "account_values tc' ! j = account_values tc ! j"
    if "j < length (accounts tc)" "j \<notin> writable_indices ias" for j
    using local(6) [of j] that by (auto simp: tc' ic frame account_values_def writable_at_def writable_indices_def)
  show "instruction_stack tc' = []" "tc_rent tc' = tc_rent tc"
    "account_keys tc' = account_keys tc" "length (accounts tc') = length (accounts tc)" "invoke_env self' = invoke_env self"
    by (simp_all add: tc' stack2 local frame env tc3 pushed)
  show "stack_wf tc'" using stack_wf_pop [of tc3] local(1) by (simp add: pop3 returns_def)
  show "j < length (accounts tc) \<Longrightarrow> j \<notin> writable_indices ias \<Longrightarrow> account_values tc' ! j = account_values tc ! j"
    by (rule rest)
  have "account_indices ias \<subseteq> {..<length (accounts tc)}"
    using push_checks_in_range [OF chk _ frame(7) fit'(2) ias] rent by (simp add: rent1 tc_def frame(1))
  from balanced_total [OF ias fit'(2) frame(7) sums len this] rest writable_indices_subset show "total_lamports tc' = total_lamports tc" by blast
qed

section \<open>Builtin programs are local\<close>

text \<open>
  The entry of a builtin program.  What a failing program has written is discarded with its
  transaction; the entry leaves the context as it was.
\<close>

definition builtin_entry ::
    "(InvokeEnv \<Rightarrow> TransactionContext \<Rightarrow> InstructionError fault + TransactionContext) \<Rightarrow> IndexOfAccount \<Rightarrow> InvokeContext
       \<Rightarrow> unit outcome" where
  "builtin_entry process first self =
     (case process (invoke_env self) (transaction_context self) of
        Inl e \<Rightarrow> (Inl e, self)
      | Inr tc \<Rightarrow> (Inr (), self\<lparr>transaction_context := tc\<rparr>))"

lemma same_frame_returns: "same_frame tc tc' \<Longrightarrow> stack_wf tc \<Longrightarrow> returns tc tc'"
  using same_frame_stack_wf [of tc tc'] by (simp add: same_frame_def returns_def get_instruction_trace_length_def)

lemma builtin_entry_local:
  assumes "\<And>env. builtin_program (process env)"
  shows "local_program (builtin_entry process first)"
  unfolding local_program_def Let_def
proof (intro allI impI)
  fix self self' :: InvokeContext and ic
  let ?tc = "transaction_context self" and ?tc' = "transaction_context self'"
  assume wf: "stack_wf ?tc" and ic: "get_current_instruction_context ?tc = Inr ic" "accounts_fit ic"
    and rent: "tc_rent ?tc \<noteq> None" and run: "builtin_entry process first self = (Inr (), self')"
  from run have run': "process (invoke_env self) ?tc = Inr ?tc'" "invoke_env self' = invoke_env self"
    by (auto simp: builtin_entry_def split: sum.splits)
  have frame: "same_frame ?tc ?tc'" by (rule builtin_program.keeps_frame [OF assms run'(1)])
  have "account_values ?tc' ! j = account_values ?tc ! j" if "j < length (accounts ?tc)" "\<not> writable_at ic j" for j
    using rent that builtin_program.readonly_untouched [OF assms run'(1) ic] by auto
  then show "returns ?tc ?tc' \<and> tc_rent ?tc' = tc_rent ?tc \<and> account_keys ?tc' = account_keys ?tc \<and>
      length (accounts ?tc') = length (accounts ?tc) \<and> invoke_env self' = invoke_env self \<and>
      (\<forall>j < length (accounts ?tc). \<not> writable_at ic j \<longrightarrow>
         account_values ?tc' ! j = account_values ?tc ! j)"
    using same_frame_returns [OF frame wf] frame run'(2) by (simp add: same_frame_def)
qed

lemma builtin_program_faulty: "builtin_program p \<Longrightarrow> builtin_program (\<lambda>tc. faulty (p tc))"
  by (simp add: builtin_program_def faulty_eq_Inr_iff)

definition system_builtin ::
    "(bytes \<Rightarrow> SystemInstruction option) \<Rightarrow> (bytes \<Rightarrow> hash) \<Rightarrow> NonceVersions bincode \<Rightarrow> BuiltinProgram" where
  "system_builtin decode sha256 bc =
     \<lparr>bp_program_id = system_program_id,
      bp_process_instruction = builtin_entry (\<lambda>env tc. faulty (system_process_instruction decode sha256 bc env tc))\<rparr>"

definition vote_builtin ::
    "(bytes \<Rightarrow> VoteInstruction option) \<Rightarrow> VoteStateVersions bincode \<Rightarrow> (bytes \<Rightarrow> hash) \<Rightarrow> BuiltinProgram" where
  "vote_builtin decode bc sha256 =
     \<lparr>bp_program_id = vote_program_id,
      bp_process_instruction = builtin_entry (vote_process_instruction decode bc sha256)\<rparr>"

lemma system_builtin_local: "local_program (bp_process_instruction (system_builtin decode sha256 bc) first)"
  unfolding system_builtin_def BuiltinProgram.select_convs
  by (intro builtin_entry_local builtin_program_faulty) (rule system_program.builtin_program_axioms)

lemma vote_builtin_local: "local_program (bp_process_instruction (vote_builtin decode bc sha256) first)"
  unfolding vote_builtin_def BuiltinProgram.select_convs
  by (intro builtin_entry_local) (rule vote_program.builtin_program_axioms)

end
