(* ===== verification/Messages.thy ===== *)
theory Messages
  imports InvokeContext SystemProgram VoteProgram
begin

text \<open>
  The message of a transaction: \<^verbatim>\<open>sdk/program/src/message/\<close> with the keys of its
  instructions collected and ordered (\<^verbatim>\<open>compiled_keys.rs\<close>), the legacy format
  (\<^verbatim>\<open>legacy.rs\<close>), version 0 with addresses from lookup tables (\<^verbatim>\<open>versions/v0\<close>,
  \<^verbatim>\<open>account_keys.rs\<close>) and the sanitized message the bank works with
  (\<^verbatim>\<open>sanitized.rs\<close>).  The counts of the header are bytes; \<open>None\<close> stands for a panic (an
  index out of range, an overflowing subtraction, an \<open>expect\<close>).
\<close>

section \<open>Reserved keys\<close>

definition BUILTIN_PROGRAMS_KEYS :: "pubkey list" where
  "BUILTIN_PROGRAMS_KEYS =
     [0x3064aa3002f74dcc86e43310f0c052af8c5da27f6104019a323efa000000000,
      0x3c0a0cdcb06d2daefae82d16fee7acf61ec737b23481b21946a767000000000,
      native_loader_id,
      0x6a1d8179137542a983437bdfe2a7ab2557f535c8a78722b68a49dc000000000,
      0x6a1d817a502050b680791e6ce6db88e1e5b7150f61fc6790a4eb4d100000000,
      vote_program_id,
      system_program_id,
      0x2a8f6914e88a16e395ae128948ffa695693376818dd47435221f3c600000000,
      0x2a8f6914e88a16bbd2395855f6404d9b4f456b7821bb0145749428c00000000,
      bpf_loader_upgradeable_id]"

definition Instructions_id :: pubkey where
  "Instructions_id = 0x6a7d517187bd16635dad40455fdc2c0c124c68f215675a5dbbacb5f08000000"

definition ALL_IDS :: "pubkey list" where
  "ALL_IDS =
     [Clock_id, EpochSchedule_id, Fees_id, RecentBlockhashes_id, Rent_id,
      0x6a7d517192c6137cee092d9b6923ee1ccd61903fa82b8a16191578d80000000,
      SlotHashes_id,
      0x6a7d517192f0aafc875e2e184577c5069cfc84649e3eb92782f958d48000000,
      StakeHistory_id, Instructions_id]"

definition is_sysvar_id :: "pubkey \<Rightarrow> bool" where
  "is_sysvar_id k \<longleftrightarrow> k \<in> set ALL_IDS"

text \<open>A table over the first byte of a key says whether the key can be in one of the lists.\<close>

definition first_byte :: "pubkey \<Rightarrow> u8" where
  "first_byte k = ucast (drop_bit 248 k)"

definition mark_keys :: "pubkey list \<Rightarrow> bool list \<Rightarrow> bool list" where
  "mark_keys keys table = foldl (\<lambda>t k. t[unat (first_byte k) := True]) table keys"

definition MAYBE_BUILTIN_KEY_OR_SYSVAR :: "bool list" where
  "MAYBE_BUILTIN_KEY_OR_SYSVAR = mark_keys ALL_IDS (mark_keys BUILTIN_PROGRAMS_KEYS (replicate 256 False))"

definition is_builtin_key_or_sysvar :: "pubkey \<Rightarrow> bool" where
  "is_builtin_key_or_sysvar k =
     (if MAYBE_BUILTIN_KEY_OR_SYSVAR ! unat (first_byte k)
      then is_sysvar_id k \<or> k \<in> set BUILTIN_PROGRAMS_KEYS else False)"

lemma nth_mark_keys:
  "j < length table \<Longrightarrow> mark_keys keys table ! j \<longleftrightarrow> table ! j \<or> (\<exists>k \<in> set keys. unat (first_byte k) = j)"
proof (induction keys arbitrary: table)
  case (Cons k keys)
  then show ?case using Cons.IH [of "table[unat (first_byte k) := True]"]
    by (cases "unat (first_byte k) = j") (simp_all add: mark_keys_def nth_list_update)
qed (simp add: mark_keys_def)

lemma length_mark_keys [simp]: "length (mark_keys keys table) = length table"
  by (induction keys arbitrary: table) (simp_all add: mark_keys_def)

lemma is_builtin_key_or_sysvar_iff:
  "is_builtin_key_or_sysvar k \<longleftrightarrow> k \<in> set ALL_IDS \<or> k \<in> set BUILTIN_PROGRAMS_KEYS"
proof -
  have "unat (first_byte k) < 256" using unsigned_less [of "first_byte k", where ?'a = nat] by simp
  then have "MAYBE_BUILTIN_KEY_OR_SYSVAR ! unat (first_byte k)" if "k \<in> set ALL_IDS \<or> k \<in> set BUILTIN_PROGRAMS_KEYS"
    using that by (auto simp: MAYBE_BUILTIN_KEY_OR_SYSVAR_def nth_mark_keys)
  then show ?thesis by (auto simp: is_builtin_key_or_sysvar_def is_sysvar_id_def)
qed

section \<open>Compiled keys\<close>

record CompiledKeyMeta =
  ckm_is_signer :: bool
  ckm_is_writable :: bool
  ckm_is_invoked :: bool

definition CompiledKeyMeta_default :: CompiledKeyMeta where
  "CompiledKeyMeta_default = \<lparr>ckm_is_signer = False, ckm_is_writable = False, ckm_is_invoked = False\<rparr>"

text \<open>A \<open>BTreeMap\<close> is the list of its entries in ascending order of the keys.\<close>

type_synonym key_meta_map = "(pubkey \<times> CompiledKeyMeta) list"

record CompiledKeys =
  ck_payer :: "pubkey option"
  ck_key_meta_map :: key_meta_map

datatype CompileError = AccountIndexOverflow | AddressTableLookupIndexOverflow | UnknownInstructionKey pubkey

text \<open>\<open>entry(k).or_default()\<close> followed by a change of the value.\<close>

definition entry_modify :: "(CompiledKeyMeta \<Rightarrow> CompiledKeyMeta) \<Rightarrow> pubkey \<Rightarrow> key_meta_map \<Rightarrow> key_meta_map" where
  "entry_modify f k m =
     btree_insert k (f (case map_of m k of Some meta \<Rightarrow> meta | None \<Rightarrow> CompiledKeyMeta_default)) m"

definition remove_entry :: "pubkey \<Rightarrow> key_meta_map \<Rightarrow> key_meta_map" where
  "remove_entry k m = filter (\<lambda>(k', _). k' \<noteq> k) m"

definition compile_ix :: "key_meta_map \<Rightarrow> Instruction \<Rightarrow> key_meta_map" where
  "compile_ix m ix =
     foldl (\<lambda>m account_meta. entry_modify
              (\<lambda>meta. meta\<lparr>ckm_is_signer := ckm_is_signer meta \<or> am_is_signer account_meta,
                           ckm_is_writable := ckm_is_writable meta \<or> am_is_writable account_meta\<rparr>)
              (am_pubkey account_meta) m)
       (entry_modify (\<lambda>meta. meta\<lparr>ckm_is_invoked := True\<rparr>) (ix_program_id ix) m) (ix_accounts ix)"

definition CompiledKeys_compile :: "Instruction list \<Rightarrow> pubkey option \<Rightarrow> CompiledKeys" where
  "CompiledKeys_compile instructions payer =
     (let m = foldl compile_ix [] instructions;
          m = (case payer of
                 Some k \<Rightarrow> entry_modify (\<lambda>meta. meta\<lparr>ckm_is_signer := True, ckm_is_writable := True\<rparr>) k m
               | None \<Rightarrow> m)
      in \<lparr>ck_payer = payer, ck_key_meta_map = m\<rparr>)"

record MessageHeader =
  num_required_signatures :: u8
  num_readonly_signed_accounts :: u8
  num_readonly_unsigned_accounts :: u8

definition try_into_u8 :: "nat \<Rightarrow> CompileError + u8" where
  "try_into_u8 n = (if n < 256 then Inr (of_nat n) else Inl AccountIndexOverflow)"

definition keys_with :: "(CompiledKeyMeta \<Rightarrow> bool) \<Rightarrow> key_meta_map \<Rightarrow> pubkey list" where
  "keys_with P m = map fst (filter (\<lambda>(_, meta). P meta) m)"

definition try_into_message_components :: "CompiledKeys \<Rightarrow> CompileError + MessageHeader \<times> pubkey list" where
  "try_into_message_components self =
     (let m = (case ck_payer self of Some k \<Rightarrow> remove_entry k (ck_key_meta_map self) | None \<Rightarrow> ck_key_meta_map self);
          writable_signer_keys = (case ck_payer self of Some k \<Rightarrow> [k] | None \<Rightarrow> []) @
            keys_with (\<lambda>meta. ckm_is_signer meta \<and> ckm_is_writable meta) m;
          readonly_signer_keys = keys_with (\<lambda>meta. ckm_is_signer meta \<and> \<not> ckm_is_writable meta) m;
          writable_non_signer_keys = keys_with (\<lambda>meta. \<not> ckm_is_signer meta \<and> ckm_is_writable meta) m;
          readonly_non_signer_keys = keys_with (\<lambda>meta. \<not> ckm_is_signer meta \<and> \<not> ckm_is_writable meta) m;
          signers_len = length writable_signer_keys + length readonly_signer_keys
      in
        and_then (try_into_u8 signers_len) (\<lambda>a.
        and_then (try_into_u8 (length readonly_signer_keys)) (\<lambda>b.
        and_then (try_into_u8 (length readonly_non_signer_keys)) (\<lambda>c.
        Inr (\<lparr>num_required_signatures = a, num_readonly_signed_accounts = b, num_readonly_unsigned_accounts = c\<rparr>,
             writable_signer_keys @ readonly_signer_keys @ writable_non_signer_keys @ readonly_non_signer_keys)))))"

section \<open>Legacy messages\<close>

record Message =
  header :: MessageHeader
  msg_account_keys :: "pubkey list"
  msg_recent_blockhash :: hash
  msg_instructions :: "CompiledInstruction list"

definition key_position :: "pubkey list \<Rightarrow> pubkey \<Rightarrow> u8 option" where
  "key_position keys k = map_option of_nat (position (\<lambda>k'. k' = k) keys)"

definition compile_instruction :: "Instruction \<Rightarrow> pubkey list \<Rightarrow> CompiledInstruction option" where
  "compile_instruction ix keys =
     Option.bind (those (map (\<lambda>account_meta. key_position keys (am_pubkey account_meta)) (ix_accounts ix))) (\<lambda>accs.
     Option.bind (key_position keys (ix_program_id ix)) (\<lambda>p.
     Some \<lparr>program_id_index = p, ci_accounts = accs, ci_data = ix_data ix\<rparr>))"

definition compile_instructions :: "Instruction list \<Rightarrow> pubkey list \<Rightarrow> CompiledInstruction list option" where
  "compile_instructions ixs keys = those (map (\<lambda>ix. compile_instruction ix keys) ixs)"

definition Message_new_with_blockhash :: "Instruction list \<Rightarrow> pubkey option \<Rightarrow> hash \<Rightarrow> Message option" where
  "Message_new_with_blockhash instructions payer blockhash' =
     (case try_into_message_components (CompiledKeys_compile instructions payer) of
        Inl _ \<Rightarrow> None
      | Inr (header', keys) \<Rightarrow>
          map_option (\<lambda>cis. \<lparr>header = header', msg_account_keys = keys, msg_recent_blockhash = blockhash',
                             msg_instructions = cis\<rparr>) (compile_instructions instructions keys))"

datatype SanitizeError = SE_IndexOutOfBounds | SE_ValueOutOfBounds | SE_InvalidValue

text \<open>The keys, the blockhash and the instructions have the sanitizing of the trait, which accepts.\<close>

definition sanitize_instruction :: "nat \<Rightarrow> nat \<Rightarrow> CompiledInstruction \<Rightarrow> bool" where
  "sanitize_instruction max_program_ix max_account_ix ci \<longleftrightarrow>
     unat (program_id_index ci) < max_program_ix \<and> program_id_index ci \<noteq> 0 \<and>
     (\<forall>ai \<in> set (ci_accounts ci). unat ai < max_account_ix)"

definition Message_sanitize :: "Message \<Rightarrow> SanitizeError + unit" where
  "Message_sanitize self =
     (let h = header self; n = length (msg_account_keys self) in
      if n < unat (num_required_signatures h) + unat (num_readonly_unsigned_accounts h) then Inl SE_IndexOutOfBounds
      else if num_required_signatures h \<le> num_readonly_signed_accounts h then Inl SE_IndexOutOfBounds
      else if \<not> (\<forall>ci \<in> set (msg_instructions self). sanitize_instruction n n ci) then Inl SE_IndexOutOfBounds
      else Inr ())"

definition called_as_program :: "CompiledInstruction list \<Rightarrow> nat \<Rightarrow> bool" where
  "called_as_program cis key_index \<longleftrightarrow>
     key_index < 256 \<and> (\<exists>ix \<in> set cis. program_id_index ix = of_nat key_index)"

definition passed_to_program :: "CompiledInstruction list \<Rightarrow> nat \<Rightarrow> bool" where
  "passed_to_program cis key_index \<longleftrightarrow>
     key_index < 256 \<and> (\<exists>ix \<in> set cis. of_nat key_index \<in> set (ci_accounts ix))"

definition is_upgradeable_loader_present :: "pubkey list \<Rightarrow> bool" where
  "is_upgradeable_loader_present keys \<longleftrightarrow> bpf_loader_upgradeable_id \<in> set keys"

definition demote_program_id :: "Message \<Rightarrow> nat \<Rightarrow> bool" where
  "demote_program_id self i \<longleftrightarrow>
     called_as_program (msg_instructions self) i \<and> \<not> is_upgradeable_loader_present (msg_account_keys self)"

definition Message_is_signer :: "Message \<Rightarrow> nat \<Rightarrow> bool" where
  "Message_is_signer self i \<longleftrightarrow> i < unat (num_required_signatures (header self))"

definition Message_is_writable :: "Message \<Rightarrow> nat \<Rightarrow> bool option" where
  "Message_is_writable self i =
     (let h = header self; n = length (msg_account_keys self);
          key_is_writable = map_option (\<lambda>k. \<not> is_builtin_key_or_sysvar k \<and> \<not> demote_program_id self i)
                              (get (msg_account_keys self) i)
      in
        if num_required_signatures h < num_readonly_signed_accounts h then None
        else if i < unat (num_required_signatures h - num_readonly_signed_accounts h) then key_is_writable
        else if unat (num_required_signatures h) \<le> i then
          if n < unat (num_readonly_unsigned_accounts h) then None
          else if i < n - unat (num_readonly_unsigned_accounts h) then key_is_writable
          else Some False
        else Some False)"

definition Message_is_non_loader_key :: "Message \<Rightarrow> nat \<Rightarrow> bool" where
  "Message_is_non_loader_key self i \<longleftrightarrow>
     \<not> called_as_program (msg_instructions self) i \<or> passed_to_program (msg_instructions self) i"

definition signer_keys :: "Message \<Rightarrow> pubkey list" where
  "signer_keys self = take (min (length (msg_account_keys self)) (unat (num_required_signatures (header self))))
     (msg_account_keys self)"

fun has_duplicates :: "pubkey list \<Rightarrow> bool" where
  "has_duplicates [] = False"
| "has_duplicates (k # ks) = (k \<in> set ks \<or> has_duplicates ks)"

definition Message_program_id :: "Message \<Rightarrow> nat \<Rightarrow> pubkey option option" where
  "Message_program_id self instruction_index =
     (case get (msg_instructions self) instruction_index of
        None \<Rightarrow> Some None
      | Some ci \<Rightarrow> map_option Some (get (msg_account_keys self) (unat (program_id_index ci))))"

definition Message_program_ids :: "Message \<Rightarrow> pubkey list option" where
  "Message_program_ids self =
     those (map (\<lambda>ix. get (msg_account_keys self) (unat (program_id_index ix))) (msg_instructions self))"

definition program_position :: "Message \<Rightarrow> nat \<Rightarrow> nat option option" where
  "program_position self index =
     Option.bind (Message_program_ids self) (\<lambda>program_ids.
       case get (msg_account_keys self) index of
         Some key \<Rightarrow> Some (position (\<lambda>k. k = key) program_ids)
       | None \<Rightarrow> (if program_ids = [] then Some None else None))"

definition maybe_executable :: "Message \<Rightarrow> nat \<Rightarrow> bool option" where
  "maybe_executable self i = map_option (\<lambda>p. p \<noteq> None) (program_position self i)"

section \<open>Account keys\<close>

record LoadedAddresses =
  la_writable :: "pubkey list"
  la_readonly :: "pubkey list"

definition LoadedAddresses_from_iter :: "LoadedAddresses list \<Rightarrow> LoadedAddresses" where
  "LoadedAddresses_from_iter addresses =
     \<lparr>la_writable = concat (map la_writable addresses), la_readonly = concat (map la_readonly addresses)\<rparr>"

definition LoadedAddresses_len :: "LoadedAddresses \<Rightarrow> nat" where
  "LoadedAddresses_len self = length (la_writable self) + length (la_readonly self)"

record AccountKeys =
  static_keys :: "pubkey list"
  dynamic_keys :: "LoadedAddresses option"

definition key_segment_iter :: "AccountKeys \<Rightarrow> pubkey list list" where
  "key_segment_iter self =
     (case dynamic_keys self of
        Some d \<Rightarrow> [static_keys self, la_writable d, la_readonly d]
      | None \<Rightarrow> [static_keys self, [], []])"

fun get_in_segments :: "pubkey list list \<Rightarrow> nat \<Rightarrow> pubkey option" where
  "get_in_segments [] index = None"
| "get_in_segments (key_segment # segments) index =
     (if index < length key_segment then Some (key_segment ! index)
      else get_in_segments segments (index - length key_segment))"

definition AccountKeys_get :: "AccountKeys \<Rightarrow> nat \<Rightarrow> pubkey option" where
  "AccountKeys_get self index = get_in_segments (key_segment_iter self) index"

definition AccountKeys_len :: "AccountKeys \<Rightarrow> nat" where
  "AccountKeys_len self = foldl (\<lambda>n key_segment. n + length key_segment) 0 (key_segment_iter self)"

definition AccountKeys_iter :: "AccountKeys \<Rightarrow> pubkey list" where
  "AccountKeys_iter self = concat (key_segment_iter self)"

text \<open>The index map: a later occurrence of a key replaces the index of an earlier one.\<close>

fun account_index_map :: "pubkey list \<Rightarrow> nat \<Rightarrow> (pubkey \<rightharpoonup> u8) \<Rightarrow> CompileError + (pubkey \<rightharpoonup> u8)" where
  "account_index_map [] index m = Inr m"
| "account_index_map (key # keys) index m =
     and_then (try_into_u8 index) (\<lambda>i. account_index_map keys (Suc index) (m(key \<mapsto> i)))"

fun collect_results :: "('e + 'a) list \<Rightarrow> 'e + 'a list" where
  "collect_results [] = Inr []"
| "collect_results (r # rs) = and_then r (\<lambda>x. and_then (collect_results rs) (\<lambda>xs. Inr (x # xs)))"

definition try_compile_instruction :: "(pubkey \<rightharpoonup> u8) \<Rightarrow> Instruction \<Rightarrow> CompileError + CompiledInstruction" where
  "try_compile_instruction m ix =
     and_then (collect_results (map (\<lambda>a. ok_or (m (am_pubkey a)) (UnknownInstructionKey (am_pubkey a))) (ix_accounts ix)))
       (\<lambda>accs.
     and_then (ok_or (m (ix_program_id ix)) (UnknownInstructionKey (ix_program_id ix))) (\<lambda>p.
     Inr \<lparr>program_id_index = p, ci_accounts = accs, ci_data = ix_data ix\<rparr>))"

definition try_compile_instructions :: "AccountKeys \<Rightarrow> Instruction list \<Rightarrow> CompileError + CompiledInstruction list" where
  "try_compile_instructions self instructions =
     and_then (account_index_map (AccountKeys_iter self) 0 (\<lambda>_. None)) (\<lambda>m.
     collect_results (map (try_compile_instruction m) instructions))"

section \<open>Messages of version 0\<close>

record AddressLookupTableAccount =
  lta_key :: pubkey
  lta_addresses :: "pubkey list"

record MessageAddressTableLookup =
  mtl_account_key :: pubkey
  mtl_writable_indexes :: "u8 list"
  mtl_readonly_indexes :: "u8 list"

text \<open>The index of each key that the table holds, with the key; an index above a byte is an error.\<close>

fun found_in_table :: "pubkey list \<Rightarrow> pubkey list \<Rightarrow> CompileError + (u8 \<times> pubkey) list" where
  "found_in_table addresses [] = Inr []"
| "found_in_table addresses (search_key # keys) =
     (case position (\<lambda>key. key = search_key) addresses of
        None \<Rightarrow> found_in_table addresses keys
      | Some key_index \<Rightarrow>
          if key_index < 256
          then and_then (found_in_table addresses keys) (\<lambda>found. Inr ((of_nat key_index, search_key) # found))
          else Inl AddressTableLookupIndexOverflow)"

definition try_drain_keys_found_in_lookup_table ::
  "CompiledKeys \<Rightarrow> pubkey list \<Rightarrow> (CompiledKeyMeta \<Rightarrow> bool) \<Rightarrow> CompileError + (u8 list \<times> pubkey list) \<times> CompiledKeys" where
  "try_drain_keys_found_in_lookup_table self lookup_table_addresses key_meta_filter =
     and_then (found_in_table lookup_table_addresses (keys_with key_meta_filter (ck_key_meta_map self))) (\<lambda>found.
     Inr ((map fst found, map snd found),
          self\<lparr>ck_key_meta_map := foldl (\<lambda>m key. remove_entry key m) (ck_key_meta_map self) (map snd found)\<rparr>))"

definition try_extract_table_lookup ::
  "CompiledKeys \<Rightarrow> AddressLookupTableAccount \<Rightarrow>
     CompileError + (MessageAddressTableLookup \<times> LoadedAddresses) option \<times> CompiledKeys" where
  "try_extract_table_lookup self table =
     and_then (try_drain_keys_found_in_lookup_table self (lta_addresses table)
       (\<lambda>meta. \<not> ckm_is_signer meta \<and> \<not> ckm_is_invoked meta \<and> ckm_is_writable meta))
       (\<lambda>((writable_indexes, drained_writable_keys), self).
     and_then (try_drain_keys_found_in_lookup_table self (lta_addresses table)
       (\<lambda>meta. \<not> ckm_is_signer meta \<and> \<not> ckm_is_invoked meta \<and> \<not> ckm_is_writable meta))
       (\<lambda>((readonly_indexes, drained_readonly_keys), self).
     Inr (if writable_indexes = [] \<and> readonly_indexes = [] then None
          else Some (\<lparr>mtl_account_key = lta_key table, mtl_writable_indexes = writable_indexes,
                      mtl_readonly_indexes = readonly_indexes\<rparr>,
                     \<lparr>la_writable = drained_writable_keys, la_readonly = drained_readonly_keys\<rparr>), self)))"

fun extract_table_lookups ::
  "CompiledKeys \<Rightarrow> AddressLookupTableAccount list \<Rightarrow>
     CompileError + (MessageAddressTableLookup \<times> LoadedAddresses) list \<times> CompiledKeys" where
  "extract_table_lookups self [] = Inr ([], self)"
| "extract_table_lookups self (table # tables) =
     and_then (try_extract_table_lookup self table) (\<lambda>(lookup, self).
     and_then (extract_table_lookups self tables) (\<lambda>(lookups, self).
     Inr ((case lookup of None \<Rightarrow> [] | Some l \<Rightarrow> [l]) @ lookups, self)))"

record MessageV0 = Message +
  address_table_lookups :: "MessageAddressTableLookup list"

definition try_compile ::
  "pubkey \<Rightarrow> Instruction list \<Rightarrow> AddressLookupTableAccount list \<Rightarrow> hash \<Rightarrow> CompileError + MessageV0" where
  "try_compile payer instructions tables blockhash' =
     and_then (extract_table_lookups (CompiledKeys_compile instructions (Some payer)) tables) (\<lambda>(lookups, compiled_keys).
     and_then (try_into_message_components compiled_keys) (\<lambda>(header', static).
     and_then (try_compile_instructions
                 \<lparr>static_keys = static, dynamic_keys = Some (LoadedAddresses_from_iter (map snd lookups))\<rparr> instructions)
       (\<lambda>cis.
     Inr \<lparr>header = header', msg_account_keys = static, msg_recent_blockhash = blockhash', msg_instructions = cis,
          address_table_lookups = map fst lookups\<rparr>)))"

fun count_lookup_keys :: "MessageAddressTableLookup list \<Rightarrow> nat \<Rightarrow> SanitizeError + nat" where
  "count_lookup_keys [] total_keys = Inr total_keys"
| "count_lookup_keys (lookup # lookups) total_keys =
     (let n = length (mtl_writable_indexes lookup) + length (mtl_readonly_indexes lookup) in
      if n = 0 then Inl SE_InvalidValue else count_lookup_keys lookups (total_keys + n))"

definition MessageV0_sanitize :: "bool \<Rightarrow> MessageV0 \<Rightarrow> SanitizeError + unit" where
  "MessageV0_sanitize reject_dynamic_program_ids self =
     (let h = header self; num_static = length (msg_account_keys self) in
      if num_static < unat (num_required_signatures h) + unat (num_readonly_unsigned_accounts h)
      then Inl SE_IndexOutOfBounds
      else if num_required_signatures h \<le> num_readonly_signed_accounts h then Inl SE_InvalidValue
      else and_then (count_lookup_keys (address_table_lookups self) 0) (\<lambda>num_dynamic.
        if num_static = 0 then Inl SE_InvalidValue
        else let total_keys = num_static + num_dynamic in
          if 256 < total_keys then Inl SE_IndexOutOfBounds
          else let max_account_ix = total_keys - 1;
                   max_program_id_ix = (if reject_dynamic_program_ids then num_static - 1 else max_account_ix) in
            if \<forall>ci \<in> set (msg_instructions self).
                 sanitize_instruction (Suc max_program_id_ix) (Suc max_account_ix) ci
            then Inr () else Inl SE_IndexOutOfBounds))"

definition MessageV0_is_writable_index :: "MessageV0 \<Rightarrow> nat \<Rightarrow> nat \<Rightarrow> bool" where
  "MessageV0_is_writable_index self num_writable_dynamic key_index =
     (let h = header self; num_account_keys = length (msg_account_keys self);
          num_signed_accounts = unat (num_required_signatures h) in
      if num_account_keys \<le> key_index then key_index - num_account_keys < num_writable_dynamic
      else if num_signed_accounts \<le> key_index then
        key_index - num_signed_accounts
          < num_account_keys - num_signed_accounts - unat (num_readonly_unsigned_accounts h)
      else key_index < num_signed_accounts - unat (num_readonly_signed_accounts h))"

definition is_maybe_writable :: "MessageV0 \<Rightarrow> nat \<Rightarrow> bool" where
  "is_maybe_writable self key_index \<longleftrightarrow>
     MessageV0_is_writable_index self
       (sum_list (map (\<lambda>lookup. length (mtl_writable_indexes lookup)) (address_table_lookups self))) key_index \<and>
     \<not> (case get (msg_account_keys self) key_index of Some k \<Rightarrow> is_builtin_key_or_sysvar k | None \<Rightarrow> False) \<and>
     \<not> (called_as_program (msg_instructions self) key_index \<and>
        \<not> is_upgradeable_loader_present (msg_account_keys self))"

section \<open>Sanitized messages\<close>

record LoadedMessage =
  lm_message :: MessageV0
  lm_loaded_addresses :: LoadedAddresses
  lm_is_writable_account_cache :: "bool list"

definition LoadedMessage_account_keys :: "LoadedMessage \<Rightarrow> AccountKeys" where
  "LoadedMessage_account_keys self =
     \<lparr>static_keys = msg_account_keys (lm_message self), dynamic_keys = Some (lm_loaded_addresses self)\<rparr>"

fun any_seen :: "pubkey set \<Rightarrow> pubkey list \<Rightarrow> bool" where
  "any_seen uniq [] = False"
| "any_seen uniq (x # xs) = (x \<in> uniq \<or> any_seen (insert x uniq) xs)"

definition LoadedMessage_has_duplicates :: "LoadedMessage \<Rightarrow> bool" where
  "LoadedMessage_has_duplicates self = any_seen {} (AccountKeys_iter (LoadedMessage_account_keys self))"

definition LoadedMessage_is_writable_index :: "LoadedMessage \<Rightarrow> nat \<Rightarrow> bool" where
  "LoadedMessage_is_writable_index self key_index =
     MessageV0_is_writable_index (lm_message self) (length (la_writable (lm_loaded_addresses self))) key_index"

definition LoadedMessage_demote_program_id :: "LoadedMessage \<Rightarrow> nat \<Rightarrow> bool" where
  "LoadedMessage_demote_program_id self i \<longleftrightarrow>
     called_as_program (msg_instructions (lm_message self)) i \<and>
     \<not> is_upgradeable_loader_present (AccountKeys_iter (LoadedMessage_account_keys self))"

definition is_writable_internal :: "LoadedMessage \<Rightarrow> nat \<Rightarrow> bool" where
  "is_writable_internal self key_index \<longleftrightarrow>
     LoadedMessage_is_writable_index self key_index \<and>
     (case AccountKeys_get (LoadedMessage_account_keys self) key_index of
        Some key \<Rightarrow> \<not> (is_builtin_key_or_sysvar key \<or> LoadedMessage_demote_program_id self key_index)
      | None \<Rightarrow> False)"

definition set_is_writable_account_cache :: "LoadedMessage \<Rightarrow> LoadedMessage" where
  "set_is_writable_account_cache self = self\<lparr>lm_is_writable_account_cache :=
     map (is_writable_internal self) [0..<length (AccountKeys_iter (LoadedMessage_account_keys self))]\<rparr>"

definition LoadedMessage_new :: "MessageV0 \<Rightarrow> LoadedAddresses \<Rightarrow> LoadedMessage" where
  "LoadedMessage_new message loaded_addresses = set_is_writable_account_cache
     \<lparr>lm_message = message, lm_loaded_addresses = loaded_addresses, lm_is_writable_account_cache = []\<rparr>"

record LegacyMessage =
  lgm_message :: Message
  lgm_is_writable_account_cache :: "bool list"

definition LegacyMessage_new :: "Message \<Rightarrow> LegacyMessage option" where
  "LegacyMessage_new message =
     map_option (\<lambda>cache. \<lparr>lgm_message = message, lgm_is_writable_account_cache = cache\<rparr>)
       (those (map (Message_is_writable message) [0..<length (msg_account_keys message)]))"

datatype SanitizedMessage = SM_Legacy LegacyMessage | SM_V0 LoadedMessage

datatype AddressLoaderError =
    AL_Disabled
  | AL_SlotHashesSysvarNotFound
  | AL_LookupTableAccountNotFound
  | AL_InvalidAccountOwner
  | AL_InvalidAccountData
  | AL_InvalidLookupIndex

datatype SanitizeMessageError =
    SME_IndexOutOfBounds
  | SME_ValueOutOfBounds
  | SME_InvalidValue
  | SME_AddressLoaderError AddressLoaderError

fun sanitize_message_error :: "SanitizeError \<Rightarrow> SanitizeMessageError" where
  "sanitize_message_error SE_IndexOutOfBounds = SME_IndexOutOfBounds"
| "sanitize_message_error SE_ValueOutOfBounds = SME_ValueOutOfBounds"
| "sanitize_message_error SE_InvalidValue = SME_InvalidValue"

definition SanitizedMessage_try_from :: "Message \<Rightarrow> SanitizeMessageError fault + SanitizedMessage" where
  "SanitizedMessage_try_from message =
     and_then (map_err (Fault \<circ> sanitize_message_error) (Message_sanitize message)) (\<lambda>_.
     ok_or (map_option SM_Legacy (LegacyMessage_new message)) Panic)"

datatype VersionedMessage = VM_Legacy Message | VM_V0 MessageV0

fun VersionedMessage_sanitize :: "bool \<Rightarrow> VersionedMessage \<Rightarrow> SanitizeError + unit" where
  "VersionedMessage_sanitize require_static_program_ids (VM_Legacy message) = Message_sanitize message"
| "VersionedMessage_sanitize require_static_program_ids (VM_V0 message) =
     MessageV0_sanitize require_static_program_ids message"

text \<open>A sanitized versioned message is the message, once \<open>try_new\<close> has accepted it.\<close>

definition SanitizedVersionedMessage_try_new :: "VersionedMessage \<Rightarrow> SanitizeError + VersionedMessage" where
  "SanitizedVersionedMessage_try_new message =
     and_then (VersionedMessage_sanitize True message) (\<lambda>_. Inr message)"

datatype SimpleAddressLoader = Loader_Disabled | Loader_Enabled LoadedAddresses

fun SimpleAddressLoader_load_addresses ::
  "SimpleAddressLoader \<Rightarrow> MessageAddressTableLookup list \<Rightarrow> AddressLoaderError + LoadedAddresses" where
  "SimpleAddressLoader_load_addresses Loader_Disabled lookups = Inl AL_Disabled"
| "SimpleAddressLoader_load_addresses (Loader_Enabled loaded_addresses) lookups = Inr loaded_addresses"

fun SanitizedMessage_try_new ::
  "VersionedMessage \<Rightarrow> (MessageAddressTableLookup list \<Rightarrow> AddressLoaderError + LoadedAddresses) \<Rightarrow>
     SanitizeMessageError fault + SanitizedMessage" where
  "SanitizedMessage_try_new (VM_Legacy message) load_addresses =
     ok_or (map_option SM_Legacy (LegacyMessage_new message)) Panic"
| "SanitizedMessage_try_new (VM_V0 message) load_addresses =
     and_then (map_err (Fault \<circ> SME_AddressLoaderError) (load_addresses (address_table_lookups message)))
       (\<lambda>loaded_addresses. Inr (SM_V0 (LoadedMessage_new message loaded_addresses)))"

fun SanitizedMessage_has_duplicates :: "SanitizedMessage \<Rightarrow> bool" where
  "SanitizedMessage_has_duplicates (SM_Legacy message) = has_duplicates (msg_account_keys (lgm_message message))"
| "SanitizedMessage_has_duplicates (SM_V0 message) = LoadedMessage_has_duplicates message"

fun SanitizedMessage_header :: "SanitizedMessage \<Rightarrow> MessageHeader" where
  "SanitizedMessage_header (SM_Legacy message) = header (lgm_message message)"
| "SanitizedMessage_header (SM_V0 message) = header (lm_message message)"

fun SanitizedMessage_instructions :: "SanitizedMessage \<Rightarrow> CompiledInstruction list" where
  "SanitizedMessage_instructions (SM_Legacy message) = msg_instructions (lgm_message message)"
| "SanitizedMessage_instructions (SM_V0 message) = msg_instructions (lm_message message)"

fun SanitizedMessage_account_keys :: "SanitizedMessage \<Rightarrow> AccountKeys" where
  "SanitizedMessage_account_keys (SM_Legacy message) =
     \<lparr>static_keys = msg_account_keys (lgm_message message), dynamic_keys = None\<rparr>"
| "SanitizedMessage_account_keys (SM_V0 message) = LoadedMessage_account_keys message"

definition cached :: "bool list \<Rightarrow> nat \<Rightarrow> bool" where
  "cached is_writable_account_cache index =
     (case get is_writable_account_cache index of Some b \<Rightarrow> b | None \<Rightarrow> False)"

fun SanitizedMessage_is_writable :: "SanitizedMessage \<Rightarrow> nat \<Rightarrow> bool" where
  "SanitizedMessage_is_writable (SM_Legacy message) index = cached (lgm_is_writable_account_cache message) index"
| "SanitizedMessage_is_writable (SM_V0 message) index = cached (lm_is_writable_account_cache message) index"

definition SanitizedMessage_is_signer :: "SanitizedMessage \<Rightarrow> nat \<Rightarrow> bool" where
  "SanitizedMessage_is_signer self index \<longleftrightarrow>
     index < unat (num_required_signatures (SanitizedMessage_header self))"

definition fee_payer :: "SanitizedMessage \<Rightarrow> pubkey option" where
  "fee_payer self = AccountKeys_get (SanitizedMessage_account_keys self) 0"

definition program_instructions_iter :: "SanitizedMessage \<Rightarrow> (pubkey \<times> CompiledInstruction) option list" where
  "program_instructions_iter self =
     map (\<lambda>ix. map_option (\<lambda>k. (k, ix))
                 (AccountKeys_get (SanitizedMessage_account_keys self) (unat (program_id_index ix))))
       (SanitizedMessage_instructions self)"

definition SanitizedMessage_is_non_loader_key :: "SanitizedMessage \<Rightarrow> nat \<Rightarrow> bool" where
  "SanitizedMessage_is_non_loader_key self key_index \<longleftrightarrow>
     \<not> called_as_program (SanitizedMessage_instructions self) key_index \<or>
     passed_to_program (SanitizedMessage_instructions self) key_index"

fun loaded_lookup_table_addresses :: "SanitizedMessage \<Rightarrow> LoadedAddresses option" where
  "loaded_lookup_table_addresses (SM_V0 message) = Some (lm_loaded_addresses message)"
| "loaded_lookup_table_addresses (SM_Legacy message) = None"

definition num_readonly_accounts :: "SanitizedMessage \<Rightarrow> nat" where
  "num_readonly_accounts self =
     (case loaded_lookup_table_addresses self of Some keys \<Rightarrow> length (la_readonly keys) | None \<Rightarrow> 0) +
     unat (num_readonly_signed_accounts (SanitizedMessage_header self)) +
     unat (num_readonly_unsigned_accounts (SanitizedMessage_header self))"

text \<open>\<open>BorrowedInstruction\<close> is an \<open>Instruction\<close> that does not own its parts.\<close>

definition decompile_instruction :: "SanitizedMessage \<Rightarrow> pubkey \<times> CompiledInstruction \<Rightarrow> Instruction option" where
  "decompile_instruction self = (\<lambda>(program_id, ix).
     map_option (\<lambda>metas. \<lparr>ix_program_id = program_id, ix_accounts = metas, ix_data = ci_data ix\<rparr>)
       (those (map (\<lambda>account_index.
          map_option (\<lambda>k. \<lparr>am_pubkey = k,
                            am_is_signer = SanitizedMessage_is_signer self (unat account_index),
                            am_is_writable = SanitizedMessage_is_writable self (unat account_index)\<rparr>)
            (AccountKeys_get (SanitizedMessage_account_keys self) (unat account_index))) (ci_accounts ix))))"

definition decompile_instructions :: "SanitizedMessage \<Rightarrow> Instruction list option" where
  "decompile_instructions self =
     Option.bind (those (program_instructions_iter self)) (\<lambda>ixs. those (map (decompile_instruction self) ixs))"

definition get_ix_signers :: "SanitizedMessage \<Rightarrow> nat \<Rightarrow> pubkey list" where
  "get_ix_signers self ix_index =
     (case get (SanitizedMessage_instructions self) ix_index of
        None \<Rightarrow> []
      | Some ix \<Rightarrow> List.map_filter (AccountKeys_get (SanitizedMessage_account_keys self))
                    (filter (SanitizedMessage_is_signer self) (map unat (ci_accounts ix))))"

text \<open>\<open>decode\<close> is the decoder of system instructions bounded to four bytes.\<close>

definition get_durable_nonce ::
  "(bytes \<Rightarrow> SystemInstruction option) \<Rightarrow> SanitizedMessage \<Rightarrow> pubkey option" where
  "get_durable_nonce decode self =
     (case SanitizedMessage_instructions self of
        [] \<Rightarrow> None
      | ix # _ \<Rightarrow>
          if AccountKeys_get (SanitizedMessage_account_keys self) (unat (program_id_index ix)) = Some system_program_id \<and>
             limited_deserialize decode (ci_data ix) = Inr AdvanceNonceAccount
          then case ci_accounts ix of
                 [] \<Rightarrow> None
               | i # _ \<Rightarrow>
                   if \<not> SanitizedMessage_is_writable self (unat i) then None
                   else AccountKeys_get (SanitizedMessage_account_keys self) (unat i)
          else None)"

end
