(* ===== verification/MessageCompile.thy ===== *)
theory MessageCompile
  imports Messages VoteRecords
begin

text \<open>
  What compiling a list of instructions into a message guarantees: the keys are distinct with the
  payer first, the header splits them into the four groups the instructions asked for, every
  index of a compiled instruction resolves to the key it stands for, and the message passes
  sanitizing.  Both message formats are covered; they share the collection of keys and the lemmas
  on it.
\<close>

section \<open>Lists of options and results\<close>

lemma those_map_eq_Some_iff: "those (map f xs) = Some ys \<longleftrightarrow> list_all2 (\<lambda>x y. f x = Some y) xs ys"
proof (induction xs arbitrary: ys)
  case (Cons x xs)
  show ?case
  proof (cases ys)
    case (Cons y ys')
    then show ?thesis using Cons.IH [of ys'] by (auto simp: map_option_case split: option.splits)
  qed (auto simp: map_option_case split: option.splits)
qed auto

lemma those_map_the: "(\<And>x. x \<in> set xs \<Longrightarrow> \<exists>y. f x = Some y) \<Longrightarrow> those (map f xs) = Some (map (\<lambda>x. the (f x)) xs)"
  by (induction xs) (simp, fastforce)

lemma collect_results_map_eq_Inr_iff:
  "collect_results (map f xs) = Inr ys \<longleftrightarrow> list_all2 (\<lambda>x y. f x = Inr y) xs ys"
proof (induction xs arbitrary: ys)
  case (Cons x xs)
  show ?case by (cases ys) (auto simp: and_then_eq_Inr_iff Cons.IH)
qed auto

lemma get_in_segments_concat: "get_in_segments segments i = get (concat segments) i"
  by (induction segments i rule: get_in_segments.induct) (auto simp: get_def nth_append)

lemma AccountKeys_get_iter: "AccountKeys_get self i = get (AccountKeys_iter self) i"
  by (simp add: AccountKeys_get_def AccountKeys_iter_def get_in_segments_concat)

lemma AccountKeys_iter_simps [simp]:
  "AccountKeys_iter \<lparr>static_keys = ks, dynamic_keys = None\<rparr> = ks"
  "AccountKeys_iter \<lparr>static_keys = ks, dynamic_keys = Some la\<rparr> = ks @ la_writable la @ la_readonly la"
  by (simp_all add: AccountKeys_iter_def key_segment_iter_def)

lemma has_duplicates_iff: "has_duplicates ks \<longleftrightarrow> \<not> distinct ks"
  by (induction ks) auto

lemma any_seen_iff: "any_seen uniq ks \<longleftrightarrow> \<not> distinct ks \<or> uniq \<inter> set ks \<noteq> {}"
  by (induction uniq ks rule: any_seen.induct) auto

section \<open>The collected keys\<close>

text \<open>Every mention of a key asks for some of its flags; the map holds their union.\<close>

definition unite :: "CompiledKeyMeta \<Rightarrow> CompiledKeyMeta \<Rightarrow> CompiledKeyMeta" where
  "unite t meta = \<lparr>ckm_is_signer = ckm_is_signer meta \<or> ckm_is_signer t,
                   ckm_is_writable = ckm_is_writable meta \<or> ckm_is_writable t,
                   ckm_is_invoked = ckm_is_invoked meta \<or> ckm_is_invoked t\<rparr>"

definition mention :: "key_meta_map \<Rightarrow> pubkey \<times> CompiledKeyMeta \<Rightarrow> key_meta_map" where
  "mention m = (\<lambda>(k, t). entry_modify (unite t) k m)"

definition ix_mentions :: "Instruction \<Rightarrow> (pubkey \<times> CompiledKeyMeta) list" where
  "ix_mentions ix =
     (ix_program_id ix, \<lparr>ckm_is_signer = False, ckm_is_writable = False, ckm_is_invoked = True\<rparr>) #
     map (\<lambda>am. (am_pubkey am, \<lparr>ckm_is_signer = am_is_signer am, ckm_is_writable = am_is_writable am,
                               ckm_is_invoked = False\<rparr>)) (ix_accounts ix)"

definition mentions :: "Instruction list \<Rightarrow> pubkey option \<Rightarrow> (pubkey \<times> CompiledKeyMeta) list" where
  "mentions ixs payer = concat (map ix_mentions ixs) @
     (case payer of
        Some k \<Rightarrow> [(k, \<lparr>ckm_is_signer = True, ckm_is_writable = True, ckm_is_invoked = False\<rparr>)]
      | None \<Rightarrow> [])"

lemma unite_simps [simp]:
  "ckm_is_signer (unite t meta) \<longleftrightarrow> ckm_is_signer meta \<or> ckm_is_signer t"
  "ckm_is_writable (unite t meta) \<longleftrightarrow> ckm_is_writable meta \<or> ckm_is_writable t"
  "ckm_is_invoked (unite t meta) \<longleftrightarrow> ckm_is_invoked meta \<or> ckm_is_invoked t"
  by (simp_all add: unite_def)

lemma compile_ix_mentions: "compile_ix m ix = foldl mention m (ix_mentions ix)"
proof -
  have "(\<lambda>meta. meta\<lparr>ckm_is_invoked := True\<rparr>) =
      unite \<lparr>ckm_is_signer = False, ckm_is_writable = False, ckm_is_invoked = True\<rparr>"
    by (auto simp: unite_def fun_eq_iff intro!: CompiledKeyMeta.equality)
  moreover have "(\<lambda>meta. meta\<lparr>ckm_is_signer := ckm_is_signer meta \<or> s, ckm_is_writable := ckm_is_writable meta \<or> w\<rparr>) =
      unite \<lparr>ckm_is_signer = s, ckm_is_writable = w, ckm_is_invoked = False\<rparr>" for s w
    by (auto simp: unite_def fun_eq_iff intro!: CompiledKeyMeta.equality)
  ultimately show ?thesis
    by (simp add: compile_ix_def ix_mentions_def mention_def foldl_map)
qed

lemma compile_mentions:
  "ck_key_meta_map (CompiledKeys_compile ixs payer) = foldl mention [] (mentions ixs payer)"
proof -
  have "(\<lambda>meta. meta\<lparr>ckm_is_signer := True, ckm_is_writable := True\<rparr>) =
      unite \<lparr>ckm_is_signer = True, ckm_is_writable = True, ckm_is_invoked = False\<rparr>"
    by (auto simp: unite_def fun_eq_iff intro!: CompiledKeyMeta.equality)
  moreover have "foldl compile_ix m ixs = foldl mention m (concat (map ix_mentions ixs))" for m
    by (induction ixs arbitrary: m) (simp_all add: compile_ix_mentions)
  ultimately show ?thesis
    by (simp add: CompiledKeys_compile_def mentions_def mention_def split: option.split)
qed

text \<open>The flags asked for a key.\<close>

definition asked :: "(pubkey \<times> CompiledKeyMeta) list \<Rightarrow> pubkey \<Rightarrow> CompiledKeyMeta" where
  "asked ts k =
     \<lparr>ckm_is_signer = (\<exists>t \<in> set ts. fst t = k \<and> ckm_is_signer (snd t)),
      ckm_is_writable = (\<exists>t \<in> set ts. fst t = k \<and> ckm_is_writable (snd t)),
      ckm_is_invoked = (\<exists>t \<in> set ts. fst t = k \<and> ckm_is_invoked (snd t))\<rparr>"

lemma asked_snoc_other: "k \<noteq> k' \<Longrightarrow> asked (ts @ [(k', t)]) k = asked ts k"
  by (simp add: asked_def)

lemma asked_snoc_same: "asked (ts @ [(k, t)]) k = unite t (asked ts k)"
  by (auto simp: asked_def unite_def)

lemma asked_unmentioned: "k \<notin> fst ` set ts \<Longrightarrow> asked ts k = CompiledKeyMeta_default"
  by (auto simp: asked_def CompiledKeyMeta_default_def)

lemma map_of_foldl_mention:
  "map_of (foldl mention [] ts) = (\<lambda>k. if k \<in> fst ` set ts then Some (asked ts k) else None)"
proof (induction ts rule: rev_induct)
  case (snoc t ts)
  obtain k' f where t: "t = (k', f)" by force
  show ?case
  proof
    fix k
    show "map_of (foldl mention [] (ts @ [t])) k =
        (if k \<in> fst ` set (ts @ [t]) then Some (asked (ts @ [t]) k) else None)"
      by (cases "k = k'")
        (simp_all add: t mention_def entry_modify_def map_of_btree_insert snoc.IH asked_snoc_other
          asked_snoc_same asked_unmentioned)
  qed
qed simp

lemma ascending_foldl_mention: "ascending (foldl mention [] ts)"
  by (induction ts rule: rev_induct)
    (auto simp: mention_def entry_modify_def ascending_btree_insert ascending_def [of "[]"] split: prod.split)

lemma ascending_compile: "ascending (ck_key_meta_map (CompiledKeys_compile ixs payer))"
  by (simp add: compile_mentions ascending_foldl_mention)

section \<open>The order of the keys\<close>

lemma ascending_filter: "ascending m \<Longrightarrow> ascending (filter P m)"
  by (simp add: ascending_def sorted_wrt_filter)

lemma ascending_remove_entry: "ascending m \<Longrightarrow> ascending (remove_entry k m)"
  by (simp add: remove_entry_def ascending_filter)

lemma map_of_remove_entry: "map_of (remove_entry k m) = (map_of m)(k := None)"
  unfolding remove_entry_def by (induction m) (auto simp: fun_eq_iff)

lemma set_keys_with:
  "ascending m \<Longrightarrow> set (keys_with P m) = {k. \<exists>meta. map_of m k = Some meta \<and> P meta}"
  using ascending_distinct [of m] by (force simp: keys_with_def)

lemma distinct_keys_with: "ascending m \<Longrightarrow> distinct (keys_with P m)"
  using ascending_distinct [OF ascending_filter] by (simp add: keys_with_def)

text \<open>An index in the ranges the header reserves for writable accounts.\<close>

definition in_writable_range :: "MessageHeader \<Rightarrow> nat \<Rightarrow> nat \<Rightarrow> bool" where
  "in_writable_range h n i \<longleftrightarrow>
     i < unat (num_required_signatures h) - unat (num_readonly_signed_accounts h) \<or>
     unat (num_required_signatures h) \<le> i \<and> i < n - unat (num_readonly_unsigned_accounts h)"

lemma nth_in_prefix:
  assumes "distinct (xs @ ys)" and "i < length (xs @ ys)"
  shows "(xs @ ys) ! i \<in> set xs \<longleftrightarrow> i < length xs"
proof (cases "i < length xs")
  case False
  then have "(xs @ ys) ! i \<in> set ys" using assms(2) by (simp add: nth_append)
  then show ?thesis using assms(1) False by auto
qed (simp add: nth_append)

lemma segment_index:
  assumes "distinct (a @ b @ c @ d)" and "i < length (a @ b @ c @ d)"
  shows "(a @ b @ c @ d) ! i \<in> set a \<union> set b \<longleftrightarrow> i < length a + length b"
    and "(a @ b @ c @ d) ! i \<in> set a \<union> set c \<longleftrightarrow>
      i < length a \<or> length a + length b \<le> i \<and> i < length a + length b + length c"
proof -
  let ?k = "(a @ b @ c @ d) ! i"
  have a: "?k \<in> set a \<longleftrightarrow> i < length a"
    using assms nth_in_prefix [of a "b @ c @ d" i] by simp
  have ab: "?k \<in> set a \<or> ?k \<in> set b \<longleftrightarrow> i < length a + length b"
    using assms nth_in_prefix [of "a @ b" "c @ d" i] by simp
  have abc: "?k \<in> set a \<or> ?k \<in> set b \<or> ?k \<in> set c \<longleftrightarrow> i < length a + length b + length c"
    using assms nth_in_prefix [of "a @ b @ c" d i] by (simp add: add.assoc)
  have "set b \<inter> set c = {}" "set a \<inter> set b = {}" using assms(1) by auto
  then have "\<not> (?k \<in> set b \<and> ?k \<in> set c)" "\<not> (?k \<in> set a \<and> ?k \<in> set b)" by blast+
  then show "?k \<in> set a \<union> set c \<longleftrightarrow>
      i < length a \<or> length a + length b \<le> i \<and> i < length a + length b + length c"
    unfolding Un_iff not_less [symmetric] a [symmetric] ab [symmetric] abc [symmetric] by blast
  show "?k \<in> set a \<union> set b \<longleftrightarrow> i < length a + length b" using ab by simp
qed

text \<open>
  The components of a message: the payer first, no key twice, and the ranges of the header are the
  flags of the keys.
\<close>

lemma try_into_u8_eq_Inr_iff: "try_into_u8 n = Inr b \<longleftrightarrow> n < 256 \<and> b = of_nat n"
  by (auto simp: try_into_u8_def)

lemma unat_of_nat_byte: "n < 256 \<Longrightarrow> unat (of_nat n :: u8) = n"
  by (simp add: unat_of_nat take_bit_nat_eq_self)

lemma message_components:
  assumes run: "try_into_message_components self = Inr (h, keys)"
    and payer: "ck_payer self = Some p" and asc: "ascending (ck_key_meta_map self)"
    and meta: "map_of (ck_key_meta_map self) p = Some pm" "ckm_is_signer pm" "ckm_is_writable pm"
  obtains rest where "keys = p # rest" and "distinct keys" and "set keys = dom (map_of (ck_key_meta_map self))"
    and "\<And>i. i < length keys \<Longrightarrow>
      i < unat (num_required_signatures h) \<longleftrightarrow> ckm_is_signer (the (map_of (ck_key_meta_map self) (keys ! i)))"
    and "\<And>i. i < length keys \<Longrightarrow>
      in_writable_range h (length keys) i \<longleftrightarrow> ckm_is_writable (the (map_of (ck_key_meta_map self) (keys ! i)))"
    and "num_readonly_signed_accounts h < num_required_signatures h"
    and "unat (num_required_signatures h) + unat (num_readonly_unsigned_accounts h) \<le> length keys"
proof -
  define m where "m = remove_entry p (ck_key_meta_map self)"
  define ws where "ws = p # keys_with (\<lambda>meta. ckm_is_signer meta \<and> ckm_is_writable meta) m"
  define rs where "rs = keys_with (\<lambda>meta. ckm_is_signer meta \<and> \<not> ckm_is_writable meta) m"
  define wn where "wn = keys_with (\<lambda>meta. \<not> ckm_is_signer meta \<and> ckm_is_writable meta) m"
  define rn where "rn = keys_with (\<lambda>meta. \<not> ckm_is_signer meta \<and> \<not> ckm_is_writable meta) m"
  note defs = ws_def rs_def wn_def rn_def
  from run have fits: "length ws + length rs < 256" "length rs < 256" "length rn < 256"
    and h: "h = \<lparr>num_required_signatures = of_nat (length ws + length rs),
      num_readonly_signed_accounts = of_nat (length rs), num_readonly_unsigned_accounts = of_nat (length rn)\<rparr>"
    and keys: "keys = ws @ rs @ wn @ rn"
    by (simp_all add: try_into_message_components_def Let_def payer m_def defs and_then_eq_Inr_iff
        try_into_u8_eq_Inr_iff split: prod.splits)
  have m: "ascending m" using asc by (simp add: m_def ascending_remove_entry)
  have look: "map_of m = (map_of (ck_key_meta_map self))(p := None)" by (simp add: m_def map_of_remove_entry)
  note mem = set_keys_with [OF m]
  have dist: "distinct keys" unfolding keys
    by (auto simp: defs distinct_keys_with [OF m] mem look)
  have unats: "unat (num_required_signatures h) = length ws + length rs"
    "unat (num_readonly_signed_accounts h) = length rs" "unat (num_readonly_unsigned_accounts h) = length rn"
    using fits by (simp_all only: h MessageHeader.simps unat_of_nat_byte)
  have dom: "set keys = dom (map_of (ck_key_meta_map self))"
    using meta(1) by (auto simp: keys defs mem look split: if_splits)
  have signer: "i < unat (num_required_signatures h) \<longleftrightarrow>
      ckm_is_signer (the (map_of (ck_key_meta_map self) (keys ! i)))" if i: "i < length keys" for i
  proof -
    obtain meta' where "map_of (ck_key_meta_map self) (keys ! i) = Some meta'"
      using nth_mem [OF i] dom by auto
    then have "ckm_is_signer (the (map_of (ck_key_meta_map self) (keys ! i))) \<longleftrightarrow> keys ! i \<in> set ws \<union> set rs"
      using meta by (auto simp: defs mem look)
    then show ?thesis using segment_index(1) [of ws rs wn rn i] dist i by (simp add: unats keys)
  qed
  have writable: "in_writable_range h (length keys) i \<longleftrightarrow>
      ckm_is_writable (the (map_of (ck_key_meta_map self) (keys ! i)))" if i: "i < length keys" for i
  proof -
    obtain meta' where "map_of (ck_key_meta_map self) (keys ! i) = Some meta'"
      using nth_mem [OF i] dom by auto
    then have "ckm_is_writable (the (map_of (ck_key_meta_map self) (keys ! i))) \<longleftrightarrow> keys ! i \<in> set ws \<union> set wn"
      using meta by (auto simp: defs mem look)
    moreover have "in_writable_range h (length keys) i \<longleftrightarrow>
        i < length ws \<or> length ws + length rs \<le> i \<and> i < length ws + length rs + length wn"
      by (auto simp: in_writable_range_def unats keys)
    ultimately show ?thesis using segment_index(2) [of ws rs wn rn i] dist i by (simp add: keys)
  qed
  show ?thesis
  proof (rule that [OF _ dist dom signer writable])
    show "keys = p # (tl ws @ rs @ wn @ rn)" by (simp add: keys ws_def)
    show "num_readonly_signed_accounts h < num_required_signatures h"
      by (simp add: word_less_nat_alt unats ws_def)
    show "unat (num_required_signatures h) + unat (num_readonly_unsigned_accounts h) \<le> length keys"
      by (simp add: unats keys)
  qed
qed

section \<open>What the instructions ask for\<close>

definition signs :: "Instruction list \<Rightarrow> pubkey \<Rightarrow> pubkey \<Rightarrow> bool" where
  "signs ixs payer k \<longleftrightarrow>
     k = payer \<or> (\<exists>ix \<in> set ixs. \<exists>am \<in> set (ix_accounts ix). am_pubkey am = k \<and> am_is_signer am)"

definition asks_to_write :: "Instruction list \<Rightarrow> pubkey \<Rightarrow> pubkey \<Rightarrow> bool" where
  "asks_to_write ixs payer k \<longleftrightarrow>
     k = payer \<or> (\<exists>ix \<in> set ixs. \<exists>am \<in> set (ix_accounts ix). am_pubkey am = k \<and> am_is_writable am)"

definition invoked :: "Instruction list \<Rightarrow> pubkey \<Rightarrow> bool" where
  "invoked ixs k \<longleftrightarrow> k \<in> ix_program_id ` set ixs"

definition mentioned :: "Instruction list \<Rightarrow> pubkey \<Rightarrow> pubkey set" where
  "mentioned ixs payer =
     insert payer (ix_program_id ` set ixs \<union> (\<Union>ix \<in> set ixs. am_pubkey ` set (ix_accounts ix)))"

text \<open>
  A reserved key is never writable, and a program that is invoked only when the upgradeable loader
  is among the keys.
\<close>

definition writes :: "Instruction list \<Rightarrow> pubkey \<Rightarrow> pubkey \<Rightarrow> bool" where
  "writes ixs payer k \<longleftrightarrow>
     asks_to_write ixs payer k \<and> \<not> is_builtin_key_or_sysvar k \<and>
     \<not> (invoked ixs k \<and> bpf_loader_upgradeable_id \<notin> mentioned ixs payer)"

definition effective :: "Instruction list \<Rightarrow> pubkey \<Rightarrow> Instruction \<Rightarrow> Instruction" where
  "effective ixs payer ix =
     \<lparr>ix_program_id = ix_program_id ix,
      ix_accounts = map (\<lambda>am. \<lparr>am_pubkey = am_pubkey am, am_is_signer = signs ixs payer (am_pubkey am),
                               am_is_writable = writes ixs payer (am_pubkey am)\<rparr>) (ix_accounts ix),
      ix_data = ix_data ix\<rparr>"

lemma asked_mentions:
  "ckm_is_signer (asked (mentions ixs (Some p)) k) \<longleftrightarrow> signs ixs p k"
  "ckm_is_writable (asked (mentions ixs (Some p)) k) \<longleftrightarrow> asks_to_write ixs p k"
  "ckm_is_invoked (asked (mentions ixs (Some p)) k) \<longleftrightarrow> invoked ixs k"
  by (auto simp: asked_def mentions_def ix_mentions_def signs_def asks_to_write_def invoked_def
      bex_Un image_iff)

lemma fst_mentions: "fst ` set (mentions ixs (Some p)) = mentioned ixs p"
  by (auto simp: mentions_def ix_mentions_def mentioned_def image_iff) (metis fst_conv)+

lemma map_of_compile:
  "map_of (ck_key_meta_map (CompiledKeys_compile ixs (Some p))) k =
     (if k \<in> mentioned ixs p then Some (asked (mentions ixs (Some p)) k) else None)"
  by (simp add: compile_mentions map_of_foldl_mention fst_mentions)

section \<open>Compiled instructions\<close>

definition resolves :: "pubkey list \<Rightarrow> pubkey \<Rightarrow> u8 \<Rightarrow> bool" where
  "resolves keys k i \<longleftrightarrow> get keys (unat i) = Some k"

definition compiled_as :: "pubkey list \<Rightarrow> Instruction \<Rightarrow> CompiledInstruction \<Rightarrow> bool" where
  "compiled_as keys ix ci \<longleftrightarrow>
     resolves keys (ix_program_id ix) (program_id_index ci) \<and>
     list_all2 (\<lambda>am. resolves keys (am_pubkey am)) (ix_accounts ix) (ci_accounts ci) \<and>
     ci_data ci = ix_data ix"

lemma key_position_resolves:
  assumes "key_position keys k = Some i" and "length keys \<le> 256"
  shows "resolves keys k i"
proof -
  from assms(1) obtain n where n: "position (\<lambda>k'. k' = k) keys = Some n" and i: "i = of_nat n"
    by (auto simp: key_position_def)
  from position_Some [OF n] have "n < length keys" "keys ! n = k" by auto
  then show ?thesis using assms(2) by (simp add: resolves_def i get_def unat_of_nat_byte)
qed

lemma compile_instructions_resolve:
  assumes "compile_instructions ixs keys = Some cis" and "length keys \<le> 256"
  shows "list_all2 (compiled_as keys) ixs cis"
proof -
  have "list_all2 (\<lambda>ix ci. compile_instruction ix keys = Some ci) ixs cis"
    using assms(1) by (simp add: compile_instructions_def those_map_eq_Some_iff)
  then show ?thesis
  proof (rule list_all2_mono)
    fix ix ci
    assume "compile_instruction ix keys = Some ci"
    then obtain accs p where accs: "list_all2 (\<lambda>am i. key_position keys (am_pubkey am) = Some i) (ix_accounts ix) accs"
      and p: "key_position keys (ix_program_id ix) = Some p"
      and ci: "ci = \<lparr>program_id_index = p, ci_accounts = accs, ci_data = ix_data ix\<rparr>"
      by (auto simp: compile_instruction_def bind_eq_Some_conv those_map_eq_Some_iff)
    from accs have "list_all2 (\<lambda>am. resolves keys (am_pubkey am)) (ix_accounts ix) accs"
      by (rule list_all2_mono) (rule key_position_resolves [OF _ assms(2)])
    then show "compiled_as keys ix ci"
      using key_position_resolves [OF p assms(2)] by (simp add: compiled_as_def ci)
  qed
qed

lemma called_as_program_iff:
  assumes "list_all2 (compiled_as keys) ixs cis" and "distinct keys" and "length keys \<le> 256" and "i < length keys"
  shows "called_as_program cis i \<longleftrightarrow> invoked ixs (keys ! i)"
proof -
  have "(program_id_index ci = of_nat i) \<longleftrightarrow> keys ! i = ix_program_id ix" if "compiled_as keys ix ci" for ix ci
  proof -
    have r: "unat (program_id_index ci) < length keys" "keys ! unat (program_id_index ci) = ix_program_id ix"
      using that by (simp_all add: compiled_as_def resolves_def get_eq_Some_iff)
    have "program_id_index ci = of_nat i \<longleftrightarrow> i = unat (program_id_index ci)"
      using assms(3,4) by (auto simp: word_unat_eq_iff unat_of_nat_byte)
    then show ?thesis using nth_eq_iff_index_eq [OF assms(2,4) r(1)] r(2) by simp
  qed
  with assms(1) have "(\<exists>ci \<in> set cis. program_id_index ci = of_nat i) \<longleftrightarrow> (\<exists>ix \<in> set ixs. keys ! i = ix_program_id ix)"
    by (induction rule: list_all2_induct) auto
  then show ?thesis using assms(3,4) by (auto simp: called_as_program_def invoked_def image_iff)
qed

lemma sanitize_compiled:
  assumes "list_all2 (compiled_as keys) ixs cis" and "keys = p # rest" and "distinct keys" and "\<not> invoked ixs p"
    and static: "\<And>k. invoked ixs k \<Longrightarrow> k \<in> set (take n keys)" and "n \<le> length keys"
  shows "\<forall>ci \<in> set cis. sanitize_instruction n (length keys) ci"
proof
  fix ci
  assume "ci \<in> set cis"
  then obtain ix where ix: "ix \<in> set ixs" and c: "compiled_as keys ix ci"
    using assms(1) by (metis list_all2_conv_all_nth in_set_conv_nth)
  have r: "unat (program_id_index ci) < length keys" "keys ! unat (program_id_index ci) = ix_program_id ix"
    using c by (simp_all add: compiled_as_def resolves_def get_eq_Some_iff)
  have "invoked ixs (ix_program_id ix)" using ix by (simp add: invoked_def)
  then obtain j where j: "j < n" "take n keys ! j = ix_program_id ix"
    using static assms(6) by (metis in_set_conv_nth length_take min.absorb2)
  then have "j = unat (program_id_index ci)"
    using nth_eq_iff_index_eq [OF assms(3) _ r(1), of j] r(2) assms(6) by simp
  moreover have "program_id_index ci \<noteq> 0"
    using r(2) assms(2,4) \<open>invoked ixs (ix_program_id ix)\<close> by auto
  moreover have "\<forall>ai \<in> set (ci_accounts ci). unat ai < length keys"
    using c by (auto simp: compiled_as_def resolves_def get_eq_Some_iff list_all2_conv_all_nth in_set_conv_nth)
  ultimately show "sanitize_instruction n (length keys) ci" using j(1) by (simp add: sanitize_instruction_def)
qed

text \<open>Decompiling a message gives back the instructions, with the flags the message grants.\<close>

lemma decompile_effective:
  fixes sm :: SanitizedMessage
  defines "keys \<equiv> AccountKeys_iter (SanitizedMessage_account_keys sm)"
  assumes cis: "list_all2 (compiled_as keys) ixs (SanitizedMessage_instructions sm)"
    and signer: "\<And>i. i < length keys \<Longrightarrow> SanitizedMessage_is_signer sm i \<longleftrightarrow> signs ixs p (keys ! i)"
    and writable: "\<And>i. i < length keys \<Longrightarrow> SanitizedMessage_is_writable sm i \<longleftrightarrow> writes ixs p (keys ! i)"
  shows "decompile_instructions sm = Some (map (effective ixs p) ixs)"
proof -
  let ?cis = "SanitizedMessage_instructions sm"
  let ?pairs = "zip (map ix_program_id ixs) ?cis"
  have len: "length ixs = length ?cis" using cis by (rule list_all2_lengthD)
  have acc: "map_option (\<lambda>k. \<lparr>am_pubkey = k, am_is_signer = SanitizedMessage_is_signer sm (unat i),
      am_is_writable = SanitizedMessage_is_writable sm (unat i)\<rparr>)
      (AccountKeys_get (SanitizedMessage_account_keys sm) (unat i)) =
    Some \<lparr>am_pubkey = k, am_is_signer = signs ixs p k, am_is_writable = writes ixs p k\<rparr>"
    if "resolves keys k i" for k i
    using that signer [of "unat i"] writable [of "unat i"]
    by (auto simp: resolves_def AccountKeys_get_iter keys_def get_eq_Some_iff)
  have pairs: "those (program_instructions_iter sm) = Some ?pairs"
    using cis len unfolding program_instructions_iter_def those_map_eq_Some_iff
    by (auto simp: list_all2_conv_all_nth compiled_as_def resolves_def AccountKeys_get_iter keys_def)
  have one: "decompile_instruction sm (ix_program_id ix, ci) = Some (effective ixs p ix)"
    if "compiled_as keys ix ci" for ix ci
  proof -
    have r: "list_all2 (\<lambda>am i. resolves keys (am_pubkey am) i) (ix_accounts ix) (ci_accounts ci)"
      using that by (simp add: compiled_as_def)
    have "those (map (\<lambda>i. map_option (\<lambda>k. \<lparr>am_pubkey = k, am_is_signer = SanitizedMessage_is_signer sm (unat i),
          am_is_writable = SanitizedMessage_is_writable sm (unat i)\<rparr>)
          (AccountKeys_get (SanitizedMessage_account_keys sm) (unat i))) (ci_accounts ci)) =
        Some (ix_accounts (effective ixs p ix))"
      unfolding those_map_eq_Some_iff effective_def Instruction.simps list.rel_map(2) list_all2_conv_all_nth
      using r [unfolded list_all2_conv_all_nth] by (auto simp del: map_option_eq_Some simp: acc intro!: acc)
    then show ?thesis using that by (simp add: decompile_instruction_def effective_def compiled_as_def)
  qed
  have "those (map (decompile_instruction sm) ?pairs) = Some (map (effective ixs p) ixs)"
    using cis len unfolding those_map_eq_Some_iff by (auto simp: list_all2_conv_all_nth one)
  then show ?thesis by (simp add: decompile_instructions_def pairs)
qed

section \<open>Legacy messages\<close>

lemma Message_is_writable_eq:
  assumes "num_readonly_signed_accounts (header msg) < num_required_signatures (header msg)"
    and "unat (num_required_signatures (header msg)) + unat (num_readonly_unsigned_accounts (header msg))
      \<le> length (msg_account_keys msg)"
    and "i < length (msg_account_keys msg)"
  shows "Message_is_writable msg i =
    Some (in_writable_range (header msg) (length (msg_account_keys msg)) i \<and>
      \<not> is_builtin_key_or_sysvar (msg_account_keys msg ! i) \<and> \<not> demote_program_id msg i)"
proof -
  have "unat (num_required_signatures (header msg) - num_readonly_signed_accounts (header msg)) =
      unat (num_required_signatures (header msg)) - unat (num_readonly_signed_accounts (header msg))"
    using assms(1) by (simp add: unat_minus_no_borrow less_imp_le)
  then show ?thesis using assms
    by (auto simp: Message_is_writable_def Let_def in_writable_range_def get_def)
qed

lemma legacy_cache:
  assumes "num_readonly_signed_accounts (header msg) < num_required_signatures (header msg)"
    and "unat (num_required_signatures (header msg)) + unat (num_readonly_unsigned_accounts (header msg))
      \<le> length (msg_account_keys msg)"
  obtains lm where "LegacyMessage_new msg = Some lm" and "lgm_message lm = msg"
    and "\<And>i. i < length (msg_account_keys msg) \<Longrightarrow>
      SanitizedMessage_is_writable (SM_Legacy lm) i \<longleftrightarrow>
        in_writable_range (header msg) (length (msg_account_keys msg)) i \<and>
        \<not> is_builtin_key_or_sysvar (msg_account_keys msg ! i) \<and> \<not> demote_program_id msg i"
proof -
  let ?n = "length (msg_account_keys msg)"
  let ?cache = "map (\<lambda>i. the (Message_is_writable msg i)) [0..<?n]"
  have "those (map (Message_is_writable msg) [0..<?n]) = Some ?cache"
    using Message_is_writable_eq [OF assms] by (intro those_map_the) simp
  then show ?thesis
    by (intro that [of "\<lparr>lgm_message = msg, lgm_is_writable_account_cache = ?cache\<rparr>"])
      (simp_all add: LegacyMessage_new_def cached_def get_def Message_is_writable_eq [OF assms])
qed

lemma finite_mentioned: "finite (mentioned ixs p)"
  by (simp add: mentioned_def)

lemma components_exist:
  assumes payer: "ck_payer self = Some p" and asc: "ascending (ck_key_meta_map self)"
    and p: "p \<in> dom (map_of (ck_key_meta_map self))" and few: "card (dom (map_of (ck_key_meta_map self))) < 256"
  shows "\<exists>h keys. try_into_message_components self = Inr (h, keys)"
proof -
  define m where "m = remove_entry p (ck_key_meta_map self)"
  define ws where "ws = p # keys_with (\<lambda>meta. ckm_is_signer meta \<and> ckm_is_writable meta) m"
  define rs where "rs = keys_with (\<lambda>meta. ckm_is_signer meta \<and> \<not> ckm_is_writable meta) m"
  define wn where "wn = keys_with (\<lambda>meta. \<not> ckm_is_signer meta \<and> ckm_is_writable meta) m"
  define rn where "rn = keys_with (\<lambda>meta. \<not> ckm_is_signer meta \<and> \<not> ckm_is_writable meta) m"
  note defs = ws_def rs_def wn_def rn_def
  have m: "ascending m" using asc by (simp add: m_def ascending_remove_entry)
  have look: "map_of m = (map_of (ck_key_meta_map self))(p := None)" by (simp add: m_def map_of_remove_entry)
  note mem = set_keys_with [OF m]
  have "distinct (ws @ rs @ wn @ rn)"
    by (auto simp: defs distinct_keys_with [OF m] mem look)
  then have "length (ws @ rs @ wn @ rn) = card (set (ws @ rs @ wn @ rn))" by (rule distinct_card [symmetric])
  also have "\<dots> \<le> card (dom (map_of (ck_key_meta_map self)))"
    using p by (intro card_mono finite_dom_map_of) (auto simp: defs mem look split: if_splits)
  finally have "length ws + length rs < 256" "length rs < 256" "length rn < 256" using few by simp_all
  then show ?thesis
    by (simp add: try_into_message_components_def Let_def payer m_def defs try_into_u8_def)
qed

lemma compile_instructions_exist:
  assumes "\<And>ix. ix \<in> set ixs \<Longrightarrow> ix_program_id ix \<in> set keys \<and> am_pubkey ` set (ix_accounts ix) \<subseteq> set keys"
  shows "\<exists>cis. compile_instructions ixs keys = Some cis"
proof -
  have known: "\<exists>i. key_position keys k = Some i" if "k \<in> set keys" for k
    using that position_None_iff [of "\<lambda>k'. k' = k" keys] by (cases "position (\<lambda>k'. k' = k) keys") (auto simp: key_position_def)
  have "\<exists>ci. compile_instruction ix keys = Some ci" if ix: "ix \<in> set ixs" for ix
  proof -
    obtain p where p: "key_position keys (ix_program_id ix) = Some p" using known assms [OF ix] by blast
    have "those (map (\<lambda>am. key_position keys (am_pubkey am)) (ix_accounts ix)) =
        Some (map (\<lambda>am. the (key_position keys (am_pubkey am))) (ix_accounts ix))"
      using known assms [OF ix] by (intro those_map_the) blast
    then show ?thesis by (simp add: compile_instruction_def p)
  qed
  then have "those (map (\<lambda>ix. compile_instruction ix keys) ixs) = Some (map (\<lambda>ix. the (compile_instruction ix keys)) ixs)"
    by (rule those_map_the)
  then show ?thesis by (simp add: compile_instructions_def)
qed

lemma mentioned_keys:
  "ix \<in> set ixs \<Longrightarrow> ix_program_id ix \<in> mentioned ixs p \<and> am_pubkey ` set (ix_accounts ix) \<subseteq> mentioned ixs p"
  by (auto simp: mentioned_def)

lemma compiled_dom: "dom (map_of (ck_key_meta_map (CompiledKeys_compile ixs (Some p)))) = mentioned ixs p"
  by (auto simp: map_of_compile split: if_splits)

lemma compile_payer: "ck_payer (CompiledKeys_compile ixs payer) = payer"
  by (simp add: CompiledKeys_compile_def Let_def)

lemma legacy_components:
  assumes "card (mentioned ixs payer) < 256"
  obtains h keys cis rest where
    "Message_new_with_blockhash ixs (Some payer) bh =
       Some \<lparr>header = h, msg_account_keys = keys, msg_recent_blockhash = bh, msg_instructions = cis\<rparr>"
    and "list_all2 (compiled_as keys) ixs cis"
    and "keys = payer # rest" "distinct keys" "set keys = mentioned ixs payer" "length keys \<le> 256"
    and "\<And>i. i < length keys \<Longrightarrow> i < unat (num_required_signatures h) \<longleftrightarrow> signs ixs payer (keys ! i)"
    and "\<And>i. i < length keys \<Longrightarrow> in_writable_range h (length keys) i \<longleftrightarrow> asks_to_write ixs payer (keys ! i)"
    and "num_readonly_signed_accounts h < num_required_signatures h"
    and "unat (num_required_signatures h) + unat (num_readonly_unsigned_accounts h) \<le> length keys"
proof -
  let ?ck = "CompiledKeys_compile ixs (Some payer)"
  have p: "payer \<in> mentioned ixs payer" by (simp add: mentioned_def)
  have meta: "map_of (ck_key_meta_map ?ck) payer = Some (asked (mentions ixs (Some payer)) payer)"
    "ckm_is_signer (asked (mentions ixs (Some payer)) payer)" "ckm_is_writable (asked (mentions ixs (Some payer)) payer)"
    using p by (simp_all add: map_of_compile asked_mentions signs_def asks_to_write_def)
  obtain h keys where run: "try_into_message_components ?ck = Inr (h, keys)"
    using components_exist [OF compile_payer ascending_compile, of payer ixs] assms(1) p by (auto simp: compiled_dom)
  obtain rest where keys: "keys = payer # rest" "distinct keys" "set keys = mentioned ixs payer"
    and signer: "\<And>i. i < length keys \<Longrightarrow> i < unat (num_required_signatures h) \<longleftrightarrow> signs ixs payer (keys ! i)"
    and writable: "\<And>i. i < length keys \<Longrightarrow> in_writable_range h (length keys) i \<longleftrightarrow> asks_to_write ixs payer (keys ! i)"
    and h: "num_readonly_signed_accounts h < num_required_signatures h"
      "unat (num_required_signatures h) + unat (num_readonly_unsigned_accounts h) \<le> length keys"
    by (rule message_components [OF run compile_payer ascending_compile meta])
      (metis compiled_dom nth_mem map_of_compile option.sel asked_mentions)
  have len: "length keys \<le> 256" using distinct_card [OF keys(2)] keys(3) assms(1) by simp
  obtain cis where cis: "compile_instructions ixs keys = Some cis"
    using compile_instructions_exist [of ixs keys] mentioned_keys [of _ ixs payer] by (auto simp: keys(3))
  show ?thesis
    by (rule that [OF _ compile_instructions_resolve [OF cis len] keys len signer writable h])
      (simp add: Message_new_with_blockhash_def run cis)
qed

text \<open>
  C13: Compiling instructions with a payer into a legacy message works whenever they mention at
  most 255 keys and do not invoke the payer: the message passes sanitizing, has no key twice, its
  fee payer is the payer, and decompiling it gives back the instructions with the signers and
  writable accounts that some instruction asked for (a reserved key, or a program invoked without
  the upgradeable loader, is demoted to read-only).
\<close>

theorem legacy_compile_correct:
  assumes "card (mentioned ixs payer) < 256" and "\<not> invoked ixs payer"
  shows "\<exists>msg sm. Message_new_with_blockhash ixs (Some payer) bh = Some msg \<and>
    SanitizedMessage_try_from msg = Inr sm \<and> \<not> SanitizedMessage_has_duplicates sm \<and>
    fee_payer sm = Some payer \<and> decompile_instructions sm = Some (map (effective ixs payer) ixs)"
proof -
  obtain h keys cis rest where new: "Message_new_with_blockhash ixs (Some payer) bh =
      Some \<lparr>header = h, msg_account_keys = keys, msg_recent_blockhash = bh, msg_instructions = cis\<rparr>"
    and compiled: "list_all2 (compiled_as keys) ixs cis"
    and keys: "keys = payer # rest" "distinct keys" "set keys = mentioned ixs payer" and len: "length keys \<le> 256"
    and signer: "\<And>i. i < length keys \<Longrightarrow> i < unat (num_required_signatures h) \<longleftrightarrow> signs ixs payer (keys ! i)"
    and writable: "\<And>i. i < length keys \<Longrightarrow> in_writable_range h (length keys) i \<longleftrightarrow> asks_to_write ixs payer (keys ! i)"
    and h: "num_readonly_signed_accounts h < num_required_signatures h"
      "unat (num_required_signatures h) + unat (num_readonly_unsigned_accounts h) \<le> length keys"
    using legacy_components [OF assms(1)] by blast
  define msg where "msg = \<lparr>header = h, msg_account_keys = keys, msg_recent_blockhash = bh, msg_instructions = cis\<rparr>"
  have "\<forall>ci \<in> set cis. sanitize_instruction (length keys) (length keys) ci"
    using sanitize_compiled [OF compiled keys(1,2) assms(2), of "length keys"]
    by (auto simp: keys(3) invoked_def mentioned_def)
  then have sane: "Message_sanitize msg = Inr ()"
    using h by (auto simp: Message_sanitize_def msg_def Let_def)
  obtain lm where lm: "LegacyMessage_new msg = Some lm" "lgm_message lm = msg"
    and cache: "\<And>i. i < length keys \<Longrightarrow> SanitizedMessage_is_writable (SM_Legacy lm) i \<longleftrightarrow>
      in_writable_range h (length keys) i \<and> \<not> is_builtin_key_or_sysvar (keys ! i) \<and> \<not> demote_program_id msg i"
    using legacy_cache [of msg] h by (auto simp: msg_def)
  have demote: "demote_program_id msg i \<longleftrightarrow>
      invoked ixs (keys ! i) \<and> bpf_loader_upgradeable_id \<notin> mentioned ixs payer" if "i < length keys" for i
    using called_as_program_iff [OF compiled keys(2) len that]
    by (simp add: demote_program_id_def msg_def is_upgradeable_loader_present_def keys(3))
  have msg_simps: "header msg = h" "msg_account_keys msg = keys" "msg_instructions msg = cis" by (simp_all add: msg_def)
  have "decompile_instructions (SM_Legacy lm) = Some (map (effective ixs payer) ixs)"
    using compiled signer cache writable demote
    by (intro decompile_effective) (simp_all add: lm(2) msg_simps SanitizedMessage_is_signer_def writes_def)
  then show ?thesis using keys
    by (intro exI [of _ msg] exI [of _ "SM_Legacy lm"])
      (simp add: new [folded msg_def] SanitizedMessage_try_from_def sane lm has_duplicates_iff fee_payer_def
        AccountKeys_get_iter msg_simps get_def)
qed

definition sample_ixs :: "Instruction list" where
  "sample_ixs =
     [\<lparr>ix_program_id = 77, ix_accounts =
         [\<lparr>am_pubkey = 5, am_is_signer = False, am_is_writable = False\<rparr>,
          \<lparr>am_pubkey = 6, am_is_signer = True, am_is_writable = False\<rparr>,
          \<lparr>am_pubkey = 0, am_is_signer = False, am_is_writable = True\<rparr>], ix_data = [1]\<rparr>,
      \<lparr>ix_program_id = 0, ix_accounts =
         [\<lparr>am_pubkey = 6, am_is_signer = False, am_is_writable = True\<rparr>,
          \<lparr>am_pubkey = 8, am_is_signer = False, am_is_writable = True\<rparr>], ix_data = []\<rparr>]"

lemma sample_ixs_mentioned: "mentioned sample_ixs 5 = {5, 77, 0, 6, 8}"
  by (auto simp: mentioned_def sample_ixs_def)

theorem legacy_compile_correct_witness:
  "card (mentioned sample_ixs 5) < 256 \<and> \<not> invoked sample_ixs 5 \<and>
   (\<exists>msg sm. Message_new_with_blockhash sample_ixs (Some 5) 9 = Some msg \<and>
     SanitizedMessage_try_from msg = Inr sm \<and> \<not> SanitizedMessage_has_duplicates sm \<and>
     fee_payer sm = Some 5 \<and> decompile_instructions sm = Some (map (effective sample_ixs 5) sample_ixs))"
proof -
  have few: "card (mentioned sample_ixs 5) < 256" by (simp add: sample_ixs_mentioned)
  have payer: "\<not> invoked sample_ixs 5" by (simp add: invoked_def sample_ixs_def)
  from few payer legacy_compile_correct [OF few payer, of 9] show ?thesis by simp
qed

end
