(* ===== verification/MessageTables.thy ===== *)
theory MessageTables
  imports MessageCompile
begin

text \<open>
  Compiling a message of version 0: keys that are neither signers nor invoked move to the lookup
  tables that hold them, and loading the lookups gives the same keys back.
\<close>

section \<open>Draining keys into a table\<close>

















section \<open>Indexing the keys\<close>




section \<open>Loading the lookups\<close>







section \<open>Compiling a message of version 0\<close>









end
