(* ===== verification/MessageProcessor.thy ===== *)
theory MessageProcessor
  imports InvokeSafety InvokePrivileges Messages
begin

text \<open>
  Processing a message: \<^verbatim>\<open>runtime/src/message_processor.rs\<close>, with the precompiled programs of
  \<^verbatim>\<open>sdk/src/precompiles.rs\<close> and the index that \<^verbatim>\<open>sysvar/instructions.rs\<close> stores before each
  instruction.  The instructions run one after the other on the accounts of the transaction; the
  first error stops the message.  Wall-clock timings are left out.
\<close>

section \<open>The instructions sysvar and precompiled programs\<close>

definition store_current_index :: "bytes \<Rightarrow> u16 \<Rightarrow> bytes option" where
  "store_current_index d instruction_index =
     (if length d < 2 then None else Some (take (length d - 2) d @ le_bytes 2 instruction_index))"

definition load_current_index :: "bytes \<Rightarrow> u16 option" where
  "load_current_index d = (if length d < 2 then None else Some (from_le_bytes (drop (length d - 2) d)))"

record Precompile =
  pc_program_id :: pubkey
  pc_feature :: "feature option"

definition Precompile_check_id :: "Precompile \<Rightarrow> pubkey \<Rightarrow> (feature \<Rightarrow> bool) \<Rightarrow> bool" where
  "Precompile_check_id self k is_enabled \<longleftrightarrow>
     (case pc_feature self of None \<Rightarrow> True | Some f \<Rightarrow> is_enabled f) \<and> pc_program_id self = k"

definition PRECOMPILES :: "Precompile list" where
  "PRECOMPILES =
     [\<lparr>pc_program_id = 0x4c6fc20f050ccf05584d7211c9f8cf59ec14785bb166a1e2830e81220000000, pc_feature = None\<rparr>,
      \<lparr>pc_program_id = 0x37d46d67c93fbbe12f9428f838d40ff0570744927f48a64fcca704480000000, pc_feature = None\<rparr>]"

definition is_precompile :: "pubkey \<Rightarrow> (feature \<Rightarrow> bool) \<Rightarrow> bool" where
  "is_precompile k is_enabled \<longleftrightarrow> (\<exists>precompile \<in> set PRECOMPILES. Precompile_check_id precompile k is_enabled)"

section \<open>Processing\<close>

definition fixup_instructions_sysvar :: "nat \<Rightarrow> InvokeContext \<Rightarrow> TransactionError fault + InvokeContext" where
  "fixup_instructions_sysvar instruction_index self =
     (case find_index_of_account (transaction_context self) Instructions_id of
        None \<Rightarrow> Inr self
      | Some i \<Rightarrow>
          and_then (map_err (\<lambda>_. Fault TE_InvalidAccountIndex) (get_account_at_index (transaction_context self) i)) (\<lambda>cell.
          if cell_borrowed cell then Inl Panic
          else
            and_then (ok_or (store_current_index (data (cell_value cell)) (of_nat instruction_index)) Panic) (\<lambda>d.
            Inr (self\<lparr>transaction_context := (transaction_context self)\<lparr>accounts :=
                   (accounts (transaction_context self))[unat i :=
                      cell\<lparr>cell_value := (cell_value cell)\<lparr>data := d\<rparr>\<rparr>]\<rparr>\<rparr>))))"

definition message_account :: "SanitizedMessage \<Rightarrow> u8 list \<Rightarrow> nat \<Rightarrow> InstructionAccount" where
  "message_account message accs instruction_account_index =
     (let i = accs ! instruction_account_index in
      \<lparr>ia_index_in_transaction = ucast i,
       ia_index_in_caller = ucast i,
       ia_index_in_callee = of_nat (case position (\<lambda>account_index. account_index = i) (take instruction_account_index accs) of
                                      Some n \<Rightarrow> n | None \<Rightarrow> instruction_account_index),
       ia_is_signer = SanitizedMessage_is_signer message (unat i),
       ia_is_writable = SanitizedMessage_is_writable message (unat i)\<rparr>)"

definition message_accounts :: "SanitizedMessage \<Rightarrow> u8 list \<Rightarrow> InstructionAccount list" where
  "message_accounts message accs = map (message_account message accs) [0..<length accs]"

definition process_precompile ::
    "bytes \<Rightarrow> InstructionAccount list \<Rightarrow> IndexOfAccount list \<Rightarrow> InvokeContext \<Rightarrow> unit outcome" where
  "process_precompile input ias program_indices self =
     then_do (faulty (update_next_instruction_context (transaction_context self)
                (configure program_indices ias input)), self) (\<lambda>tc self.
     let (r, tc) = push tc in
     then_do (faulty r, self\<lparr>transaction_context := tc\<rparr>) (\<lambda>_ self.
     let (r, tc) = pop (transaction_context self) in (faulty r, self\<lparr>transaction_context := tc\<rparr>)))"

fun at_instruction :: "nat \<Rightarrow> InstructionError fault \<Rightarrow> TransactionError fault" where
  "at_instruction n (Fault e) = Fault (TE_InstructionError (of_nat n) e)"
| "at_instruction n Panic = Panic"

definition process_message_instruction ::
    "BuiltinProgram list \<Rightarrow> SanitizedMessage \<Rightarrow> nat \<Rightarrow> pubkey \<times> CompiledInstruction \<Rightarrow> IndexOfAccount list
       \<Rightarrow> InvokeContext \<Rightarrow> u64 \<Rightarrow> (TransactionError fault + unit) \<times> InvokeContext \<times> u64" where
  "process_message_instruction builtin_programs message n = (\<lambda>(program_id, ci) program_indices self units.
     (case fixup_instructions_sysvar n self of
        Inl e \<Rightarrow> (Inl e, self, units)
      | Inr self \<Rightarrow>
          let ias = message_accounts message (ci_accounts ci) in
          if is_precompile program_id (is_active (feature_set (invoke_env self))) then
            let (r, self) = process_precompile (ci_data ci) ias program_indices self
            in (map_err (at_instruction n) r, self, units)
          else
            let ((r, self), consumed) = process_instruction builtin_programs (ci_data ci) ias program_indices self
            in (map_err (at_instruction n) r,
                self\<lparr>timings := \<lparr>total_account_count = 0, changed_account_count = 0\<rparr>\<rparr>,
                saturating_add units consumed)))"

text \<open>
  The instructions with their program ids, zipped with the program indices: an instruction whose
  program id is out of range panics when the iterator reaches it.  The debug assertion that there
  are as many program indices as instructions, absent from release builds, is left out.
\<close>

fun process_message_loop ::
    "BuiltinProgram list \<Rightarrow> SanitizedMessage \<Rightarrow> nat \<Rightarrow> (pubkey \<times> CompiledInstruction) option list
       \<Rightarrow> IndexOfAccount list list \<Rightarrow> InvokeContext \<Rightarrow> u64
       \<Rightarrow> (TransactionError fault + unit) \<times> InvokeContext \<times> u64" where
  "process_message_loop builtin_programs message n [] pis self units = (Inr (), self, units)"
| "process_message_loop builtin_programs message n (None # ixs) pis self units = (Inl Panic, self, units)"
| "process_message_loop builtin_programs message n (Some ix # ixs) [] self units = (Inr (), self, units)"
| "process_message_loop builtin_programs message n (Some ix # ixs) (pi # pis) self units =
     (case process_message_instruction builtin_programs message n ix pi self units of
        (Inl e, self, units) \<Rightarrow> (Inl e, self, units)
      | (Inr _, self, units) \<Rightarrow> process_message_loop builtin_programs message (n + 1) ixs pis self units)"

record ProcessedMessageInfo =
  accounts_data_len_delta :: int

definition process_message ::
    "BuiltinProgram list \<Rightarrow> SanitizedMessage \<Rightarrow> IndexOfAccount list list \<Rightarrow> TransactionContext \<Rightarrow> Rent
       \<Rightarrow> ComputeBudget \<Rightarrow> InvokeEnv \<Rightarrow> u64 \<Rightarrow> u64
       \<Rightarrow> (TransactionError fault + ProcessedMessageInfo) \<times> TransactionContext \<times> u64" where
  "process_message builtin_programs message program_indices tc rent budget env current_accounts_data_len units =
     (case process_message_loop builtin_programs message 0 (program_instructions_iter message) program_indices
             (InvokeContext_new tc rent env budget current_accounts_data_len) units of
        (Inl e, self, units) \<Rightarrow> (Inl e, transaction_context self, units)
      | (Inr _, self, units) \<Rightarrow>
          (Inr \<lparr>accounts_data_len_delta = adm_delta (accounts_data_meter self)\<rparr>, transaction_context self, units))"

section \<open>The accounts of an instruction\<close>

lemma load_store_current_index:
  "store_current_index d n = Some d' \<Longrightarrow> load_current_index d' = Some n \<and> length d' = length d"
  using from_le_bytes_le_bytes [of 2 n] by (auto simp: store_current_index_def load_current_index_def split: if_splits)

lemma position_map: "position P (map f xs) = position (P \<circ> f) xs"
  by (induction xs) simp_all

lemma position_take:
  assumes "m < length xs"
  shows "position (\<lambda>x. x = xs ! m) xs =
    Some (case position (\<lambda>x. x = xs ! m) (take m xs) of Some n \<Rightarrow> n | None \<Rightarrow> m)"
proof -
  have "xs = take m xs @ xs ! m # drop (Suc m) xs" using assms by (simp add: id_take_nth_drop)
  then have "position (\<lambda>x. x = xs ! m) xs = position (\<lambda>x. x = xs ! m) (take m xs @ xs ! m # drop (Suc m) xs)" by simp
  then show ?thesis using assms by (simp add: position_append split: option.split)
qed

lemma unat_ucast_u8_u16: "unat (ucast (i :: u8) :: u16) = unat i"
  by (simp add: unsigned_ucast_eq take_bit_nat_eq_self unsigned_less [THEN less_le_trans])

lemma ucast_u8_u16_inj: "(ucast (a :: u8) :: u16) = ucast b \<longleftrightarrow> a = b"
  by (metis unat_ucast_u8_u16 word_unat_eq_iff)

lemma length_message_accounts [simp]: "length (message_accounts message accs) = length accs"
  by (simp add: message_accounts_def)

lemma message_accounts_well_indexed:
  assumes "length accs < 2 ^ 16"
  shows "well_indexed (message_accounts message accs)"
  unfolding well_indexed_def
proof
  fix ia
  assume "ia \<in> set (message_accounts message accs)"
  then obtain m where m: "m < length accs" and ia: "ia = message_account message accs m"
    by (auto simp: message_accounts_def)
  let ?n = "case position (\<lambda>x. x = accs ! m) (take m accs) of Some n \<Rightarrow> n | None \<Rightarrow> m"
  have "?n \<le> m" by (auto split: option.split dest!: position_Some)
  then have n: "unat (ia_index_in_callee ia) = ?n"
    using m assms by (simp add: ia message_account_def Let_def unat_of_nat take_bit_nat_eq_self)
  have "position (\<lambda>ia'. ia_index_in_transaction ia' = ia_index_in_transaction ia) (message_accounts message accs) =
      position (\<lambda>k. accs ! k = accs ! m) [0..<length accs]"
    by (simp add: message_accounts_def position_map ia message_account_def Let_def comp_def ucast_u8_u16_inj)
  also have "\<dots> = position (\<lambda>x. x = accs ! m) (map (\<lambda>k. accs ! k) [0..<length accs])"
    by (simp add: position_map comp_def)
  also have "\<dots> = Some ?n" by (simp add: map_nth position_take [OF m])
  finally show "position (\<lambda>ia'. ia_index_in_transaction ia' = ia_index_in_transaction ia) (message_accounts message accs) =
      Some (unat (ia_index_in_callee ia))" by (simp add: n)
qed

lemma writable_message_accounts:
  "j \<in> writable_indices (message_accounts message accs) \<Longrightarrow> SanitizedMessage_is_writable message j"
  by (auto simp: writable_indices_def message_accounts_def message_account_def Let_def unat_ucast_u8_u16)

section \<open>What a message keeps\<close>

text \<open>Between instructions: the lamports of the transaction and every account the message only reads.\<close>

definition message_kept :: "SanitizedMessage \<Rightarrow> InvokeContext \<Rightarrow> InvokeContext \<Rightarrow> bool" where
  "message_kept message self self' \<longleftrightarrow>
     (let tc = transaction_context self; tc' = transaction_context self' in
      instruction_stack tc' = [] \<and> stack_wf tc' \<and> tc_rent tc' = tc_rent tc \<and> account_keys tc' = account_keys tc \<and>
      length (accounts tc') = length (accounts tc) \<and> invoke_env self' = invoke_env self \<and>
      total_lamports tc' = total_lamports tc \<and>
      (\<forall>j < length (accounts tc). \<not> SanitizedMessage_is_writable message j \<longrightarrow>
         get (account_keys tc) j \<noteq> Some Instructions_id \<longrightarrow> account_values tc' ! j = account_values tc ! j))"

lemma message_kept_refl:
  "instruction_stack (transaction_context self) = [] \<Longrightarrow> stack_wf (transaction_context self) \<Longrightarrow>
     message_kept message self self"
  by (simp add: message_kept_def)

lemma message_kept_trans:
  "message_kept message self self1 \<Longrightarrow> message_kept message self1 self2 \<Longrightarrow> message_kept message self self2"
  by (auto simp: message_kept_def Let_def)

lemma fixup_kept:
  assumes "fixup_instructions_sysvar n self = Inr self'"
    and "instruction_stack (transaction_context self) = []" and "stack_wf (transaction_context self)"
    and "length (account_keys (transaction_context self)) \<le> 2 ^ 16"
  shows "message_kept message self self'"
proof (cases "find_index_of_account (transaction_context self) Instructions_id")
  case None
  then show ?thesis using assms by (simp add: fixup_instructions_sysvar_def message_kept_refl)
next
  case (Some i)
  let ?tc = "transaction_context self"
  from assms(1) Some obtain cell d where cell: "get (accounts ?tc) (unat i) = Some cell"
    and self': "self' = self\<lparr>transaction_context := ?tc\<lparr>accounts := (accounts ?tc)[unat i :=
        cell\<lparr>cell_value := (cell_value cell)\<lparr>data := d\<rparr>\<rparr>]\<rparr>\<rparr>"
    by (auto simp: fixup_instructions_sysvar_def get_account_at_index_def result_simps split: if_splits)
  have vals: "account_values (transaction_context self') =
      (account_values ?tc)[unat i := (account_values ?tc ! unat i)\<lparr>data := d\<rparr>]"
    using cell by (simp add: self' account_values_def map_update get_eq_Some_iff)
  have "map lamports ((account_values ?tc)[unat i := (account_values ?tc ! unat i)\<lparr>data := d\<rparr>]) =
      map lamports (account_values ?tc)"
    by (simp add: map_update) (metis list_update_beyond list_update_id map_update not_le)
  then have "total_lamports (transaction_context self') = total_lamports ?tc"
    unfolding total_lamports_def vals by (metis (no_types, lifting) map_map comp_def map_eq_conv)
  moreover have "account_values (transaction_context self') ! j = account_values ?tc ! j"
    if "get (account_keys ?tc) j \<noteq> Some Instructions_id" for j
  proof -
    have "unat i \<noteq> j" using that find_index_of_account_key [OF Some assms(4)] by blast
    then show ?thesis by (simp add: vals)
  qed
  moreover have "stack_wf (transaction_context self')" "instruction_stack (transaction_context self') = []"
    "tc_rent (transaction_context self') = tc_rent ?tc" "account_keys (transaction_context self') = account_keys ?tc"
    "length (accounts (transaction_context self')) = length (accounts ?tc)" "invoke_env self' = invoke_env self"
    using assms(2,3) by (simp_all add: self' stack_wf_def get_instruction_trace_length_def)
  ultimately show ?thesis unfolding message_kept_def Let_def by blast
qed

lemma precompile_kept:
  assumes "process_precompile input ias is self = (Inr (), self')"
    and "instruction_stack (transaction_context self) = []" and "stack_wf (transaction_context self)"
  shows "message_kept message self self'"
proof -
  let ?tc = "transaction_context self"
  from assms(1) obtain tc1 where upd: "update_next_instruction_context ?tc (configure is ias input) = Inr tc1"
    and ok: "fst (push tc1) = Inr ()" "fst (pop (snd (push tc1))) = Inr ()"
    and self': "self' = self\<lparr>transaction_context := snd (pop (snd (push tc1)))\<rparr>"
    by (auto simp: process_precompile_def then_do_eq_Inr_iff result_simps Let_def case_prod_beta)
  define tc2 where "tc2 = snd (push tc1)"
  define tc3 where "tc3 = snd (pop tc2)"
  have push: "push tc1 = (Inr (), tc2)" and pop: "pop tc2 = (Inr (), tc3)"
    using ok by (simp_all add: tc2_def tc3_def prod_eq_iff)
  note frame = configured_frame [OF upd push assms(3)]
  have tc3: "tc3 = tc2\<lparr>instruction_stack := butlast (instruction_stack tc2)\<rparr>" using pop_Ok [OF pop] by simp
  have "instruction_stack tc2 = [get_instruction_trace_length tc1]"
    using push by (rule push_Ok) (simp add: frame assms(2))
  moreover have "stack_wf tc3" using stack_wf_pop [OF frame(6)] by (simp add: pop)
  ultimately show ?thesis
    by (simp add: message_kept_def self' tc2_def [symmetric] tc3_def [symmetric])
      (simp add: tc3 frame account_values_def total_lamports_def)
qed

lemma instruction_kept:
  assumes run: "process_message_instruction builtins message n (program_id, ci) is self units = (Inr (), self', units')"
    and top: "instruction_stack (transaction_context self) = []" and early: "early_verification self"
    and rent: "tc_rent (transaction_context self) \<noteq> None" and wf: "stack_wf (transaction_context self)"
    and programs: "\<forall>entry \<in> set builtins. \<forall>first. local_program (bp_process_instruction entry first)"
    and fit: "length is + length (ci_accounts ci) < 2 ^ 16" and keys: "length (account_keys (transaction_context self)) \<le> 2 ^ 16"
  shows "message_kept message self self'"
proof -
  from run obtain self1 where fix1: "fixup_instructions_sysvar n self = Inr self1"
    by (auto simp: process_message_instruction_def split: sum.splits)
  note kept1 = fixup_kept [OF fix1 top wf keys]
  let ?ias = "message_accounts message (ci_accounts ci)"
  have pre: "instruction_stack (transaction_context self1) = []" "early_verification self1"
    "tc_rent (transaction_context self1) \<noteq> None" "stack_wf (transaction_context self1)"
    using kept1 [of message] early rent by (simp_all add: message_kept_def Let_def early_verification_def)
  have "message_kept message self1 self'"
  proof (cases "is_precompile program_id (is_active (feature_set (invoke_env self1)))")
    case True
    then have "process_precompile (ci_data ci) ?ias is self1 = (Inr (), self')"
      using run by (auto simp: process_message_instruction_def fix1 Let_def result_simps split: prod.splits)
    then show ?thesis by (rule precompile_kept [OF _ pre(1,4)])
  next
    case False
    then obtain self2 where run2: "fst (process_instruction builtins (ci_data ci) ?ias is self1) = (Inr (), self2)"
      and self': "self' = self2\<lparr>timings := \<lparr>total_account_count = 0, changed_account_count = 0\<rparr>\<rparr>"
      using run by (auto simp: process_message_instruction_def fix1 Let_def result_simps split: prod.splits)
    have "well_indexed ?ias" using fit by (intro message_accounts_well_indexed) simp
    then have step: "length is + length ?ias < 2 ^ 16" "well_indexed ?ias" using fit by simp_all
    note facts = process_instruction_early [OF run2 pre(1,2,3,4) programs step]
    show ?thesis unfolding message_kept_def self' Let_def
      using facts writable_message_accounts [of _ message "ci_accounts ci"] by auto
  qed
  then show ?thesis using kept1 message_kept_trans by blast
qed

lemma loop_kept:
  assumes "process_message_loop builtins message n ixs pis self units = (Inr (), self', units')"
    and "instruction_stack (transaction_context self) = []" and "early_verification self"
    and "tc_rent (transaction_context self) \<noteq> None" and "stack_wf (transaction_context self)"
    and "\<forall>entry \<in> set builtins. \<forall>first. local_program (bp_process_instruction entry first)"
    and "\<forall>pid ci. Some (pid, ci) \<in> set ixs \<longrightarrow> length (ci_accounts ci) < 2 ^ 15" and "\<forall>is \<in> set pis. length is < 2 ^ 15"
    and "length (account_keys (transaction_context self)) \<le> 2 ^ 16"
  shows "message_kept message self self'"
  using assms
proof (induction builtins message n ixs pis self units rule: process_message_loop.induct)
  case (4 builtins message n ix ixs "is" pis self units)
  obtain pid ci where ix: "ix = (pid, ci)" by force
  from "4.prems"(1) obtain self1 units1 where
    one: "process_message_instruction builtins message n (pid, ci) is self units = (Inr (), self1, units1)"
    and rest: "process_message_loop builtins message (n + 1) ixs pis self1 units1 = (Inr (), self', units')"
    by (auto simp: ix split: prod.splits sum.splits)
  have "length is + length (ci_accounts ci) < 2 ^ 16"
    using "4.prems"(7,8) by (fastforce simp: ix)
  note kept = instruction_kept [OF one "4.prems"(2-6) this "4.prems"(9)]
  have "message_kept message self1 self'"
    using "4.IH" [OF one [folded ix, symmetric] refl refl rest] kept "4.prems"
    by (simp add: message_kept_def Let_def early_verification_def)
  then show ?case using kept message_kept_trans by blast
qed (auto intro: message_kept_refl)

text \<open>
  C4: A message that succeeds with early verification conserves the lamports of the transaction,
  leaves the instruction stack empty and changes no account that the message does not mark as
  writable, apart from the instructions sysvar, whose last two bytes are the index of the current
  instruction.  The builtin programs may be any that stay within the accounts of their
  instruction, as the system and vote programs do.
\<close>

theorem message_conserves_lamports:
  assumes "process_message builtins message pis tc rent budget env adl units = (Inr info, tc', units')"
    and "instruction_stack tc = []" and "stack_wf tc" and "tc_rent tc \<noteq> None"
    and "is_active (feature_set env) enable_early_verification_of_account_modifications"
    and "\<forall>entry \<in> set builtins. \<forall>first. local_program (bp_process_instruction entry first)"
    and "\<forall>ci \<in> set (SanitizedMessage_instructions message). length (ci_accounts ci) < 2 ^ 15"
    and "\<forall>is \<in> set pis. length is < 2 ^ 15" and "length (account_keys tc) \<le> 2 ^ 16"
  shows "total_lamports tc' = total_lamports tc \<and> instruction_stack tc' = [] \<and>
    account_keys tc' = account_keys tc \<and> length (accounts tc') = length (accounts tc) \<and>
    (\<forall>j < length (accounts tc). \<not> SanitizedMessage_is_writable message j \<longrightarrow>
       get (account_keys tc) j \<noteq> Some Instructions_id \<longrightarrow> account_values tc' ! j = account_values tc ! j)"
proof -
  let ?self = "InvokeContext_new tc rent env budget adl"
  from assms(1) obtain self' where loop:
    "process_message_loop builtins message 0 (program_instructions_iter message) pis ?self units = (Inr (), self', units')"
    and tc': "tc' = transaction_context self'"
    by (auto simp: process_message_def split: prod.splits sum.splits)
  have new: "transaction_context ?self = tc" "invoke_env ?self = env" by (simp_all add: InvokeContext_new_def)
  have accs: "\<forall>pid ci. Some (pid, ci) \<in> set (program_instructions_iter message) \<longrightarrow> length (ci_accounts ci) < 2 ^ 15"
    using assms(7) by (auto simp: program_instructions_iter_def eq_commute [of "Some _"])
  have "message_kept message ?self self'"
    using loop_kept [OF loop _ _ _ _ assms(6) accs assms(8)] assms(2-5,9) by (simp add: new early_verification_def)
  then show ?thesis by (simp add: message_kept_def Let_def new tc')
qed

section \<open>A transfer as a message\<close>

definition sample_message :: SanitizedMessage where
  "sample_message = SM_Legacy
     \<lparr>lgm_message =
        \<lparr>header = \<lparr>num_required_signatures = 1, num_readonly_signed_accounts = 0, num_readonly_unsigned_accounts = 1\<rparr>,
         msg_account_keys = [8, 9, 0], msg_recent_blockhash = 77,
         msg_instructions = [\<lparr>program_id_index = 2, ci_accounts = [0, 1], ci_data = []\<rparr>]\<rparr>,
      lgm_is_writable_account_cache = [True, True, False]\<rparr>"

definition sample_message_tc :: TransactionContext where
  "sample_message_tc =
     TransactionContext_new [(8, shared_new 100 0 0), (9, shared_new 0 0 0), (0, shared_new 1 0 native_loader_id)]
       (Some Rent_default) 5 64"

definition early_env :: InvokeEnv where
  "early_env = sample_env\<lparr>feature_set :=
     (\<lambda>f. if f = enable_early_verification_of_account_modifications then Some 0 else None)\<rparr>"

definition sample_builtins :: "BuiltinProgram list" where
  "sample_builtins =
     [system_builtin (\<lambda>_. Some (Transfer 30)) sample_sha256 sample_codec,
      vote_builtin (\<lambda>_. None) \<lparr>bc_serialize = (\<lambda>_. None), bc_deserialize = (\<lambda>_. None)\<rparr> sample_sha256]"

definition sample_processed ::
    "(TransactionError fault + ProcessedMessageInfo) \<times> TransactionContext \<times> u64" where
  "sample_processed = process_message sample_builtins sample_message [[2]] sample_message_tc Rent_default
     ComputeBudget_default early_env 0 0"

lemma sample_message_accounts:
  "message_accounts sample_message [0, 1] =
     [\<lparr>ia_index_in_transaction = 0, ia_index_in_caller = 0, ia_index_in_callee = 0, ia_is_signer = True, ia_is_writable = True\<rparr>,
      \<lparr>ia_index_in_transaction = 1, ia_index_in_caller = 1, ia_index_in_callee = 1, ia_is_signer = False, ia_is_writable = True\<rparr>]"
  by (simp add: message_accounts_def message_account_def sample_message_def SanitizedMessage_is_signer_def
    cached_def get_def)

lemma sample_message_instructions:
  "program_instructions_iter sample_message = [Some (0, \<lparr>program_id_index = 2, ci_accounts = [0, 1], ci_data = []\<rparr>)]"
  by (simp add: program_instructions_iter_def sample_message_def AccountKeys_get_def key_segment_iter_def)

lemma sample_processed_runs:
  "\<exists>info tc' units. sample_processed = (Inr info, tc', units) \<and> map lamports (account_values tc') = [70, 30, 1]"
  by (simp add: sample_processed_def process_message_def sample_message_instructions process_message_instruction_def
      fixup_instructions_sysvar_def is_precompile_def PRECOMPILES_def Precompile_check_id_def Instructions_id_def
      sample_message_accounts sample_message_tc_def sample_builtins_def system_builtin_def builtin_entry_def
      early_env_def InvokeContext_new_def process_instruction_def process_executable_chain_def root_program_def
      InvokeContext_push_def enter_frame_def InvokeContext_pop_def verify_callee_def lift_fault_def and_pop_def
      early_verification_def is_active_def set_return_data_def native_loader_id_def get_remaining_def Let_def exec)

theorem message_conserves_lamports_witness:
  "\<exists>info tc' units. sample_processed = (Inr info, tc', units) \<and> map lamports (account_values tc') = [70, 30, 1] \<and>
     total_lamports tc' = total_lamports sample_message_tc \<and>
     account_values tc' ! 2 = account_values sample_message_tc ! 2"
proof -
  obtain info tc' units where run: "process_message sample_builtins sample_message [[2]] sample_message_tc Rent_default
      ComputeBudget_default early_env 0 0 = (Inr info, tc', units)" and res: "map lamports (account_values tc') = [70, 30, 1]"
    using sample_processed_runs unfolding sample_processed_def by (elim exE conjE)
  have new: "instruction_stack sample_message_tc = []" "stack_wf sample_message_tc" "tc_rent sample_message_tc \<noteq> None"
    "length (accounts sample_message_tc) = 3" "account_keys sample_message_tc = [8, 9, 0]"
    by (simp_all add: sample_message_tc_def stack_wf_new) (simp_all add: TransactionContext_new_def)
  have early: "is_active (feature_set early_env) enable_early_verification_of_account_modifications"
    by (simp add: early_env_def is_active_def)
  have programs: "\<forall>entry \<in> set sample_builtins. \<forall>first. local_program (bp_process_instruction entry first)"
    by (simp add: sample_builtins_def system_builtin_local vote_builtin_local)
  have read: "\<not> SanitizedMessage_is_writable sample_message 2" "get [8, 9, 0 :: pubkey] 2 \<noteq> Some Instructions_id"
    by (simp_all add: sample_message_def cached_def get_def Instructions_id_def)
  have "\<forall>ci \<in> set (SanitizedMessage_instructions sample_message). length (ci_accounts ci) < 2 ^ 15"
    by (simp add: sample_message_def)
  from message_conserves_lamports [OF run new(1-3) early programs this] read res run show ?thesis
    by (simp add: new sample_processed_def)
qed

end
