(* ===== verification/Spec2Isabelle.thy ===== *)
theory Spec2Isabelle
  imports SystemProperties SystemProgress VoteSafety VoteCompact ComputeBudget InvokePrivileges InvokeSafety
    MessageTables MessageProcessor
begin

text \<open>
  A model of the account runtime of the pythnet validator, with proofs.  The subject is the part of
  the repository that decides what a transaction may do to accounts: how a message is built and
  checked, how its instructions are run one after the other, what a program may write, and what the
  system and vote programs do.  Paths below are relative to \<^verbatim>\<open>src/\<close>.

  \<^bold>\<open>The parts and how they interact.\<close>  A client compiles instructions into a message, legacy or
  version 0 (\<^verbatim>\<open>sdk/program/src/message\<close>).  The message processor
  (\<^verbatim>\<open>runtime/src/message_processor.rs\<close>) runs the instructions of a sanitized message on a transaction
  context, which holds the accounts, a stack of running instructions and a trace
  (\<^verbatim>\<open>sdk/src/transaction_context.rs\<close>).  The invoke context
  (\<^verbatim>\<open>program-runtime/src/invoke_context.rs\<close>) pushes an instruction, dispatches it to a builtin program
  and pops it; a program reads and writes accounts only through borrowed accounts.  The rules for
  writes are enforced either at each write (\<open>early verification\<close>) or after the instruction by
  comparison with copies (\<^verbatim>\<open>program-runtime/src/pre_account.rs\<close>, \<open>late verification\<close>); at both times
  the lamports of the accounts of an instruction must balance.

  \<^bold>\<open>Conventions.\<close>  Machine integers are words of their width; a public key or hash is a 256-bit word,
  most significant byte first, so that the order of words is the order of keys; \<open>usize\<close> is a natural
  number, since every value of it is the length or an index of a list in memory; \<open>i64\<close> is an integer
  with its saturation written out.  A \<open>Result\<close> is a sum whose left part is the error; a panic is the
  value \<open>Panic\<close> of type \<open>'e fault\<close>, or \<open>None\<close> where a function has no other failure.  The mutable
  transaction context is passed as a value; the \<open>RefCell\<close> of an account is a cell with a borrow flag.
  Hash functions, the test for curve points, the serialization of states (bincode, borsh) and the
  loader of lookup tables are arguments; what a theorem needs of them is a hypothesis.  Recursion
  follows the loops of the source, so that every definition is total and no fuel is used.  Facts
  collected under \<open>exec\<close> let \<open>simp\<close> run the definitions on concrete inputs, which is how the
  witnesses are evaluated.

  \<^bold>\<open>Foundations.\<close>
  \<^item> \<open>Prelude\<close>, \<open>Bytes\<close>, \<open>Float64\<close>: results, options, word arithmetic without overflow, saturating and
    checked operations; little-endian bytes; IEEE doubles as far as the rent computation uses them.
  \<^item> \<open>Errors\<close>: \<^verbatim>\<open>InstructionError\<close>, \<^verbatim>\<open>ProgramError\<close> and the numeric codes.
  \<^item> \<open>Rent\<close> (\<^verbatim>\<open>sdk/program/src/rent.rs\<close>), \<open>Accounts\<close> (\<^verbatim>\<open>sdk/src/account.rs\<close>), \<open>Histories\<close> (slot hashes
    and stake history), \<open>EpochSchedule\<close>, \<open>Sysvars\<close> (the cache of
    \<^verbatim>\<open>program-runtime/src/sysvar_cache.rs\<close> and feature activation), \<open>Keys\<close> (derived addresses).  The
    locale \<open>bounded_history\<close> holds the contract of the two histories.
  \<^item> \<open>ShortVec\<close>, \<open>VarInt\<close>, \<open>VoteCompact\<close>: the compact wire formats, with decoders that accept exactly
    the canonical encodings.

  \<^bold>\<open>Writing accounts.\<close>  \<open>TransactionContext\<close> has push and pop with the lamport sums, \<open>BorrowedAccount\<close>
  every guarded write.  The locale \<open>guarded_write\<close> states what a write may do; it is interpreted for
  each of the writers.  \<open>PreAccount\<close> relates the two ways of enforcing the rules: what the guarded
  writes allow passes the late verification, and what the late verification accepts can be reached by
  guarded writes.  \<open>BuiltinProgram\<close> has the step relation of a program that works through borrowed
  accounts, its invariants, and the locale \<open>builtin_program\<close> with what follows from them for any such
  program.

  \<^bold>\<open>Programs.\<close>  \<open>Nonce\<close> and \<open>SystemProgram\<close> (\<^verbatim>\<open>runtime/src/nonce_keyed_account.rs\<close>,
  \<^verbatim>\<open>runtime/src/system_instruction_processor.rs\<close>) are every instruction of the system program, an
  interpretation of \<open>builtin_program\<close>; \<open>SystemProperties\<close> shows conservation of lamports, that debits are
  authorised and what nonces guarantee, and \<open>SystemProgress\<close> that a transfer within the rules succeeds.
  \<open>VoteState\<close>, \<open>VoteTower\<close>, \<open>VoteRecords\<close> (\<^verbatim>\<open>sdk/program/src/vote\<close>), \<open>VoteProcessing\<close>, \<open>VoteChecks\<close>,
  \<open>VoteProperties\<close>, \<open>VoteProgram\<close>, \<open>VoteContract\<close>, \<open>VoteSafety\<close> (\<^verbatim>\<open>programs/vote/src\<close>) are the vote
  program, the second interpretation: lockouts are respected, votes are on the fork of the slot hashes,
  roots do not move back, a new voter takes over from its epoch on, accounts stay well formed, and only
  the named authorities change them.

  \<^bold>\<open>Running instructions.\<close>  \<open>ComputeBudget\<close> has the budget of a transaction and its bounds.
  \<open>InvokeContext\<close> is the invocation of programs, inner instructions included, with the compute meter and
  the accounts data meter.  \<open>InvokePrivileges\<close> shows that an inner instruction gets no privilege its
  caller lacks, \<open>InvokeStack\<close> that the stack is restored whatever happens, \<open>InvokeSafety\<close> that with late
  verification the rules hold for any program, and that with early verification an instruction of
  local programs conserves all lamports and touches only writable accounts.

  \<^bold>\<open>Messages.\<close>  \<open>Messages\<close> has both formats, the collection of keys, lookup tables and the sanitized
  message.  \<open>MessageCompile\<close> and \<open>MessageTables\<close> show that compiling works for up to 255 keys, the
  bound of the one-byte counts of the header, that the result passes sanitizing and that
  decompiling gives back the instructions with exactly the privileges they asked for.
  \<open>MessageProcessor\<close> composes everything: a message that succeeds with early verification conserves
  lamports and changes only what it marks as writable, and the system and vote programs meet the condition on programs.

  \<^bold>\<open>Defects.\<close>  Theorems about two of them are part of the development: with a root of slot 0 an accepted
  vote state update can lead to a failing assertion (\<open>VoteProperties\<close>), and growth of accounts
  during inner instructions is never counted by the accounts data meter (\<open>InvokeStack\<close>).

  \<^bold>\<open>Not modelled.\<close>  Logging, wall-clock timings, executor caches and allocators of the invoke context;
  the serialization and hashing of messages; the loaders and the virtual machine, whose core is an
  external crate; the stake, config and lookup-table programs, which are further builtin programs of
  the same interface; the bank and the accounts database around the processor, which are concurrent
  storage; consensus, ledger, gossip, RPC, clients and tools, which are input and output around that
  state.
\<close>

end
